(* ===== verification/Prelude.thy ===== *)
theory Prelude
  imports Main "HOL-Library.Word" "HOL-Library.Sublist" "HOL-Library.Char_ord"
    "HOL-Library.List_Lexorder"
begin

text \<open>
  Shared vocabulary of the development: the machine integers, the result type of fallible
  Rust code, and the operations of Rust's standard library on strings that the sources use
  (\<open>starts_with\<close>, \<open>strip_prefix\<close>, \<open>split\<close>, \<open>trim\<close>, \<open>to_ascii_lowercase\<close>,
  \<open>contains\<close>, \<open>parse::<u64>\<close>), with the lemmas every component uses about them.

  A Rust \<open>String\<close> is its sequence of UTF-8 bytes and a \<open>Vec<u8>\<close> is a sequence of
  bytes; both are lists of HOL's 8-bit \<open>char\<close>, so \<open>as_bytes\<close> is the identity.
\<close>

section \<open>Types\<close>

type_synonym u16 = "16 word"
type_synonym u64 = "64 word"
type_synonym u128 = "128 word"
type_synonym bytes = "char list"

named_theorems step_simps \<open>the equations that run one step of a component\<close>
named_theorems effect_simps \<open>what an operation does to a component's abstract view\<close>

section \<open>Results\<close>

text \<open>
  \<open>Result<A, E>\<close> with one more outcome: a panic (an \<open>unwrap\<close> or \<open>expect\<close> of an error, or an
  explicit \<open>panic!\<close> or canister trap), with its message.
\<close>

datatype ('a, 'e) outcome = Ok 'a | Err 'e | Panic string

text \<open>The \<open>?\<close> operator and \<open>map\<close>, \<open>map_err\<close>, \<open>expect\<close> of Rust's \<open>Result\<close>.\<close>

fun and_then :: "('a, 'e) outcome \<Rightarrow> ('a \<Rightarrow> ('b, 'e) outcome) \<Rightarrow> ('b, 'e) outcome" where
  "and_then (Ok x) f = f x"
| "and_then (Err e) f = Err e"
| "and_then (Panic m) f = Panic m"

fun map_ok :: "('a \<Rightarrow> 'b) \<Rightarrow> ('a, 'e) outcome \<Rightarrow> ('b, 'e) outcome" where
  "map_ok f (Ok x) = Ok (f x)"
| "map_ok f (Err e) = Err e"
| "map_ok f (Panic m) = Panic m"

fun map_err :: "('e \<Rightarrow> 'f) \<Rightarrow> ('a, 'e) outcome \<Rightarrow> ('a, 'f) outcome" where
  "map_err f (Ok x) = Ok x"
| "map_err f (Err e) = Err (f e)"
| "map_err f (Panic m) = Panic m"

fun expect :: "string \<Rightarrow> ('a, 'e) outcome \<Rightarrow> ('a, 'f) outcome" where
  "expect msg (Ok x) = Ok x"
| "expect msg (Err e) = Panic msg"
| "expect msg (Panic m) = Panic m"

fun is_panic :: "('a, 'e) outcome \<Rightarrow> bool" where
  "is_panic (Panic m) = True"
| "is_panic r = False"

fun ok_or :: "'e \<Rightarrow> 'a option \<Rightarrow> ('a, 'e) outcome" where
  "ok_or e None = Err e"
| "ok_or e (Some x) = Ok x"

lemma and_then_eq_Ok [simp]:
  "and_then r f = Ok y \<longleftrightarrow> (\<exists>x. r = Ok x \<and> f x = Ok y)"
  by (cases r) auto

lemma map_ok_eq_Ok [simp]: "map_ok f r = Ok y \<longleftrightarrow> (\<exists>x. r = Ok x \<and> y = f x)"
  by (cases r) auto

lemma map_err_eq_Ok [simp]: "map_err f r = Ok y \<longleftrightarrow> r = Ok y"
  by (cases r) auto

lemma expect_eq_Ok [simp]: "expect msg r = Ok y \<longleftrightarrow> r = Ok y"
  by (cases r) auto

lemma expect_not_Err [simp]: "expect msg r \<noteq> Err e"
  by (cases r) auto

lemma ok_or_eq_Ok [simp]: "ok_or e r = Ok y \<longleftrightarrow> r = Some y"
  by (cases r) auto

lemma is_panic_and_then [simp]:
  "is_panic (and_then r f) \<longleftrightarrow> is_panic r \<or> (\<exists>x. r = Ok x \<and> is_panic (f x))"
  by (cases r) auto

lemma is_panic_map [simp]: "is_panic (map_err f r) \<longleftrightarrow> is_panic r" "is_panic (map_ok g r) \<longleftrightarrow> is_panic r"
  by (cases r; simp)+

lemma is_panic_ok_or [simp]: "\<not> is_panic (ok_or e x)"
  by (cases x) auto

lemma is_panic_iff: "is_panic r \<longleftrightarrow> (\<exists>m. r = Panic m)"
  by (cases r) auto

section \<open>Machine arithmetic\<close>

text \<open>
  Rust's \<open>+\<close> on \<open>u64\<close> in a release build (the profile the repository ships) wraps, as
  \<open>+\<close> on words does. A sum that does not overflow is the sum of the values.
\<close>

definition no_overflow :: "'l::len word \<Rightarrow> 'l word \<Rightarrow> bool" where
  "no_overflow a b \<longleftrightarrow> unat a + unat b < 2 ^ LENGTH('l)"

lemma unat_add_no_overflow: "no_overflow a b \<Longrightarrow> unat (a + b) = unat a + unat b"
  by (simp add: no_overflow_def unat_word_ariths)

lemma no_overflow_mono: "no_overflow b t \<Longrightarrow> a \<le> b \<Longrightarrow> no_overflow a t"
  by (simp add: no_overflow_def word_le_nat_alt)

lemma add_mono_no_overflow: "no_overflow b t \<Longrightarrow> a \<le> b \<Longrightarrow> a + t \<le> b + t"
  by (simp add: word_le_nat_alt unat_add_no_overflow no_overflow_mono)

lemma less_add_no_overflow: "no_overflow a t \<Longrightarrow> 0 < t \<Longrightarrow> a < a + t"
  by (simp add: word_less_nat_alt unat_add_no_overflow)

lemma le_add_no_overflow: "no_overflow a t \<Longrightarrow> a \<le> a + t"
  by (simp add: word_le_nat_alt unat_add_no_overflow)

text \<open>\<open>u128::saturating_add\<close>.\<close>

definition saturating_add :: "'l::len word \<Rightarrow> 'l word \<Rightarrow> 'l word" where
  "saturating_add a b = (if no_overflow a b then a + b else - 1)"

lemma unat_saturating_add:
  "unat (saturating_add a b :: 'l::len word) = min (unat a + unat b) (2 ^ LENGTH('l) - 1)"
proof -
  have "unat (- 1 :: 'l word) = 2 ^ LENGTH('l) - 1"
    by (simp add: unsigned_minus_1_eq_mask mask_eq_exp_minus_1)
  then show ?thesis
    by (auto simp: saturating_add_def unat_add_no_overflow no_overflow_def)
qed

section \<open>Strings\<close>

definition starts_with :: "string \<Rightarrow> string \<Rightarrow> bool" where
  "starts_with s p = prefix p s"

definition strip_prefix :: "string \<Rightarrow> string \<Rightarrow> string option" where
  "strip_prefix s p = (if starts_with s p then Some (drop (length p) s) else None)"

lemma strip_prefix_append [simp]: "strip_prefix (p @ s) p = Some s"
  by (simp add: strip_prefix_def starts_with_def)

lemma starts_with_append [simp]: "starts_with (p @ s) p"
  by (simp add: starts_with_def)

definition str_contains :: "string \<Rightarrow> string \<Rightarrow> bool" where
  "str_contains s p = sublist p s"

definition ascii_lower :: "char \<Rightarrow> char" where
  "ascii_lower c = (let n = of_char c :: nat in if 65 \<le> n \<and> n \<le> 90 then char_of (n + 32) else c)"

definition to_ascii_lowercase :: "string \<Rightarrow> string" where
  "to_ascii_lowercase s = map ascii_lower s"

text \<open>\<open>str::split\<close> on one character: always at least one piece.\<close>

fun split_char :: "char \<Rightarrow> string \<Rightarrow> string list" where
  "split_char c [] = [[]]"
| "split_char c (x # xs) =
     (if x = c then [] # split_char c xs
      else (case split_char c xs of [] \<Rightarrow> [[x]] | p # ps \<Rightarrow> (x # p) # ps))"

lemma split_char_nonempty [simp]: "split_char c s \<noteq> []"
  by (induction s) (auto split: list.splits)

lemma split_char_not_in: "p \<in> set (split_char c s) \<Longrightarrow> c \<notin> set p"
  by (induction s arbitrary: p) (auto split: list.splits if_splits)

lemma split_char_no_sep: "c \<notin> set s \<Longrightarrow> split_char c s = [s]"
  by (induction s) auto

lemma split_char_append: "c \<notin> set s \<Longrightarrow> split_char c (s @ c # t) = s # split_char c t"
  by (induction s) auto

text \<open>
  \<open>str::trim\<close> removes Unicode white space at both ends. The UTF-8 encodings of the
  code points with the property White\_Space are the 25 byte sequences below; UTF-8 is
  self-synchronizing, so removing encodings at the byte level removes whole code points.
\<close>

definition white_space :: "string list" where
  "white_space =
     [[CHR 0x09], [CHR 0x0A], [CHR 0x0B],
      [CHR 0x0C], [CHR 0x0D], [CHR 0x20],
      [CHR 0xC2, CHR 0x85], [CHR 0xC2, CHR 0xA0], [CHR 0xE1, CHR 0x9A, CHR 0x80],
      [CHR 0xE2, CHR 0x80, CHR 0x80], [CHR 0xE2, CHR 0x80, CHR 0x81], [CHR 0xE2, CHR 0x80, CHR 0x82],
      [CHR 0xE2, CHR 0x80, CHR 0x83], [CHR 0xE2, CHR 0x80, CHR 0x84], [CHR 0xE2, CHR 0x80, CHR 0x85],
      [CHR 0xE2, CHR 0x80, CHR 0x86], [CHR 0xE2, CHR 0x80, CHR 0x87], [CHR 0xE2, CHR 0x80, CHR 0x88],
      [CHR 0xE2, CHR 0x80, CHR 0x89], [CHR 0xE2, CHR 0x80, CHR 0x8A], [CHR 0xE2, CHR 0x80, CHR 0xA8],
      [CHR 0xE2, CHR 0x80, CHR 0xA9], [CHR 0xE2, CHR 0x80, CHR 0xAF], [CHR 0xE2, CHR 0x81, CHR 0x9F],
      [CHR 0xE3, CHR 0x80, CHR 0x80]]"

lemma white_space_nonempty: "w \<in> set white_space \<Longrightarrow> w \<noteq> []"
  by (auto simp: white_space_def)

fun strip_any :: "string list \<Rightarrow> string \<Rightarrow> string option" where
  "strip_any [] s = None"
| "strip_any (w # ws) s =
     (if w \<noteq> [] \<and> prefix w s then Some (drop (length w) s) else strip_any ws s)"

lemma strip_any_shorter: "strip_any ws s = Some t \<Longrightarrow> length t < length s"
proof (induction ws)
  case Nil
  then show ?case by simp
next
  case (Cons w ws)
  then show ?case
    by (cases "w \<noteq> [] \<and> prefix w s")
      (auto simp: prefix_def split: if_splits)
qed

function trim_start_by :: "string list \<Rightarrow> string \<Rightarrow> string" where
  "trim_start_by ws s = (case strip_any ws s of None \<Rightarrow> s | Some t \<Rightarrow> trim_start_by ws t)"
  by pat_completeness auto
termination
  by (relation "measure (\<lambda>(ws, s). length s)") (auto dest: strip_any_shorter)

declare trim_start_by.simps [simp del]

definition trim :: "string \<Rightarrow> string" where
  "trim s = rev (trim_start_by (map rev white_space) (rev (trim_start_by white_space s)))"

lemma strip_any_suffix: "strip_any ws s = Some t \<Longrightarrow> suffix t s"
  by (induction ws) (auto simp: suffix_drop split: if_splits)

lemma trim_start_suffix: "suffix (trim_start_by ws s) s"
proof (induction ws s rule: trim_start_by.induct)
  case (1 ws s)
  then show ?case
    by (cases "strip_any ws s")
      (auto simp: trim_start_by.simps [of ws s] dest: strip_any_suffix intro: suffix_order.trans)
qed

lemma trim_start_done: "strip_any ws (trim_start_by ws s) = None"
proof (induction ws s rule: trim_start_by.induct)
  case (1 ws s)
  then show ?case
    by (cases "strip_any ws s") (auto simp: trim_start_by.simps [of ws s])
qed

lemma trim_sublist: "sublist (trim s) s"
proof -
  have a: "suffix (trim_start_by white_space s) s"
    by (rule trim_start_suffix)
  have "suffix (trim_start_by (map rev white_space) (rev (trim_start_by white_space s)))
      (rev (trim_start_by white_space s))"
    by (rule trim_start_suffix)
  then have b: "prefix (trim s) (trim_start_by white_space s)"
    by (simp add: trim_def suffix_to_prefix)
  from a b show ?thesis
    by (meson prefix_imp_sublist sublist_order.order.trans suffix_imp_sublist)
qed

lemma set_trim: "set (trim s) \<subseteq> set s"
  by (rule set_mono_sublist [OF trim_sublist])

lemma trim_start_id: "strip_any ws s = None \<Longrightarrow> trim_start_by ws s = s"
  by (simp add: trim_start_by.simps [of ws s])

lemma trim_id:
  "strip_any white_space s = None \<Longrightarrow> strip_any (map rev white_space) (rev s) = None \<Longrightarrow> trim s = s"
  by (simp add: trim_def trim_start_id)

lemma strip_any_Nil [simp]: "strip_any ws [] = None"
  by (induction ws) auto

lemma trim_start_Nil [simp]: "trim_start_by ws [] = []"
  by (simp add: trim_start_by.simps [of ws "[]"])

lemma trim_Nil [simp]: "trim [] = []"
  by (simp add: trim_def)

text \<open>
  \<open>String::from_utf8_lossy\<close>: valid UTF-8 is kept, each maximal invalid part becomes U+FFFD.
  \<open>utf8_lead\<close> gives, for a lead byte, how many bytes follow and the range of the first of them.
\<close>

definition utf8_lead :: "nat \<Rightarrow> (nat \<times> nat \<times> nat) option" where
  "utf8_lead b =
     (if 0xC2 \<le> b \<and> b \<le> 0xDF then Some (1, 0x80, 0xBF)
      else if b = 0xE0 then Some (2, 0xA0, 0xBF)
      else if b = 0xED then Some (2, 0x80, 0x9F)
      else if 0xE1 \<le> b \<and> b \<le> 0xEF then Some (2, 0x80, 0xBF)
      else if b = 0xF0 then Some (3, 0x90, 0xBF)
      else if 0xF1 \<le> b \<and> b \<le> 0xF3 then Some (3, 0x80, 0xBF)
      else if b = 0xF4 then Some (3, 0x80, 0x8F)
      else None)"

fun utf8_matched :: "nat \<Rightarrow> nat \<Rightarrow> nat \<Rightarrow> bytes \<Rightarrow> nat" where
  "utf8_matched 0 lo hi bs = 0"
| "utf8_matched (Suc n) lo hi [] = 0"
| "utf8_matched (Suc n) lo hi (b # bs) =
     (if lo \<le> of_char b \<and> of_char b \<le> hi then Suc (utf8_matched n 0x80 0xBF bs) else 0)"

definition replacement_char :: string where
  "replacement_char = [CHR 0xEF, CHR 0xBF, CHR 0xBD]"

function from_utf8_lossy :: "bytes \<Rightarrow> string" where
  "from_utf8_lossy [] = []"
| "from_utf8_lossy (b # bs) =
     (if of_char b < (0x80 :: nat) then b # from_utf8_lossy bs
      else (case utf8_lead (of_char b) of
              None \<Rightarrow> replacement_char @ from_utf8_lossy bs
            | Some (n, lo, hi) \<Rightarrow>
                (let m = utf8_matched n lo hi bs
                 in (if m = n then b # take n bs else replacement_char) @ from_utf8_lossy (drop m bs))))"
  by pat_completeness auto
termination
  by (relation "measure length") auto

lemma from_utf8_lossy_ascii: "(\<And>c. c \<in> set s \<Longrightarrow> of_char c < (0x80 :: nat)) \<Longrightarrow> from_utf8_lossy s = s"
  by (induction s) auto

text \<open>\<open>str::parse::<u64>\<close>: an optional plus sign, then digits, without overflow.\<close>

definition digit_val :: "char \<Rightarrow> nat option" where
  "digit_val c = (let n = of_char c :: nat in if 48 \<le> n \<and> n \<le> 57 then Some (n - 48) else None)"

fun parse_digits :: "nat \<Rightarrow> string \<Rightarrow> nat option" where
  "parse_digits acc [] = Some acc"
| "parse_digits acc (c # cs) =
     (case digit_val c of
        None \<Rightarrow> None
      | Some d \<Rightarrow> if acc * 10 + d < 2 ^ 64 then parse_digits (acc * 10 + d) cs else None)"

definition parse_u64 :: "string \<Rightarrow> u64 option" where
  "parse_u64 s =
     (let t = (case strip_prefix s ''+'' of None \<Rightarrow> s | Some r \<Rightarrow> r)
      in if t = [] then None else map_option of_nat (parse_digits 0 t))"

section \<open>An encoding for instances\<close>

text \<open>A self-delimiting encoding of strings, for instances of the codec parameters in witnesses.\<close>

fun enc_str :: "string \<Rightarrow> bytes" where
  "enc_str [] = [CHR 0x00]"
| "enc_str (c # cs) = CHR 0x01 # c # enc_str cs"

fun dec_str :: "bytes \<Rightarrow> (string \<times> bytes) option" where
  "dec_str (t # c # bs) = (if t = CHR 0x01 then map_option (\<lambda>(s, r). (c # s, r)) (dec_str bs)
                           else if t = CHR 0x00 then Some ([], c # bs) else None)"
| "dec_str [t] = (if t = CHR 0x00 then Some ([], []) else None)"
| "dec_str [] = None"

lemma dec_enc_str [simp]: "dec_str (enc_str s @ r) = Some (s, r)"
  by (induction s) (cases r; simp)+

end
