(* ===== verification/Cacher.thy ===== *)
theory Cacher
  imports Prelude
begin

text \<open>
  The trait \<open>Cacher\<close> of \<open>src/idempotent-proxy-server/src/cache/mod.rs\<close> as a contract.
  Every operation runs on the shared cache at one instant \<open>now\<close> (milliseconds) and returns its
  result and the cache afterwards; \<open>polling_get\<close> is a loop, so the contract is about one round
  of it. The contract speaks of the abstract view \<open>live c t k\<close>: what a client may rely on
  finding under key \<open>k\<close> at time \<open>t\<close>, and of an invariant per key, which a \<open>put\<close> that fails for the
  key may break. The two implementations and the enum that dispatches
  to them are proved to satisfy the contract in their own theories.
\<close>

section \<open>What a key may hold, and one polling round\<close>

datatype cached = Pending | Ready bytes

datatype polled = PollAgain | PollDone "(bytes, string) outcome"

section \<open>The contract\<close>

locale cacher =
  fixes obt :: "'c \<Rightarrow> u64 \<Rightarrow> string \<Rightarrow> u64 \<Rightarrow> (bool, string) outcome \<times> 'c"
    and pol :: "'c \<Rightarrow> u64 \<Rightarrow> string \<Rightarrow> polled \<times> 'c"
    and put :: "'c \<Rightarrow> u64 \<Rightarrow> string \<Rightarrow> bytes \<Rightarrow> u64 \<Rightarrow> (bool, string) outcome \<times> 'c"
    and del :: "'c \<Rightarrow> u64 \<Rightarrow> string \<Rightarrow> (unit, string) outcome \<times> 'c"
    and bg :: "'c \<Rightarrow> u64 \<Rightarrow> 'c"
    and live :: "'c \<Rightarrow> u64 \<Rightarrow> string \<Rightarrow> cached option"
    and readable :: "bytes \<Rightarrow> bool"
    and invar :: "string \<Rightarrow> 'c \<Rightarrow> bool"
  assumes live_antimono: "live c t k \<noteq> None \<Longrightarrow> s \<le> t \<Longrightarrow> live c s k \<noteq> None"
    and obt_Ok: "obt c now k ttl = (Ok b, c') \<Longrightarrow> b \<longleftrightarrow> live c now k = None"
    and obt_True: "obt c now k ttl = (Ok True, c') \<Longrightarrow> no_overflow now ttl \<Longrightarrow> now \<le> t \<Longrightarrow>
          live c' t k = (if t < now + ttl then Some Pending else None)"
    and obt_keeps: "obt c now k ttl = (r, c') \<Longrightarrow> now \<le> t \<Longrightarrow> live c t k' \<noteq> None \<Longrightarrow>
          live c' t k' = live c t k'"
    and obt_other: "obt c now k ttl = (r, c') \<Longrightarrow> now \<le> t \<Longrightarrow> k' \<noteq> k \<Longrightarrow>
          live c' t k' = live c t k'"
    and pol_live: "pol c now k = (p, c') \<Longrightarrow> live c' t k' = live c t k'"
    and pol_Ready: "pol c now k = (p, c') \<Longrightarrow> live c now k = Some (Ready v) \<Longrightarrow>
          p = PollDone (Ok v) \<or> (\<exists>e. p = PollDone (Err e))"
    and pol_Pending: "pol c now k = (p, c') \<Longrightarrow> live c now k = Some Pending \<Longrightarrow>
          p = PollAgain \<or> (\<exists>e. p = PollDone (Err e))"
    and put_True: "put c now k v ttl = (Ok True, c') \<Longrightarrow> no_overflow now ttl \<Longrightarrow> now \<le> t \<Longrightarrow>
          (if t < now + ttl then \<exists>x. live c' t k = Some x \<and> (readable v \<longrightarrow> x = Ready v)
           else live c' t k = None)"
    and put_Ok: "put c now k v ttl = (Ok b, c') \<Longrightarrow> b \<longleftrightarrow> live c now k \<noteq> None"
    and put_keeps: "put c now k v ttl = (r, c') \<Longrightarrow> no_overflow now ttl \<Longrightarrow> now \<le> t \<Longrightarrow> t < now + ttl \<Longrightarrow>
          live c t k \<noteq> None \<Longrightarrow> live c' t k \<noteq> None"
    and put_other: "put c now k v ttl = (r, c') \<Longrightarrow> now \<le> t \<Longrightarrow> k' \<noteq> k \<Longrightarrow>
          live c' t k' = live c t k'"
    and del_Ok: "del c now k = (Ok (), c') \<Longrightarrow> now \<le> t \<Longrightarrow> live c' t k = None"
    and del_other: "del c now k = (d, c') \<Longrightarrow> now \<le> t \<Longrightarrow> k' \<noteq> k \<Longrightarrow> live c' t k' = live c t k'"
    and bg_live: "invar k c \<Longrightarrow> now \<le> t \<Longrightarrow> live (bg c now) t k = live c t k"
    and invar_obt: "invar k' c \<Longrightarrow> obt c now k ttl = (r, c') \<Longrightarrow> invar k' c'"
    and invar_pol: "invar k' c \<Longrightarrow> pol c now k = (p, c') \<Longrightarrow> invar k' c'"
    and invar_put: "invar k' c \<Longrightarrow> put c now k v ttl = (r, c') \<Longrightarrow> r = Ok True \<or> k' \<noteq> k \<Longrightarrow> invar k' c'"
    and invar_del: "invar k' c \<Longrightarrow> del c now k = (d, c') \<Longrightarrow> invar k' c'"
    and invar_bg: "invar k' c \<Longrightarrow> invar k' (bg c now)"
begin

text \<open>
  A lease: from \<open>now\<close> until \<open>u\<close> the key is taken. This is what makes the first request with an
  idempotency key the only one that is forwarded.
\<close>

definition held :: "'c \<Rightarrow> u64 \<Rightarrow> string \<Rightarrow> u64 \<Rightarrow> bool" where
  "held c now k u \<longleftrightarrow> (\<forall>t. now \<le> t \<longrightarrow> t < u \<longrightarrow> live c t k \<noteq> None)"

lemma held_later: "held c now k u \<Longrightarrow> now \<le> now' \<Longrightarrow> held c now' k u"
  by (auto simp: held_def)

lemma obt_grants: "obt c now k ttl = (Ok True, c') \<Longrightarrow> no_overflow now ttl \<Longrightarrow> held c' now k (now + ttl)"
  by (simp add: held_def obt_True)

lemma held_refuses:
  assumes "held c now k u" and "now < u"
  shows "obt c now k ttl \<noteq> (Ok True, c')"
proof
  assume "obt c now k ttl = (Ok True, c')"
  from obt_Ok [OF this] have "live c now k = None" by simp
  moreover have "live c now k \<noteq> None" using assms order.refl unfolding held_def by blast
  ultimately show False by simp
qed

lemma held_obt:
  assumes "held c now k u" and "obt c now k' ttl = (r, c')"
  shows "held c' now k u"
  using assms(1) by (simp add: held_def obt_keeps [OF assms(2)])

lemma held_pol:
  assumes "held c now k u" and "pol c now k' = (r, c')"
  shows "held c' now k u"
  using assms(1) by (simp add: held_def pol_live [OF assms(2)])

lemma held_bg: "invar k c \<Longrightarrow> t0 \<le> now \<Longrightarrow> held c now k u \<Longrightarrow> held (bg c t0) now k u"
  by (auto simp: held_def bg_live)

lemma held_del:
  assumes "held c now k u" and "del c now k' = (r, c')" and "k' \<noteq> k"
  shows "held c' now k u"
  using assms(1) by (simp add: held_def del_other [OF assms(2) _ assms(3) [symmetric]])

lemma held_put:
  assumes "held c now k u" and "put c now k' v ttl = (r, c')"
    and "no_overflow now ttl" and "u \<le> now + ttl"
  shows "held c' now k u"
  unfolding held_def
proof (intro allI impI)
  fix t
  assume t: "now \<le> t" "t < u"
  with assms(1) have l: "live c t k \<noteq> None" by (simp add: held_def)
  show "live c' t k \<noteq> None"
  proof (cases "k' = k")
    case True
    have "t < now + ttl" using t(2) assms(4) by (rule order.strict_trans2)
    from put_keeps [OF assms(2,3) t(1) this] l True show ?thesis by simp
  next
    case False
    with put_other [OF assms(2) t(1), of k] l show ?thesis by simp
  qed
qed

text \<open>
  The response a leader stores is the one every later client reads while it is live: nobody but
  a deleter of this key can replace it, and polling returns it.
\<close>

definition answers :: "'c \<Rightarrow> u64 \<Rightarrow> string \<Rightarrow> bytes \<Rightarrow> u64 \<Rightarrow> bool" where
  "answers c now k v u \<longleftrightarrow> (\<forall>t. now \<le> t \<longrightarrow> t < u \<longrightarrow> live c t k = Some (Ready v))"

lemma answers_held: "answers c now k v u \<Longrightarrow> held c now k u"
  by (simp add: held_def answers_def)

lemma put_answers:
  assumes "put c now k v ttl = (Ok True, c')" and "no_overflow now ttl" and "readable v"
  shows "answers c' now k v (now + ttl)"
  unfolding answers_def
proof (intro allI impI)
  fix t
  assume "now \<le> t" "t < now + ttl"
  with put_True [OF assms(1,2), of t] assms(3) show "live c' t k = Some (Ready v)" by auto
qed

lemma answers_obt:
  assumes "answers c now k v u" and "obt c now k' ttl = (r, c')"
  shows "answers c' now k v u"
  using assms(1) by (simp add: answers_def obt_keeps [OF assms(2)])

lemma answers_later: "answers c now k v u \<Longrightarrow> now \<le> now' \<Longrightarrow> answers c now' k v u"
  by (auto simp: answers_def)

lemma answers_pol:
  assumes "answers c now k v u" and "now < u" and "pol c now k = (r, c')"
  shows "r = PollDone (Ok v) \<or> (\<exists>e. r = PollDone (Err e))"
  using assms(1,2) by (intro pol_Ready [OF assms(3)]) (simp add: answers_def)

end

section \<open>Where an answer comes from\<close>

text \<open>
  Polling may read an entry that has just expired, so what it returns is not always live. The
  second contract follows the values themselves: \<open>source c t k w\<close> says that a poll of \<open>k\<close> from
  time \<open>t\<close> on could return \<open>w\<close>, and only a \<open>put\<close> of this key adds to it, even one that failed.
\<close>

locale cacher_source = cacher +
  fixes source :: "'a \<Rightarrow> u64 \<Rightarrow> string \<Rightarrow> bytes \<Rightarrow> bool"
  assumes source_antimono: "source c t k w \<Longrightarrow> s \<le> t \<Longrightarrow> source c s k w"
    and pol_source: "pol c now k = (PollDone (Ok w), c') \<Longrightarrow> source c now k w"
    and pol_adds: "pol c now k' = (p, c') \<Longrightarrow> source c' t k w \<Longrightarrow> source c t k w"
    and obt_adds: "obt c now k' ttl = (r, c') \<Longrightarrow> no_overflow now ttl \<Longrightarrow> now \<le> t \<Longrightarrow>
          source c' t k w \<Longrightarrow> source c t k w"
    and put_adds: "put c now k' v ttl = (r, c') \<Longrightarrow> no_overflow now ttl \<Longrightarrow> now \<le> t \<Longrightarrow>
          source c' t k w \<Longrightarrow> source c t k w \<or> k = k' \<and> w = v"
    and del_adds: "del c now k' = (d, c') \<Longrightarrow> now \<le> t \<Longrightarrow> source c' t k w \<Longrightarrow> source c t k w"
    and bg_adds: "source (bg c now) t k w \<Longrightarrow> source c t k w"
begin

text \<open>A set of values that bounds what polls can return, kept by everything but a \<open>put\<close> outside it.\<close>

definition sourced :: "'a \<Rightarrow> u64 \<Rightarrow> (string \<times> bytes) set \<Rightarrow> bool" where
  "sourced c now V \<longleftrightarrow> (\<forall>k w. source c now k w \<longrightarrow> (k, w) \<in> V)"

lemma sourced_later: "sourced c now V \<Longrightarrow> now \<le> t \<Longrightarrow> sourced c t V"
  by (auto simp: sourced_def dest: source_antimono)

lemma sourced_more: "sourced c now V \<Longrightarrow> V \<subseteq> W \<Longrightarrow> sourced c now W"
  by (auto simp: sourced_def)

lemma sourced_pol: "sourced c now V \<Longrightarrow> pol c now k = (p, c') \<Longrightarrow> sourced c' now V"
  by (auto simp: sourced_def dest: pol_adds)

lemma sourced_answer: "sourced c now V \<Longrightarrow> pol c now k = (PollDone (Ok w), c') \<Longrightarrow> (k, w) \<in> V"
  by (auto simp: sourced_def dest: pol_source)

lemma sourced_obt: "sourced c now V \<Longrightarrow> obt c now k ttl = (r, c') \<Longrightarrow> no_overflow now ttl \<Longrightarrow> sourced c' now V"
  by (auto simp: sourced_def dest: obt_adds)

lemma sourced_put:
  "sourced c now V \<Longrightarrow> put c now k v ttl = (r, c') \<Longrightarrow> no_overflow now ttl \<Longrightarrow> (k, v) \<in> V \<Longrightarrow> sourced c' now V"
  by (auto simp: sourced_def dest: put_adds)

lemma sourced_del: "sourced c now V \<Longrightarrow> del c now k = (d, c') \<Longrightarrow> sourced c' now V"
  by (auto simp: sourced_def dest: del_adds)

lemma sourced_bg: "sourced c now V \<Longrightarrow> sourced (bg c t) now V"
  by (auto simp: sourced_def dest: bg_adds)

end

section \<open>Operations that are dropped half-way\<close>

text \<open>
  A handler whose client goes away is dropped at the await it has reached, which can be in the middle of
  an operation. \<open>obt_cut\<close> and \<open>del_cut\<close> are what such an \<open>obt\<close> or \<open>del\<close> has done by then, where it is neither
  nothing nor all. A \<open>del\<close> that is cut short may break the invariant of its key.
\<close>

locale cacher_cut = cacher_source +
  fixes obt_cut :: "'a \<Rightarrow> u64 \<Rightarrow> string \<Rightarrow> u64 \<Rightarrow> 'a option"
    and del_cut :: "'a \<Rightarrow> string \<Rightarrow> 'a option"
  assumes obt_cut_free: "obt_cut c now k ttl = Some c' \<Longrightarrow> live c t k = None"
    and obt_cut_other: "obt_cut c now k ttl = Some c' \<Longrightarrow> k' \<noteq> k \<Longrightarrow> live c' t k' = live c t k'"
    and obt_cut_invar: "obt_cut c now k ttl = Some c' \<Longrightarrow> invar k' c \<Longrightarrow> invar k' c'"
    and obt_cut_adds: "obt_cut c now k ttl = Some c' \<Longrightarrow> source c' t k' w \<Longrightarrow> source c t k' w"
    and del_cut_other: "del_cut c k = Some c' \<Longrightarrow> k' \<noteq> k \<Longrightarrow> live c' t k' = live c t k'"
    and del_cut_invar: "del_cut c k = Some c' \<Longrightarrow> k' \<noteq> k \<Longrightarrow> invar k' c \<Longrightarrow> invar k' c'"
    and del_cut_adds: "del_cut c k = Some c' \<Longrightarrow> source c' t k' w \<Longrightarrow> source c t k' w"
begin

lemma held_obt_cut:
  assumes "held c now k u" and "obt_cut c now k' ttl = Some c'"
  shows "held c' now k u"
proof (cases "k' = k")
  case True
  have "live c t k = None" for t using obt_cut_free [OF assms(2)] True by simp
  with assms(1) show ?thesis by (auto simp: held_def)
next
  case False
  with assms show ?thesis by (simp add: held_def obt_cut_other)
qed

lemma held_del_cut: "held c now k u \<Longrightarrow> del_cut c k' = Some c' \<Longrightarrow> k' \<noteq> k \<Longrightarrow> held c' now k u"
  by (simp add: held_def del_cut_other)

lemma sourced_obt_cut: "sourced c now V \<Longrightarrow> obt_cut c t k ttl = Some c' \<Longrightarrow> sourced c' now V"
  by (auto simp: sourced_def dest: obt_cut_adds)

lemma sourced_del_cut: "sourced c now V \<Longrightarrow> del_cut c k = Some c' \<Longrightarrow> sourced c' now V"
  by (auto simp: sourced_def dest: del_cut_adds)

end

end
