(* ===== verification/Ordered_Set.thy ===== *)
theory Ordered_Set
  imports Prelude
begin

text \<open>
  \<open>std::collections::BTreeSet\<close> as the code uses it (\<open>insert\<close>, \<open>remove\<close>, \<open>pop_first\<close>):
  the strictly ascending list of its elements. The locale \<open>ordered_set\<close> is the contract the
  in-memory cache relies on; it is interpreted on the list operations below.
\<close>

section \<open>The operations\<close>

fun bt_insert :: "'a::linorder \<Rightarrow> 'a list \<Rightarrow> 'a list" where
  "bt_insert x [] = [x]"
| "bt_insert x (y # ys) =
     (if x < y then x # y # ys else if x = y then y # ys else y # bt_insert x ys)"

fun bt_remove :: "'a::linorder \<Rightarrow> 'a list \<Rightarrow> 'a list" where
  "bt_remove x [] = []"
| "bt_remove x (y # ys) = (if x = y then ys else y # bt_remove x ys)"

fun bt_pop_first :: "'a list \<Rightarrow> ('a \<times> 'a list) option" where
  "bt_pop_first [] = None"
| "bt_pop_first (x # xs) = Some (x, xs)"

abbreviation bt_invar :: "'a::linorder list \<Rightarrow> bool" where
  "bt_invar \<equiv> sorted_wrt (<)"

lemma bt_pop_first_shorter: "bt_pop_first xs = Some (x, ys) \<Longrightarrow> length ys < length xs"
  by (cases xs) auto

lemma set_bt_insert [simp]: "set (bt_insert x xs) = insert x (set xs)"
  by (induction xs) auto

lemma bt_invar_insert: "bt_invar xs \<Longrightarrow> bt_invar (bt_insert x xs)"
  by (induction xs) auto

lemma set_bt_remove: "bt_invar xs \<Longrightarrow> set (bt_remove x xs) = set xs - {x}"
  by (induction xs) auto

lemma set_bt_remove_subset: "set (bt_remove x xs) \<subseteq> set xs"
  by (induction xs) auto

lemma bt_invar_remove: "bt_invar xs \<Longrightarrow> bt_invar (bt_remove x xs)"
proof (induction xs)
  case Nil
  then show ?case by simp
next
  case (Cons y ys)
  then show ?case using set_bt_remove_subset [of x ys] by auto
qed

lemma bt_insert_min: "bt_invar (x # xs) \<Longrightarrow> bt_insert x xs = x # xs"
  by (cases xs) auto

section \<open>The contract\<close>

locale ordered_set =
  fixes ins :: "'a::linorder \<Rightarrow> 's \<Rightarrow> 's"
    and rem :: "'a \<Rightarrow> 's \<Rightarrow> 's"
    and pop :: "'s \<Rightarrow> ('a \<times> 's) option"
    and elems :: "'s \<Rightarrow> 'a set"
    and invar :: "'s \<Rightarrow> bool"
  assumes elems_ins: "invar s \<Longrightarrow> elems (ins x s) = insert x (elems s)"
    and elems_rem: "invar s \<Longrightarrow> elems (rem x s) = elems s - {x}"
    and pop_None: "invar s \<Longrightarrow> pop s = None \<longleftrightarrow> elems s = {}"
    and pop_min: "invar s \<Longrightarrow> pop s = Some (x, s') \<Longrightarrow> x \<in> elems s \<and> (\<forall>y\<in>elems s. x \<le> y)"
    and pop_elems: "invar s \<Longrightarrow> pop s = Some (x, s') \<Longrightarrow> elems s' = elems s - {x}"
    and invar_ins: "invar s \<Longrightarrow> invar (ins x s)"
    and invar_rem: "invar s \<Longrightarrow> invar (rem x s)"
    and invar_pop: "invar s \<Longrightarrow> pop s = Some (x, s') \<Longrightarrow> invar s'"
begin

text \<open>Popping the least element and putting it back changes nothing.\<close>

lemma pop_reinsert:
  assumes "invar s" and "pop s = Some (x, s')"
  shows "elems (ins x s') = elems s"
proof -
  have "invar s'" and "elems s' = elems s - {x}" and "x \<in> elems s"
    using assms invar_pop pop_elems pop_min by blast+
  then show ?thesis by (auto simp: elems_ins)
qed

text \<open>When the least element is above a bound, so is every element.\<close>

lemma pop_above:
  assumes "invar s" and "pop s = Some (x, s')" and "b < x" and "y \<in> elems s"
  shows "b < y"
  using assms pop_min by fastforce

text \<open>Moving an entry (remove the old key, insert the new one), as the cache does on a renewal.\<close>

lemma elems_move: "invar s \<Longrightarrow> elems (ins y (rem x s)) = insert y (elems s - {x})"
  by (simp add: elems_ins elems_rem invar_rem)

lemma invar_move: "invar s \<Longrightarrow> invar (ins y (rem x s))"
  by (simp add: invar_ins invar_rem)

end

interpretation bt: ordered_set bt_insert bt_remove bt_pop_first set bt_invar
proof (unfold_locales, goal_cases)
  case (1 s x)
  then show ?case by simp
next
  case (2 s x)
  then show ?case by (rule set_bt_remove)
next
  case (3 s)
  then show ?case by (cases s) auto
next
  case (4 s x s')
  then show ?case by (cases s) auto
next
  case (5 s x s')
  then show ?case by (cases s) auto
next
  case (6 s x)
  then show ?case by (rule bt_invar_insert)
next
  case (7 s x)
  then show ?case by (rule bt_invar_remove)
next
  case (8 s x s')
  then show ?case by (cases s) auto
qed

end
