(* ===== verification/Memory_Cache.thy ===== *)
theory Memory_Cache
  imports Cacher Ordered_Set
begin

text \<open>
  \<open>src/idempotent-proxy-server/src/cache/memory.rs\<close>: the in-memory cache. Its state is the map
  \<open>kv\<close> from keys to an expiry time and a value (empty until the leader stores the response), the
  priority queue of (expiry time, key), and the number of clean-up tasks that
  \<open>clean_expired_values\<close> has spawned and that have not run yet: such a task runs at some later
  moment, between other operations. Each operation holds the write lock of \<open>kv\<close> from its first
  access to its end, so an operation that runs to its end is one atomic step here. One that is dropped
  while it waits for the lock of the queue (its client went away) is \<open>mem_obtain_cut\<close> or \<open>mem_del_cut\<close>.
  What the locks themselves allow is the subject of theory Memory\_Locks.
\<close>

section \<open>State\<close>

text \<open>\<open>#[derive(Ord)]\<close> orders the keys by expiry time, then by name, byte by byte.\<close>

datatype priority_key = PriorityKey (expire_of: u64) (name_of: string)

instantiation priority_key :: linorder
begin

definition less_eq_priority_key :: "priority_key \<Rightarrow> priority_key \<Rightarrow> bool" where
  "x \<le> y \<longleftrightarrow> expire_of x < expire_of y \<or> expire_of x = expire_of y \<and> name_of x \<le> name_of y"

definition less_priority_key :: "priority_key \<Rightarrow> priority_key \<Rightarrow> bool" where
  "x < y \<longleftrightarrow> expire_of x < expire_of y \<or> expire_of x = expire_of y \<and> name_of x < name_of y"

instance
proof (standard, goal_cases)
  case (1 x y)
  then show ?case by (auto simp: less_eq_priority_key_def less_priority_key_def)
next
  case (2 x)
  then show ?case by (simp add: less_eq_priority_key_def)
next
  case (3 x y z)
  then show ?case by (auto simp: less_eq_priority_key_def)
next
  case (4 x y)
  then show ?case by (auto simp: less_eq_priority_key_def intro: priority_key.expand)
next
  case (5 x y)
  then show ?case by (auto simp: less_eq_priority_key_def)
qed

end

lemma priority_key_less [simp]:
  "PriorityKey a s < PriorityKey b t \<longleftrightarrow> a < b \<or> a = b \<and> s < t"
  by (simp add: less_priority_key_def)

lemma priority_key_le_expire: "x \<le> y \<Longrightarrow> expire_of x \<le> expire_of y"
  by (auto simp: less_eq_priority_key_def)

type_synonym mem_kv = "string \<rightharpoonup> u64 \<times> bytes"

record mem_cacher =
  priority_queue :: "priority_key list"
  kv :: mem_kv
  spawned :: nat

definition mem_default :: mem_cacher where
  "mem_default = \<lparr>priority_queue = [], kv = Map.empty, spawned = 0\<rparr>"

section \<open>Operations\<close>

text \<open>The loop of a clean-up task: pop until the first key that has not expired, put that one back.\<close>

function clean_loop :: "u64 \<Rightarrow> priority_key list \<Rightarrow> mem_kv \<Rightarrow> priority_key list \<times> mem_kv" where
  "clean_loop now pq m =
     (case bt_pop_first pq of
        None \<Rightarrow> (pq, m)
      | Some (PriorityKey expire_at key, pq') \<Rightarrow>
          if expire_at > now then (bt_insert (PriorityKey expire_at key) pq', m)
          else clean_loop now pq' (m(key := None)))"
  by pat_completeness auto
termination
  by (relation "measure (\<lambda>(now, pq, m). length pq)") (auto dest: bt_pop_first_shorter)

declare clean_loop.simps [simp del]

text \<open>\<open>tokio::spawn\<close> in \<open>clean_expired_values\<close>, and the spawned task running at time \<open>now\<close>.\<close>

definition spawn_clean :: "mem_cacher \<Rightarrow> mem_cacher" where
  "spawn_clean s = s\<lparr>spawned := Suc (spawned s)\<rparr>"

definition run_clean :: "mem_cacher \<Rightarrow> u64 \<Rightarrow> mem_cacher" where
  "run_clean s now =
     (if spawned s = 0 then s
      else let (pq, m) = clean_loop now (priority_queue s) (kv s)
           in s\<lparr>priority_queue := pq, kv := m, spawned := spawned s - 1\<rparr>)"

definition mem_obtain :: "mem_cacher \<Rightarrow> u64 \<Rightarrow> string \<Rightarrow> u64 \<Rightarrow> (bool, string) outcome \<times> mem_cacher" where
  "mem_obtain s now key ttl =
     (case kv s key of
        Some (expire_at, v) \<Rightarrow>
          if expire_at > now then (Ok False, s)
          else
            (let pq = bt_remove (PriorityKey expire_at key) (priority_queue s);
                 new_at = now + ttl
             in (Ok True, s\<lparr>kv := (kv s)(key \<mapsto> (new_at, [])),
                            priority_queue := bt_insert (PriorityKey new_at key) pq\<rparr>))
      | None \<Rightarrow>
          (let expire_at = now + ttl
           in (Ok True, s\<lparr>kv := (kv s)(key \<mapsto> (expire_at, [])),
                          priority_queue := bt_insert (PriorityKey expire_at key) (priority_queue s)\<rparr>)))"

text \<open>One round of the loop in \<open>polling_get\<close>, and the loop: \<open>clk n\<close> is the clock and \<open>env n\<close>
  what the other tasks do to the cache in the sleep, when \<open>n\<close> rounds are left.\<close>

definition mem_poll :: "mem_cacher \<Rightarrow> u64 \<Rightarrow> string \<Rightarrow> polled \<times> mem_cacher" where
  "mem_poll s now key =
     (case kv s key of
        None \<Rightarrow> (PollDone (Err ''not obtained''), s)
      | Some (expire_at, v) \<Rightarrow>
          (let s' = (if expire_at \<le> now then spawn_clean s else s)
           in if v \<noteq> [] then (PollDone (Ok v), s') else (PollAgain, s')))"

fun mem_polling_get :: "(nat \<Rightarrow> u64) \<Rightarrow> (nat \<Rightarrow> mem_cacher \<Rightarrow> mem_cacher) \<Rightarrow> mem_cacher \<Rightarrow> string \<Rightarrow> nat
    \<Rightarrow> (bytes, string) outcome \<times> mem_cacher" where
  "mem_polling_get clk env s key 0 = (Err ''polling get cache timeout'', s)"
| "mem_polling_get clk env s key (Suc n) =
     (case mem_poll s (clk (Suc n)) key of
        (PollDone r, s') \<Rightarrow> (r, s')
      | (PollAgain, s') \<Rightarrow> mem_polling_get clk env (env (Suc n) s') key n)"

definition mem_set :: "mem_cacher \<Rightarrow> u64 \<Rightarrow> string \<Rightarrow> bytes \<Rightarrow> u64 \<Rightarrow> (bool, string) outcome \<times> mem_cacher" where
  "mem_set s now key val ttl =
     (case kv s key of
        Some (expire_at, v) \<Rightarrow>
          if expire_at \<le> now
          then (Err ''value expired'', spawn_clean (s\<lparr>kv := (kv s)(key := None)\<rparr>))
          else
            (let pq = bt_remove (PriorityKey expire_at key) (priority_queue s);
                 new_at = now + ttl
             in (Ok True, s\<lparr>kv := (kv s)(key \<mapsto> (new_at, val)),
                            priority_queue := bt_insert (PriorityKey new_at key) pq\<rparr>))
      | None \<Rightarrow> (Err ''not obtained'', s))"

definition mem_del :: "mem_cacher \<Rightarrow> string \<Rightarrow> (unit, string) outcome \<times> mem_cacher" where
  "mem_del s key =
     (let s' = (case kv s key of
                  None \<Rightarrow> s
                | Some (expire_at, v) \<Rightarrow>
                    s\<lparr>kv := (kv s)(key := None),
                      priority_queue := bt_remove (PriorityKey expire_at key) (priority_queue s)\<rparr>)
      in (Ok (), spawn_clean s'))"

text \<open>
  An operation dropped while it waits for the lock of \<open>priority_queue\<close>, which is the only await within it:
  \<open>obtain\<close> of a vacant key has inserted into \<open>kv\<close>, and \<open>del\<close> has removed from it; \<open>obtain\<close> of an expired key
  and \<open>set\<close> have changed nothing.
\<close>

definition mem_obtain_cut :: "mem_cacher \<Rightarrow> u64 \<Rightarrow> string \<Rightarrow> u64 \<Rightarrow> mem_cacher option" where
  "mem_obtain_cut s now key ttl =
     (case kv s key of
        Some (expire_at, v) \<Rightarrow> None
      | None \<Rightarrow> (let expire_at = now + ttl in Some (s\<lparr>kv := (kv s)(key \<mapsto> (expire_at, []))\<rparr>)))"

definition mem_del_cut :: "mem_cacher \<Rightarrow> string \<Rightarrow> mem_cacher option" where
  "mem_del_cut s key =
     (case kv s key of
        None \<Rightarrow> None
      | Some (expire_at, v) \<Rightarrow> Some (s\<lparr>kv := (kv s)(key := None)\<rparr>))"

section \<open>The clean-up loop against its specification\<close>

text \<open>What the loop is for: drop every queue entry that has expired, and the key of each.\<close>

definition clean_spec :: "u64 \<Rightarrow> priority_key list \<Rightarrow> mem_kv \<Rightarrow> priority_key list \<times> mem_kv" where
  "clean_spec now pq m =
     (filter (\<lambda>x. now < expire_of x) pq,
      \<lambda>k. if \<exists>x\<in>set pq. expire_of x \<le> now \<and> name_of x = k then None else m k)"

lemma clean_spec_live_head:
  assumes "bt_invar (PriorityKey e k # xs)" and "now < e"
  shows "clean_spec now (PriorityKey e k # xs) m = (PriorityKey e k # xs, m)"
proof -
  have "\<forall>x\<in>set xs. now < expire_of x"
  proof
    fix x
    assume "x \<in> set xs"
    with assms(1) have "PriorityKey e k < x" by simp
    then have "e \<le> expire_of x" using priority_key_le_expire [of "PriorityKey e k" x] by simp
    with assms(2) show "now < expire_of x" by simp
  qed
  with assms(2) show ?thesis by (auto simp: clean_spec_def fun_eq_iff)
qed

lemma clean_spec_expired_head:
  "e \<le> now \<Longrightarrow> clean_spec now (PriorityKey e k # xs) m = clean_spec now xs (m(k := None))"
  by (auto simp: clean_spec_def fun_eq_iff)

lemma clean_loop_step [step_simps]:
  "clean_loop now [] m = ([], m)"
  "clean_loop now (PriorityKey e k # xs) m =
     (if now < e then (bt_insert (PriorityKey e k) xs, m) else clean_loop now xs (m(k := None)))"
  by (subst clean_loop.simps, simp)+

lemma clean_loop_eq_spec:
  "bt_invar pq \<Longrightarrow> clean_loop now pq m = clean_spec now pq m"
proof (induction pq arbitrary: m)
  case Nil
  then show ?case by (simp add: step_simps clean_spec_def)
next
  case (Cons x xs)
  obtain e k where x: "x = PriorityKey e k" by (cases x)
  show ?case
  proof (cases "now < e")
    case True
    with Cons.prems x show ?thesis
      by (simp add: step_simps clean_spec_live_head bt_insert_min del: sorted_wrt.simps)
  next
    case False
    with Cons x show ?thesis by (simp add: step_simps clean_spec_expired_head)
  qed
qed

section \<open>Invariants\<close>

text \<open>
  The queue covers the map: every entry of \<open>kv\<close> has its queue entry, so it is cleaned up some
  time after it expires. Every operation keeps this.
\<close>

definition mem_inv :: "mem_cacher \<Rightarrow> bool" where
  "mem_inv s \<longleftrightarrow> bt_invar (priority_queue s) \<and>
     (\<forall>k e v. kv s k = Some (e, v) \<longrightarrow> PriorityKey e k \<in> set (priority_queue s))"

text \<open>
  The queue is exact: it has an entry only for what is in the map. A \<open>set\<close> on an expired key
  breaks this (it removes the key from \<open>kv\<close> and leaves the queue entry); nothing else does.
\<close>

definition mem_exact :: "mem_cacher \<Rightarrow> bool" where
  "mem_exact s \<longleftrightarrow> mem_inv s \<and>
     (\<forall>k e. PriorityKey e k \<in> set (priority_queue s) \<longrightarrow> (\<exists>v. kv s k = Some (e, v)))"

text \<open>The same for one key: the queue has no entry for \<open>k\<close> but that of what is in the map under \<open>k\<close>.\<close>

definition mem_tidy :: "string \<Rightarrow> mem_cacher \<Rightarrow> bool" where
  "mem_tidy k s \<longleftrightarrow> bt_invar (priority_queue s) \<and>
     (\<forall>e. PriorityKey e k \<in> set (priority_queue s) \<longrightarrow> (\<exists>v. kv s k = Some (e, v)))"

lemma mem_tidy_default: "mem_tidy k mem_default"
  by (simp add: mem_tidy_def mem_default_def)

lemma mem_inv_default: "mem_inv mem_default"
  by (simp add: mem_inv_def mem_default_def)

lemma mem_exact_default: "mem_exact mem_default"
  by (simp add: mem_exact_def mem_inv_default) (simp add: mem_default_def)

text \<open>Only the map and the queue matter to the invariants.\<close>

lemma mem_inv_spawned [simp]: "mem_inv (s\<lparr>spawned := n\<rparr>) = mem_inv s"
  by (simp add: mem_inv_def)

lemma mem_exact_spawned [simp]: "mem_exact (s\<lparr>spawned := n\<rparr>) = mem_exact s"
  by (simp add: mem_exact_def)

lemma mem_tidy_spawn_clean [simp]: "mem_tidy k (spawn_clean s) = mem_tidy k s"
  by (simp add: mem_tidy_def spawn_clean_def)

lemma mem_inv_spawn_clean [simp]: "mem_inv (spawn_clean s) = mem_inv s"
  by (simp add: spawn_clean_def)

lemma mem_exact_spawn_clean [simp]: "mem_exact (spawn_clean s) = mem_exact s"
  by (simp add: spawn_clean_def)

text \<open>Storing a key with its queue entry: fresh, or moved from its old expiry time.\<close>

definition mem_store :: "mem_cacher \<Rightarrow> string \<Rightarrow> u64 \<Rightarrow> bytes \<Rightarrow> mem_cacher" where
  "mem_store s k e v = s\<lparr>kv := (kv s)(k \<mapsto> (e, v)),
     priority_queue := bt_insert (PriorityKey e k)
       (case kv s k of None \<Rightarrow> priority_queue s
        | Some (e', v') \<Rightarrow> bt_remove (PriorityKey e' k) (priority_queue s))\<rparr>"

definition mem_drop :: "mem_cacher \<Rightarrow> string \<Rightarrow> mem_cacher" where
  "mem_drop s k = (case kv s k of None \<Rightarrow> s
     | Some (e, v) \<Rightarrow> s\<lparr>kv := (kv s)(k := None),
         priority_queue := bt_remove (PriorityKey e k) (priority_queue s)\<rparr>)"

lemma mem_store_inv: "mem_inv s \<Longrightarrow> mem_inv (mem_store s k e v)"
  by (auto simp: mem_inv_def mem_store_def bt.elems_rem bt.invar_ins bt.invar_rem split: option.splits)

lemma mem_drop_inv: "mem_inv s \<Longrightarrow> mem_inv (mem_drop s k)"
  by (auto simp: mem_inv_def mem_drop_def bt.elems_rem bt.invar_rem split: option.splits if_splits)

lemma mem_store_exact: "mem_exact s \<Longrightarrow> mem_exact (mem_store s k e v)"
proof -
  assume a: "mem_exact s"
  then have i: "mem_inv s" by (simp add: mem_exact_def)
  then have pq: "bt_invar (priority_queue s)" by (simp add: mem_inv_def)
  show ?thesis unfolding mem_exact_def
  proof (intro conjI allI impI)
    show "mem_inv (mem_store s k e v)" using i by (rule mem_store_inv)
    fix k' e'
    assume "PriorityKey e' k' \<in> set (priority_queue (mem_store s k e v))"
    then show "\<exists>v'. kv (mem_store s k e v) k' = Some (e', v')"
      using a pq by (auto simp: mem_exact_def mem_store_def bt.elems_rem split: option.splits if_splits) fastforce+
  qed
qed

lemma mem_drop_exact: "mem_exact s \<Longrightarrow> mem_exact (mem_drop s k)"
proof -
  assume a: "mem_exact s"
  then have i: "mem_inv s" by (simp add: mem_exact_def)
  then have pq: "bt_invar (priority_queue s)" by (simp add: mem_inv_def)
  show ?thesis unfolding mem_exact_def
  proof (intro conjI allI impI)
    show "mem_inv (mem_drop s k)" using i by (rule mem_drop_inv)
    fix k' e'
    assume "PriorityKey e' k' \<in> set (priority_queue (mem_drop s k))"
    then show "\<exists>v'. kv (mem_drop s k) k' = Some (e', v')"
      using a pq by (auto simp: mem_exact_def mem_drop_def bt.elems_rem split: option.splits if_splits) fastforce+
  qed
qed

lemma mem_store_tidy: "mem_tidy k s \<Longrightarrow> mem_tidy k (mem_store s k' e v)"
  by (auto simp: mem_tidy_def mem_store_def bt.elems_rem bt.invar_ins bt.invar_rem split: option.splits if_splits)

lemma mem_drop_tidy: "mem_tidy k s \<Longrightarrow> mem_tidy k (mem_drop s k')"
  by (auto simp: mem_tidy_def mem_drop_def bt.elems_rem bt.invar_rem split: option.splits if_splits)

lemma mem_forget_tidy: "mem_tidy k s \<Longrightarrow> k' \<noteq> k \<Longrightarrow> mem_tidy k (s\<lparr>kv := (kv s)(k' := None)\<rparr>)"
  by (simp add: mem_tidy_def)

text \<open>The operations in terms of storing and dropping.\<close>

lemma mem_obtain_alt:
  "mem_obtain s now k ttl =
     (if \<exists>e v. kv s k = Some (e, v) \<and> now < e then (Ok False, s)
      else (Ok True, mem_store s k (now + ttl) []))"
  by (auto simp: mem_obtain_def mem_store_def Let_def split: option.splits)

lemma mem_set_alt:
  "mem_set s now k v ttl =
     (case kv s k of None \<Rightarrow> (Err ''not obtained'', s)
      | Some (e, w) \<Rightarrow>
          if now < e then (Ok True, mem_store s k (now + ttl) v)
          else (Err ''value expired'', spawn_clean (s\<lparr>kv := (kv s)(k := None)\<rparr>)))"
  by (auto simp: mem_set_def mem_store_def Let_def split: option.splits)

lemma mem_del_alt: "mem_del s k = (Ok (), spawn_clean (mem_drop s k))"
  by (auto simp: mem_del_def mem_drop_def Let_def split: option.splits)

section \<open>Steps and reachable states\<close>

text \<open>Any operation at any time, run to its end, or a spawned clean-up task running.\<close>

inductive mem_step :: "mem_cacher \<Rightarrow> mem_cacher \<Rightarrow> bool" where
  obtain_step: "mem_obtain s now k ttl = (r, s') \<Longrightarrow> mem_step s s'"
| poll_step: "mem_poll s now k = (p, s') \<Longrightarrow> mem_step s s'"
| set_step: "mem_set s now k v ttl = (r, s') \<Longrightarrow> mem_step s s'"
| del_step: "mem_del s k = (d, s') \<Longrightarrow> mem_step s s'"
| clean_step: "mem_step s (run_clean s now)"

inductive mem_reachable :: "mem_cacher \<Rightarrow> bool" where
  mem_start: "mem_reachable mem_default"
| mem_next: "mem_reachable s \<Longrightarrow> mem_step s s' \<Longrightarrow> mem_reachable s'"

lemma mem_inv_obtain: "mem_inv s \<Longrightarrow> mem_obtain s now k ttl = (r, s') \<Longrightarrow> mem_inv s'"
  by (auto simp: mem_obtain_alt mem_store_inv split: if_splits)

lemma mem_poll_state: "mem_poll s now k = (p, s') \<Longrightarrow> s' = s \<or> s' = spawn_clean s"
  by (auto simp: mem_poll_def Let_def split: option.splits if_splits)

lemma mem_inv_poll: "mem_inv s \<Longrightarrow> mem_poll s now k = (p, s') \<Longrightarrow> mem_inv s'"
  by (auto dest: mem_poll_state)

lemma mem_inv_forget: "mem_inv s \<Longrightarrow> mem_inv (s\<lparr>kv := (kv s)(k := None)\<rparr>)"
  by (auto simp: mem_inv_def split: if_splits)

lemma mem_inv_set: "mem_inv s \<Longrightarrow> mem_set s now k v ttl = (r, s') \<Longrightarrow> mem_inv s'"
  by (auto simp: mem_set_alt mem_store_inv mem_inv_forget split: option.splits if_splits)

lemma mem_inv_del: "mem_inv s \<Longrightarrow> mem_del s k = (d, s') \<Longrightarrow> mem_inv s'"
  by (auto simp: mem_del_alt mem_drop_inv)

lemma run_clean_spec:
  assumes "bt_invar (priority_queue s)"
  shows "run_clean s now =
    (if spawned s = 0 then s
     else s\<lparr>priority_queue := fst (clean_spec now (priority_queue s) (kv s)),
            kv := snd (clean_spec now (priority_queue s) (kv s)), spawned := spawned s - 1\<rparr>)"
  using assms by (auto simp: run_clean_def clean_loop_eq_spec split: prod.splits)

lemma mem_inv_clean: "mem_inv s \<Longrightarrow> mem_inv (run_clean s now)"
proof -
  assume a: "mem_inv s"
  then have "bt_invar (priority_queue s)" by (simp add: mem_inv_def)
  with a show ?thesis
    by (fastforce simp: run_clean_spec clean_spec_def mem_inv_def sorted_wrt_filter)
qed

lemma mem_inv_step: "mem_step s s' \<Longrightarrow> mem_inv s \<Longrightarrow> mem_inv s'"
  by (induction rule: mem_step.induct)
    (blast intro: mem_inv_obtain mem_inv_poll mem_inv_set mem_inv_del mem_inv_clean)+

lemma mem_reachable_inv: "mem_reachable s \<Longrightarrow> mem_inv s"
  by (induction rule: mem_reachable.induct) (auto simp: mem_inv_default intro: mem_inv_step)

section \<open>The contract\<close>

text \<open>The abstract view: an entry counts until its expiry time; an empty value is a lock.\<close>

definition mem_live :: "mem_cacher \<Rightarrow> u64 \<Rightarrow> string \<Rightarrow> cached option" where
  "mem_live s now k =
     (case kv s k of None \<Rightarrow> None
      | Some (e, v) \<Rightarrow> if now < e then Some (if v = [] then Pending else Ready v) else None)"

definition mem_delete :: "mem_cacher \<Rightarrow> u64 \<Rightarrow> string \<Rightarrow> (unit, string) outcome \<times> mem_cacher" where
  "mem_delete s now k = mem_del s k"

lemma mem_live_store [effect_simps]:
  "mem_live (mem_store s k e v) t k' =
     (if k' = k then (if t < e then Some (if v = [] then Pending else Ready v) else None)
      else mem_live s t k')"
  by (simp add: mem_live_def mem_store_def)

lemma mem_live_drop [effect_simps]:
  "mem_live (mem_drop s k) t k' = (if k' = k then None else mem_live s t k')"
  by (auto simp: mem_live_def mem_drop_def split: option.splits)

lemma mem_live_forget [effect_simps]:
  "mem_live (s\<lparr>kv := (kv s)(k := None)\<rparr>) t k' = (if k' = k then None else mem_live s t k')"
  by (simp add: mem_live_def)

lemma mem_live_spawn [effect_simps]: "mem_live (spawn_clean s) t k = mem_live s t k"
  by (simp add: mem_live_def spawn_clean_def)

lemma mem_live_not_None: "mem_live s now k \<noteq> None \<longleftrightarrow> (\<exists>e v. kv s k = Some (e, v) \<and> now < e)"
  by (auto simp: mem_live_def split: option.splits)

lemma mem_tidy_expired:
  "mem_tidy k s \<Longrightarrow> PriorityKey e k \<in> set (priority_queue s) \<Longrightarrow> e \<le> now \<Longrightarrow> now \<le> t \<Longrightarrow> mem_live s t k = None"
  by (fastforce simp: mem_tidy_def mem_live_def)

lemma mem_live_clean:
  assumes "mem_tidy k s" and "now \<le> t"
  shows "mem_live (run_clean s now) t k = mem_live s t k"
proof -
  have pq: "bt_invar (priority_queue s)" using assms(1) by (simp add: mem_tidy_def)
  have "mem_live s t k = None"
    if "x \<in> set (priority_queue s)" "expire_of x \<le> now" "name_of x = k" for x
    using mem_tidy_expired [OF assms(1) _ that(2) assms(2)] that by (cases x) auto
  then show ?thesis
    by (auto simp: run_clean_spec [OF pq] clean_spec_def mem_live_def)
qed

lemma mem_tidy_clean: "mem_tidy k s \<Longrightarrow> mem_tidy k (run_clean s now)"
proof -
  assume a: "mem_tidy k s"
  then have pq: "bt_invar (priority_queue s)" by (simp add: mem_tidy_def)
  have "\<exists>v. kv (run_clean s now) k = Some (e, v)"
    if k: "PriorityKey e k \<in> set (priority_queue (run_clean s now))" for e
  proof (cases "spawned s = 0")
    case True
    with k a show ?thesis by (simp add: run_clean_spec [OF pq] mem_tidy_def)
  next
    case False
    with k have e: "now < e" "PriorityKey e k \<in> set (priority_queue s)"
      by (auto simp: run_clean_spec [OF pq] clean_spec_def)
    with a obtain v where v: "kv s k = Some (e, v)" by (auto simp: mem_tidy_def)
    have "now < expire_of x" if "x \<in> set (priority_queue s)" "name_of x = k" for x
      using a that e(1) v by (cases x) (fastforce simp: mem_tidy_def)
    then have "kv (run_clean s now) k = kv s k"
      using False by (fastforce simp: run_clean_spec [OF pq] clean_spec_def)
    with v show ?thesis by simp
  qed
  moreover have "bt_invar (priority_queue (run_clean s now))"
    using pq by (auto simp: run_clean_spec [OF pq] clean_spec_def sorted_wrt_filter)
  ultimately show ?thesis by (simp add: mem_tidy_def)
qed

lemma mem_tidy_obtain: "mem_tidy k s \<Longrightarrow> mem_obtain s now k' ttl = (r, s') \<Longrightarrow> mem_tidy k s'"
  by (auto simp: mem_obtain_alt mem_store_tidy split: if_splits)

lemma mem_tidy_poll: "mem_tidy k s \<Longrightarrow> mem_poll s now k' = (p, s') \<Longrightarrow> mem_tidy k s'"
  by (auto dest: mem_poll_state)

lemma mem_tidy_set:
  "mem_tidy k s \<Longrightarrow> mem_set s now k' v ttl = (r, s') \<Longrightarrow> r = Ok True \<or> k \<noteq> k' \<Longrightarrow> mem_tidy k s'"
  by (auto simp: mem_set_alt mem_store_tidy mem_forget_tidy split: option.splits if_splits)

lemma mem_tidy_del: "mem_tidy k s \<Longrightarrow> mem_delete s now k' = (d, s') \<Longrightarrow> mem_tidy k s'"
  by (auto simp: mem_delete_def mem_del_alt mem_drop_tidy)

lemma mem_exact_obtain: "mem_exact s \<Longrightarrow> mem_obtain s now k ttl = (r, s') \<Longrightarrow> mem_exact s'"
  by (auto simp: mem_obtain_alt mem_store_exact split: if_splits)

lemma mem_exact_del: "mem_exact s \<Longrightarrow> mem_delete s now k = (d, s') \<Longrightarrow> mem_exact s'"
  by (auto simp: mem_delete_def mem_del_alt mem_drop_exact)

lemma mem_live_poll: "mem_poll s now k = (p, s') \<Longrightarrow> mem_live s' t k' = mem_live s t k'"
  by (auto dest!: mem_poll_state simp: mem_live_spawn)

lemma mem_poll_result: "mem_live s now k = Some c \<Longrightarrow>
    fst (mem_poll s now k) = (case c of Pending \<Rightarrow> PollAgain | Ready v \<Rightarrow> PollDone (Ok v))"
  by (auto simp: mem_live_def mem_poll_def split: option.splits if_splits)

interpretation mem: cacher mem_obtain mem_poll mem_set mem_delete run_clean mem_live
  "\<lambda>v. v \<noteq> []" mem_tidy
proof (unfold_locales, goal_cases)
  case (1 c t k s)
  then show ?case by (fastforce simp: mem_live_def split: option.splits if_splits)
next
  case (2 c now k ttl b c')
  then show ?case by (auto simp: mem_obtain_alt mem_live_def split: if_splits option.splits)
next
  case (3 c now k ttl c' t)
  then show ?case by (auto simp: mem_obtain_alt effect_simps split: if_splits)
next
  case (4 c now k ttl r c' t k')
  show ?case
  proof (cases "\<exists>e v. kv c k = Some (e, v) \<and> now < e")
    case True
    with 4(1) show ?thesis by (simp add: mem_obtain_alt)
  next
    case False
    then have "mem_live c t k = None" using 4(2) mem_live_not_None [of c t k] by fastforce
    with 4(3) have "k' \<noteq> k" by auto
    with 4(1) show ?thesis by (auto simp: mem_obtain_alt effect_simps split: if_splits)
  qed
next
  case (5 c now k ttl r c' t k')
  then show ?case by (auto simp: mem_obtain_alt effect_simps split: if_splits)
next
  case (6 c now k p c' t k')
  then show ?case by (auto dest: mem_live_poll)
next
  case (7 c now k p c' v)
  with mem_poll_result [OF 7(2)] show ?case by simp
next
  case (8 c now k p c')
  with mem_poll_result [OF 8(2)] show ?case by simp
next
  case (9 c now k v ttl c' t)
  then show ?case by (auto simp: mem_set_alt effect_simps split: option.splits if_splits)
next
  case (10 c now k v ttl b c')
  then show ?case by (auto simp: mem_set_alt mem_live_def split: option.splits if_splits)
next
  case (11 c now k v ttl r c' t)
  from 11(5) obtain e w where "kv c k = Some (e, w)" "t < e" using mem_live_not_None by blast
  moreover from this 11(3) have "now < e" by simp
  ultimately show ?case using 11(1,4) by (auto simp: mem_set_alt effect_simps)
next
  case (12 c now k v ttl r c' t k')
  then show ?case by (auto simp: mem_set_alt effect_simps split: option.splits if_splits)
next
  case (13 c now k c' t)
  then show ?case by (auto simp: mem_delete_def mem_del_alt effect_simps)
next
  case (14 c now k d c' t k')
  then show ?case by (auto simp: mem_delete_def mem_del_alt effect_simps)
next
  case 15
  then show ?case by (rule mem_live_clean)
next
  case 16
  then show ?case by (rule mem_tidy_obtain)
next
  case 17
  then show ?case by (rule mem_tidy_poll)
next
  case 18
  then show ?case by (rule mem_tidy_set)
next
  case 19
  then show ?case by (rule mem_tidy_del)
next
  case 20
  then show ?case by (rule mem_tidy_clean)
qed

text \<open>What a poll can return: the value under the key, expired or not.\<close>

definition mem_source :: "mem_cacher \<Rightarrow> u64 \<Rightarrow> string \<Rightarrow> bytes \<Rightarrow> bool" where
  "mem_source s t k w \<longleftrightarrow> w \<noteq> [] \<and> (\<exists>e. kv s k = Some (e, w))"

lemma clean_loop_removes: "snd (clean_loop now pq m) k = Some x \<Longrightarrow> m k = Some x"
proof (induction now pq m rule: clean_loop.induct)
  case (1 now pq m)
  show ?case
  proof (cases "bt_pop_first pq")
    case None
    with "1.prems" show ?thesis by (simp add: clean_loop.simps [of now pq m])
  next
    case (Some y)
    then obtain e k' pq' where y: "bt_pop_first pq = Some (PriorityKey e k', pq')"
      by (metis priority_key.exhaust surj_pair)
    with "1.prems" "1.IH" [OF y refl refl] show ?thesis
      by (fastforce simp: clean_loop.simps [of now pq m] split: if_splits)
  qed
qed

lemma run_clean_removes: "kv (run_clean s now) k = Some x \<Longrightarrow> kv s k = Some x"
  using clean_loop_removes [of now "priority_queue s" "kv s"]
  by (auto simp: run_clean_def split: prod.splits if_splits)

interpretation mem_src: cacher_source mem_obtain mem_poll mem_set mem_delete run_clean mem_live
  "\<lambda>v. v \<noteq> []" mem_tidy mem_source
proof (unfold_locales, goal_cases)
  case (7 c now t k w)
  then show ?case by (auto simp: mem_source_def dest: run_clean_removes)
qed (auto simp: mem_source_def mem_poll_def spawn_clean_def mem_obtain_alt mem_set_alt mem_delete_def
    mem_del_alt mem_store_def mem_drop_def Let_def split: option.splits if_splits)

interpretation mem_cut: cacher_cut mem_obtain mem_poll mem_set mem_delete run_clean mem_live
  "\<lambda>v. v \<noteq> []" mem_tidy mem_source mem_obtain_cut mem_del_cut
  by unfold_locales
    (auto simp: mem_obtain_cut_def mem_del_cut_def mem_live_def mem_source_def mem_tidy_def Let_def
      split: option.splits if_splits)

section \<open>Properties\<close>

text \<open>
  In every state the cache can reach, as long as no operation was dropped half-way, a clean-up task that
runs at time \<open>now\<close> leaves no entry that has expired by then, however the operations were interleaved
before: expired entries do not pile up.
\<close>

theorem clean_leaves_no_expired_entry:
  assumes "mem_reachable s" and "spawned s \<noteq> 0" and "kv (run_clean s now) k = Some (e, v)"
  shows "now < e"
proof -
  have i: "mem_inv s" using assms(1) by (rule mem_reachable_inv)
  then have pq: "bt_invar (priority_queue s)" by (simp add: mem_inv_def)
  from assms(2,3) have old: "kv s k = Some (e, v)"
    and no: "\<forall>x\<in>set (priority_queue s). expire_of x \<le> now \<longrightarrow> name_of x \<noteq> k"
    by (auto simp: run_clean_spec [OF pq] clean_spec_def split: if_splits)
  from i old have "PriorityKey e k \<in> set (priority_queue s)" by (simp add: mem_inv_def)
  with no show ?thesis by fastforce
qed

theorem clean_leaves_no_expired_entry_witness:
  "\<exists>s. mem_reachable s \<and> spawned s \<noteq> 0 \<and> kv (run_clean s 150) ''b'' = Some (200, []) \<and> (150 :: u64) < 200"
proof -
  define s1 where "s1 = snd (mem_obtain mem_default 0 ''a'' 100)"
  define s2 where "s2 = snd (mem_obtain s1 100 ''b'' 100)"
  define s3 where "s3 = snd (mem_del s2 ''c'')"
  have r1: "mem_reachable s1" unfolding s1_def
    by (metis mem_start mem_next mem_step.obtain_step prod.collapse)
  have r2: "mem_reachable s2" unfolding s2_def
    using r1 by (metis mem_next mem_step.obtain_step prod.collapse)
  have r3: "mem_reachable s3" unfolding s3_def
    using r2 by (metis mem_next mem_step.del_step prod.collapse)
  have sp: "spawned s3 \<noteq> 0"
    by (simp add: s3_def mem_del_alt spawn_clean_def)
  have k: "kv (run_clean s3 150) ''b'' = Some (200, [])"
    by (simp add: s3_def s2_def s1_def mem_default_def mem_obtain_def mem_del_def spawn_clean_def
        run_clean_def step_simps Let_def)
  from clean_leaves_no_expired_entry [OF r3 sp k] r3 sp k show ?thesis by blast
qed

text \<open>
  While the queue is exact, a clean-up task removes the expired entries and nothing else: what is
still live is untouched, so a clean-up at any moment is invisible to the clients.
\<close>

theorem clean_removes_exactly_expired:
  assumes "mem_exact s" and "spawned s \<noteq> 0"
  shows "kv (run_clean s now) k =
    (case kv s k of None \<Rightarrow> None | Some (e, v) \<Rightarrow> if now < e then Some (e, v) else None)"
proof -
  have pq: "bt_invar (priority_queue s)" using assms(1) by (simp add: mem_exact_def mem_inv_def)
  have "\<exists>x\<in>set (priority_queue s). expire_of x \<le> now \<and> name_of x = k"
    if "kv s k = Some (e, v)" "\<not> now < e" for e v
    using that assms(1) by (intro bexI [of _ "PriorityKey e k"]) (auto simp: mem_exact_def mem_inv_def)
  moreover have "now < e"
    if "kv s k = Some (e, v)" "\<not> (\<exists>x\<in>set (priority_queue s). expire_of x \<le> now \<and> name_of x = k)" for e v
    using calculation that by blast
  moreover have "kv s k = None \<or> (\<exists>e v. kv s k = Some (e, v) \<and> \<not> now < e)"
    if x: "x \<in> set (priority_queue s)" "expire_of x \<le> now" "name_of x = k" for x
  proof -
    from x(3) obtain e where e: "x = PriorityKey e k" by (cases x) auto
    with x(1) assms(1) obtain v where "kv s k = Some (e, v)" by (auto simp: mem_exact_def)
    with e x(2) show ?thesis by auto
  qed
  ultimately show ?thesis
    using assms(2) by (fastforce simp: run_clean_spec [OF pq] clean_spec_def split: option.splits)
qed

theorem clean_removes_exactly_expired_witness:
  "kv (run_clean (snd (mem_del (snd (mem_obtain mem_default 0 ''a'' 100)) ''b'')) 50) ''a'' = Some (100, [])"
proof -
  let ?s1 = "snd (mem_obtain mem_default 0 ''a'' 100)"
  let ?s = "snd (mem_del ?s1 ''b'')"
  have "mem_exact ?s1" using mem_exact_obtain [OF mem_exact_default] by (metis prod.collapse)
  then have e: "mem_exact ?s" using mem_exact_del by (metis mem_delete_def prod.collapse)
  have sp: "spawned ?s \<noteq> 0" by (simp add: mem_del_alt spawn_clean_def)
  have k: "kv ?s ''a'' = Some (100, [])"
    by (simp add: mem_default_def mem_obtain_def mem_del_def spawn_clean_def Let_def)
  show ?thesis using clean_removes_exactly_expired [OF e sp, of 50 "''a''"] k by simp
qed

text \<open>
  A late \<open>set\<close> loses a fresh lock. \<open>set\<close> on an expired key removes the key from the map but leaves
its queue entry; if another request obtains the key before the spawned clean-up runs, the
clean-up pops the old queue entry and removes the new lock, and the key can be obtained a second
time at the same instant: two requests with one idempotency key are both forwarded.
\<close>

theorem late_set_loses_fresh_lock:
  assumes "mem_inv s" and "kv s k = Some (e, v)" and "e \<le> now"
  shows "\<exists>s1 s2. mem_set s now k w ttl = (Err ''value expired'', s1) \<and>
    mem_obtain s1 now k ttl = (Ok True, s2) \<and>
    fst (mem_obtain (run_clean s2 now) now k ttl) = Ok True"
proof -
  define s1 where "s1 = spawn_clean (s\<lparr>kv := (kv s)(k := None)\<rparr>)"
  define s2 where "s2 = mem_store s1 k (now + ttl) []"
  have a: "mem_set s now k w ttl = (Err ''value expired'', s1)"
    using assms by (simp add: mem_set_alt s1_def)
  have n: "kv s1 k = None" by (simp add: s1_def spawn_clean_def)
  have b: "mem_obtain s1 now k ttl = (Ok True, s2)"
    using n by (simp add: mem_obtain_alt s2_def)
  have stale: "PriorityKey e k \<in> set (priority_queue s2)"
    using assms(1,2) n by (simp add: s2_def mem_store_def s1_def spawn_clean_def mem_inv_def)
  have "mem_inv s2"
    unfolding s2_def s1_def using assms(1) by (simp add: mem_store_inv mem_inv_forget)
  then have pq: "bt_invar (priority_queue s2)" by (simp add: mem_inv_def)
  have "spawned s2 \<noteq> 0" by (simp add: s2_def mem_store_def s1_def spawn_clean_def)
  with stale assms(3) have "kv (run_clean s2 now) k = None"
    by (force simp: run_clean_spec [OF pq] clean_spec_def)
  then have "fst (mem_obtain (run_clean s2 now) now k ttl) = Ok True"
    by (simp add: mem_obtain_alt)
  with a b show ?thesis by blast
qed

theorem late_set_loses_fresh_lock_witness:
  "\<exists>s1 s2. mem_set (snd (mem_obtain mem_default 0 ''a'' 100)) 100 ''a'' ''v'' 100 = (Err ''value expired'', s1) \<and>
    mem_obtain s1 100 ''a'' 100 = (Ok True, s2) \<and>
    fst (mem_obtain (run_clean s2 100) 100 ''a'' 100) = Ok True"
proof (rule late_set_loses_fresh_lock)
  show "mem_inv (snd (mem_obtain mem_default 0 ''a'' 100))"
    using mem_inv_obtain [OF mem_inv_default] by (metis prod.collapse)
  show "kv (snd (mem_obtain mem_default 0 ''a'' 100)) ''a'' = Some (100, [])"
    by (simp add: mem_default_def mem_obtain_def)
qed simp



text \<open>The state of the cache when \<open>i\<close> rounds of a \<open>polling_get\<close> of at most \<open>n\<close> rounds are over.\<close>

fun mem_round :: "(nat \<Rightarrow> u64) \<Rightarrow> (nat \<Rightarrow> mem_cacher \<Rightarrow> mem_cacher) \<Rightarrow> mem_cacher \<Rightarrow> string \<Rightarrow> nat
    \<Rightarrow> nat \<Rightarrow> mem_cacher" where
  "mem_round clk env s key n 0 = s"
| "mem_round clk env s key n (Suc i) =
     mem_round clk env (env n (snd (mem_poll s (clk n) key))) key (n - 1) i"

text \<open>
  C30: A client that waits for a locked key gets the value the leader stores: if the key is live and
pending in the first \<open>i\<close> rounds and holds the value in the next one, \<open>polling_get\<close> returns it,
whatever else the other tasks did to the cache in between; and with every allowed round pending
it reports the timeout.
\<close>

theorem polling_get_waits_for_leader:
  assumes "\<forall>j<i. mem_live (mem_round clk env s key n j) (clk (n - j)) key = Some Pending"
    and "i < n \<Longrightarrow> mem_live (mem_round clk env s key n i) (clk (n - i)) key = Some (Ready v)"
    and "i \<le> n"
  shows "fst (mem_polling_get clk env s key n) = (if i < n then Ok v else Err ''polling get cache timeout'')"
  using assms
proof (induction i arbitrary: s n)
  case 0
  show ?case
  proof (cases n)
    case 0
    then show ?thesis by simp
  next
    case (Suc m)
    with 0 have "fst (mem_poll s (clk n) key) = PollDone (Ok v)"
      by (simp add: mem_poll_result)
    with Suc show ?thesis by (auto split: prod.splits)
  qed
next
  case (Suc i)
  then obtain m where n: "n = Suc m" by (cases n) auto
  from Suc.prems(1) have "fst (mem_poll s (clk n) key) = PollAgain"
    by (force simp: mem_poll_result)
  then obtain s' where p: "mem_poll s (clk (Suc m)) key = (PollAgain, s')" by (metis n prod.collapse)
  let ?t = "env (Suc m) s'"
  have "fst (mem_polling_get clk env ?t key m) =
      (if i < m then Ok v else Err ''polling get cache timeout'')"
  proof (rule Suc.IH)
    show "\<forall>j<i. mem_live (mem_round clk env ?t key m j) (clk (m - j)) key = Some Pending"
    proof (intro allI impI)
      fix j
      assume "j < i"
      then have "Suc j < Suc i" by simp
      with Suc.prems(1) have "mem_live (mem_round clk env s key n (Suc j)) (clk (n - Suc j)) key = Some Pending"
        by blast
      with n p show "mem_live (mem_round clk env ?t key m j) (clk (m - j)) key = Some Pending" by simp
    qed
    show "mem_live (mem_round clk env ?t key m i) (clk (m - i)) key = Some (Ready v)" if "i < m"
      using Suc.prems(2) n p that by simp
    show "i \<le> m" using Suc.prems(3) n by simp
  qed
  with n p show ?case by simp
qed

text \<open>The witness: the leader stores the value while the client sleeps after its first round.\<close>

theorem polling_get_waits_for_leader_witness:
  "fst (mem_polling_get (\<lambda>n. 10) (\<lambda>n c. snd (mem_set c 10 ''k'' ''v'' 100))
      (snd (mem_obtain mem_default 0 ''k'' 100)) ''k'' (Suc (Suc 0))) = Ok ''v''"
  using polling_get_waits_for_leader
    [of "Suc 0" "\<lambda>n. 10" "\<lambda>n c. snd (mem_set c 10 ''k'' ''v'' 100)"
        "snd (mem_obtain mem_default 0 ''k'' 100)" "''k''" "Suc (Suc 0)" "''v''"]
  by (simp add: mem_default_def mem_obtain_def mem_live_def mem_poll_def mem_set_def)

end
