(* ===== verification/Memory_Locks.thy ===== *)
theory Memory_Locks
  imports Prelude
begin

text \<open>
  The locks of \<open>src/idempotent-proxy-server/src/cache/memory.rs\<close>: which of the two
  \<open>tokio::sync::RwLock\<close>s each operation takes, in which order, and what that allows when
  several tasks run. A task is the list of lock actions it still has to do; guards are dropped at
  the end of the operation's block (\<open>Release\<close>). A lock is granted when it is free, in any order:
  the fairness of the real lock only removes runs. The task of a request is dropped, with its guards, when
  its client goes away, at any await; a spawned clean-up is detached and is never dropped.
\<close>

section \<open>Locks and the operations' lock scripts\<close>

datatype rwlock = KvLock | PqLock

datatype lock_act = Write rwlock | Read rwlock | Release

text \<open>
  \<open>obtain\<close>, \<open>set\<close> and \<open>del\<close> lock \<open>kv\<close>, and then \<open>priority_queue\<close> on the branches that change an
  entry; a round of \<open>polling_get\<close> holds \<open>kv\<close> for reading until its block ends, after the sleep;
  the task \<open>clean_expired_values\<close> spawns locks \<open>priority_queue\<close> first.
\<close>

definition obtain_script :: "bool \<Rightarrow> lock_act list" where
  "obtain_script changes = Write KvLock # (if changes then [Write PqLock] else []) @ [Release]"

definition set_script :: "bool \<Rightarrow> lock_act list" where
  "set_script changes = Write KvLock # (if changes then [Write PqLock] else []) @ [Release]"

definition del_script :: "bool \<Rightarrow> lock_act list" where
  "del_script changes = Write KvLock # (if changes then [Write PqLock] else []) @ [Release]"

definition poll_script :: "nat \<Rightarrow> lock_act list" where
  "poll_script rounds = concat (replicate rounds [Read KvLock, Release])"

definition clean_script :: "lock_act list" where
  "clean_script = [Write PqLock, Write KvLock, Release]"

section \<open>Steps\<close>

record locks =
  writer :: "rwlock \<Rightarrow> nat option"
  readers :: "rwlock \<Rightarrow> nat set"
  todo :: "nat \<Rightarrow> lock_act list"
  detached :: "nat set"

definition free_locks :: "nat set \<Rightarrow> (nat \<Rightarrow> lock_act list) \<Rightarrow> locks" where
  "free_locks spawned tasks =
     \<lparr>writer = (\<lambda>_. None), readers = (\<lambda>_. {}), todo = tasks, detached = spawned\<rparr>"

definition drop_guards :: "nat \<Rightarrow> locks \<Rightarrow> locks" where
  "drop_guards i s = s\<lparr>writer := (\<lambda>l. if writer s l = Some i then None else writer s l),
                       readers := (\<lambda>l. readers s l - {i})\<rparr>"

datatype lock_event = Acts nat | Drops nat

inductive lock_step :: "locks \<Rightarrow> lock_event \<Rightarrow> locks \<Rightarrow> bool" where
  write_lock: "todo s i = Write l # r \<Longrightarrow> writer s l = None \<Longrightarrow> readers s l = {} \<Longrightarrow>
     lock_step s (Acts i) (s\<lparr>writer := (writer s)(l := Some i), todo := (todo s)(i := r)\<rparr>)"
| read_lock: "todo s i = Read l # r \<Longrightarrow> writer s l = None \<Longrightarrow>
     lock_step s (Acts i) (s\<lparr>readers := (readers s)(l := insert i (readers s l)), todo := (todo s)(i := r)\<rparr>)"
| release: "todo s i = Release # r \<Longrightarrow>
     lock_step s (Acts i) ((drop_guards i s)\<lparr>todo := (todo s)(i := r)\<rparr>)"
| cancel: "i \<notin> detached s \<Longrightarrow>
     lock_step s (Drops i) ((drop_guards i s)\<lparr>todo := (todo s)(i := [])\<rparr>)"

inductive_cases acts_cases: "lock_step s (Acts i) t"
inductive_cases drops_cases: "lock_step s (Drops i) t"

inductive lock_steps :: "locks \<Rightarrow> lock_event list \<Rightarrow> locks \<Rightarrow> bool" where
  lock_refl: "lock_steps s [] s"
| lock_trans: "lock_step s e t \<Longrightarrow> lock_steps t es u \<Longrightarrow> lock_steps s (e # es) u"

section \<open>A deadlock lasts until the request is dropped\<close>

definition deadlocked :: "nat \<Rightarrow> nat \<Rightarrow> locks \<Rightarrow> bool" where
  "deadlocked i j s \<longleftrightarrow> i \<noteq> j \<and> j \<in> detached s \<and>
     writer s KvLock = Some i \<and> (\<exists>r. todo s i = Write PqLock # r) \<and>
     writer s PqLock = Some j \<and> (\<exists>r. todo s j = Write KvLock # r)"

text \<open>A task that needs the lock of \<open>kv\<close> next.\<close>

definition needs_kv :: "nat \<Rightarrow> locks \<Rightarrow> bool" where
  "needs_kv k s \<longleftrightarrow> (\<exists>r. todo s k = Write KvLock # r \<or> todo s k = Read KvLock # r)"

lemma deadlocked_step:
  assumes "lock_step s e t" and "deadlocked i j s" and "e \<noteq> Drops i"
  shows "deadlocked i j t \<and> e \<noteq> Acts i \<and> e \<noteq> Acts j"
  using assms
proof (induction rule: lock_step.induct)
  case (write_lock s k l r)
  then have "k \<noteq> i" "k \<noteq> j" by (cases l; auto simp: deadlocked_def)+
  with write_lock show ?case by (cases l) (auto simp: deadlocked_def)
next
  case (read_lock s k l r)
  then have "k \<noteq> i" "k \<noteq> j" by (auto simp: deadlocked_def)
  with read_lock show ?case by (auto simp: deadlocked_def)
next
  case (release s k r)
  then have "k \<noteq> i" "k \<noteq> j" by (auto simp: deadlocked_def)
  with release show ?case by (auto simp: deadlocked_def drop_guards_def)
next
  case (cancel k s)
  then have "k \<noteq> i" "k \<noteq> j" by (auto simp: deadlocked_def)
  with cancel show ?case by (auto simp: deadlocked_def drop_guards_def)
qed

lemma deadlocked_blocks_kv:
  "lock_step s e t \<Longrightarrow> deadlocked i j s \<Longrightarrow> needs_kv k s \<Longrightarrow> e \<noteq> Acts k \<and> (e = Drops k \<or> needs_kv k t)"
  by (induction rule: lock_step.induct) (auto simp: deadlocked_def needs_kv_def drop_guards_def)

lemma deadlocked_steps:
  "lock_steps s es t \<Longrightarrow> deadlocked i j s \<Longrightarrow> Drops i \<notin> set es \<Longrightarrow>
     deadlocked i j t \<and> Acts i \<notin> set es \<and> Acts j \<notin> set es"
proof (induction rule: lock_steps.induct)
  case (lock_trans s e t es u)
  then have "deadlocked i j t \<and> e \<noteq> Acts i \<and> e \<noteq> Acts j" by (intro deadlocked_step) auto
  with lock_trans show ?case by auto
qed simp

lemma dropped_stays:
  "lock_steps s es t \<Longrightarrow> todo s k = [] \<Longrightarrow> Acts k \<notin> set es"
proof (induction rule: lock_steps.induct)
  case (lock_trans s e t es u)
  from lock_trans(1,4) have "e \<noteq> Acts k \<and> todo t k = []"
    by (induction rule: lock_step.induct) (auto simp: drop_guards_def)
  with lock_trans show ?case by auto
qed simp

lemma deadlocked_steps_kv:
  "lock_steps s es t \<Longrightarrow> deadlocked i j s \<Longrightarrow> Drops i \<notin> set es \<Longrightarrow> needs_kv k s \<Longrightarrow> Acts k \<notin> set es"
proof (induction rule: lock_steps.induct)
  case (lock_trans s e t es u)
  have d: "deadlocked i j t" using deadlocked_step [OF lock_trans(1,4)] lock_trans(5) by auto
  from deadlocked_blocks_kv [OF lock_trans(1,4,6)] have e: "e \<noteq> Acts k" "e = Drops k \<or> needs_kv k t" by auto
  from e(2) have "Acts k \<notin> set es"
  proof
    assume "e = Drops k"
    with lock_trans(1) have "todo t k = []" by (auto elim: drops_cases)
    then show ?thesis by (rule dropped_stays [OF lock_trans(2)])
  next
    assume "needs_kv k t"
    with lock_trans d show ?thesis by auto
  qed
  with e(1) show ?case by simp
qed simp

section \<open>A sleeping poll blocks every writer\<close>

text \<open>
  As long as a \<open>polling_get\<close> sleeps it keeps its read guard, and no task gets the write lock of \<open>kv\<close>
  that \<open>obtain\<close>, \<open>set\<close> and \<open>del\<close> need for any key.
\<close>

lemma sleeping_poll_blocks_writers:
  "lock_step s e t \<Longrightarrow> i \<in> readers s KvLock \<Longrightarrow> todo s j = Write KvLock # r \<Longrightarrow> e = Drops j \<or> todo t j = todo s j"
  by (induction rule: lock_step.induct) (auto simp: drop_guards_def)

section \<open>Without clean-up tasks nothing blocks\<close>

text \<open>
  The lock order \<open>kv\<close> before \<open>priority_queue\<close>: what a task may still ask for, given that it holds
  \<open>kv\<close> or not, and that the queue's lock is only ever held together with \<open>kv\<close>.
\<close>

fun ordered_todo :: "bool \<Rightarrow> bool \<Rightarrow> lock_act list \<Rightarrow> bool" where
  "ordered_todo kvl pql [] = (\<not> kvl \<and> \<not> pql)"
| "ordered_todo kvl pql (Release # r) = ordered_todo False False r"
| "ordered_todo kvl pql (Write KvLock # r) = (\<not> kvl \<and> \<not> pql \<and> ordered_todo True False r)"
| "ordered_todo kvl pql (Write PqLock # r) = (kvl \<and> \<not> pql \<and> ordered_todo True True r)"
| "ordered_todo kvl pql (Read KvLock # r) = (\<not> kvl \<and> \<not> pql \<and> (case r of Release # r' \<Rightarrow> ordered_todo False False r' | _ \<Rightarrow> False))"
| "ordered_todo kvl pql (Read PqLock # r) = False"

definition lock_ordered :: "locks \<Rightarrow> bool" where
  "lock_ordered s \<longleftrightarrow>
     readers s PqLock = {} \<and>
     (\<forall>i. (i \<in> readers s KvLock \<longrightarrow> writer s KvLock = None \<and> (\<exists>r. todo s i = Release # r \<and> ordered_todo False False r))
        \<and> (i \<notin> readers s KvLock \<longrightarrow>
             ordered_todo (writer s KvLock = Some i) (writer s PqLock = Some i) (todo s i)))
     \<and> (\<forall>i. writer s PqLock = Some i \<longrightarrow> writer s KvLock = Some i)"

lemma lock_ordered_other:
  "lock_ordered s \<Longrightarrow> i \<notin> readers s KvLock \<Longrightarrow>
     ordered_todo (writer s KvLock = Some i) (writer s PqLock = Some i) (todo s i)"
  unfolding lock_ordered_def by blast

lemma lock_ordered_reader:
  "lock_ordered s \<Longrightarrow> i \<in> readers s KvLock \<Longrightarrow>
     writer s KvLock = None \<and> (\<exists>r. todo s i = Release # r \<and> ordered_todo False False r)"
  unfolding lock_ordered_def by blast

lemma lock_ordered_step: "lock_step s e t \<Longrightarrow> lock_ordered s \<Longrightarrow> lock_ordered t"
proof (induction rule: lock_step.induct)
  case (write_lock s i l r)
  have w: "ordered_todo (writer s KvLock = Some i) (writer s PqLock = Some i) (Write l # r)"
    using write_lock lock_ordered_other [of s i] lock_ordered_reader [of s i]
    by (cases "i \<in> readers s KvLock") auto
  show ?case
  proof (cases l)
    case KvLock
    with write_lock w show ?thesis by (auto simp: lock_ordered_def)
  next
    case PqLock
    with write_lock w show ?thesis
      by (auto simp: lock_ordered_def) (metis (full_types))
  qed
next
  case (read_lock s i l r)
  have w: "ordered_todo (writer s KvLock = Some i) (writer s PqLock = Some i) (Read l # r)"
    using read_lock lock_ordered_other [of s i] lock_ordered_reader [of s i]
    by (cases "i \<in> readers s KvLock") auto
  then have l: "l = KvLock" by (cases l) auto
  with w obtain r' where "r = Release # r'" "ordered_todo False False r'"
    by (auto split: list.splits lock_act.splits)
  with read_lock l show ?case by (auto simp: lock_ordered_def)
next
  case (release s i r)
  have "ordered_todo False False r"
    using release lock_ordered_other [of s i] lock_ordered_reader [of s i]
    by (cases "i \<in> readers s KvLock") auto
  with release show ?case
    by (auto simp: lock_ordered_def drop_guards_def) (metis (full_types) not_None_eq)+
next
  case (cancel i s)
  then show ?case
    by (auto simp: lock_ordered_def drop_guards_def) (metis (full_types) not_None_eq)+
qed

lemma lock_ordered_steps: "lock_steps s es t \<Longrightarrow> lock_ordered s \<Longrightarrow> lock_ordered t"
  by (induction rule: lock_steps.induct) (auto dest: lock_ordered_step)

lemma lock_ordered_free: "\<forall>i. ordered_todo False False (tasks i) \<Longrightarrow> lock_ordered (free_locks D tasks)"
  by (simp add: lock_ordered_def free_locks_def)

lemma ordered_scripts [simp]:
  "ordered_todo False False (obtain_script b)" "ordered_todo False False (set_script b)"
  "ordered_todo False False (del_script b)" "ordered_todo False False (poll_script n)"
  by (auto simp: obtain_script_def set_script_def del_script_def poll_script_def)
    (induction n; simp)

lemma ordered_append:
  "ordered_todo a b xs \<Longrightarrow> ordered_todo False False ys \<Longrightarrow> ordered_todo a b (xs @ ys)"
  by (induction a b xs rule: ordered_todo.induct) (auto split: list.splits lock_act.splits)

lemma ordered_concat:
  "(\<And>xs. xs \<in> set xss \<Longrightarrow> ordered_todo False False xs) \<Longrightarrow> ordered_todo False False (concat xss)"
  by (induction xss) (auto intro: ordered_append)

lemma ordered_progress_holder:
  assumes "lock_ordered s" and "writer s KvLock = Some w"
  shows "\<exists>k t. lock_step s (Acts k) t"
proof -
  have "w \<notin> readers s KvLock" using lock_ordered_reader [OF assms(1)] assms(2) by auto
  from lock_ordered_other [OF assms(1) this] assms(2)
  have o: "ordered_todo True (writer s PqLock = Some w) (todo s w)" by simp
  then consider r where "todo s w = Release # r" | r where "todo s w = Write PqLock # r" "writer s PqLock \<noteq> Some w"
    by (cases "(True, writer s PqLock = Some w, todo s w)" rule: ordered_todo.cases) auto
  then show ?thesis
  proof cases
    case 1
    then show ?thesis by (blast intro: lock_step.release)
  next
    case 2
    with assms have "writer s PqLock = None" "readers s PqLock = {}"
      by (auto simp: lock_ordered_def) (metis not_None_eq)
    with 2 show ?thesis by (blast intro: lock_step.write_lock)
  qed
qed

lemma ordered_progress:
  assumes "lock_ordered s" and "todo s i \<noteq> []"
  shows "\<exists>k t. lock_step s (Acts k) t"
proof (cases "writer s KvLock")
  case (Some w)
  then show ?thesis by (rule ordered_progress_holder [OF assms(1)])
next
  case None
  then have pq: "writer s PqLock = None" using assms(1)
    by (cases "writer s PqLock") (auto simp: lock_ordered_def)
  show ?thesis
  proof (cases "readers s KvLock = {}")
    case False
    then show ?thesis using lock_ordered_reader [OF assms(1)] by (blast intro: lock_step.release)
  next
    case True
    with lock_ordered_other [OF assms(1), of i] None pq
    have "ordered_todo False False (todo s i)" by simp
    with assms(2) consider r where "todo s i = Release # r" | r where "todo s i = Write KvLock # r"
      | r where "todo s i = Read KvLock # r"
      by (cases "(False, False, todo s i)" rule: ordered_todo.cases) auto
    then show ?thesis
      using None True by cases (blast intro: lock_step.intros)+
  qed
qed

section \<open>Properties\<close>

text \<open>
  C31: The lock orders of \<open>obtain\<close> (\<open>kv\<close>, then \<open>priority_queue\<close>) and of the clean-up task
(\<open>priority_queue\<close>, then \<open>kv\<close>) are opposite, and the two can block each other. From a state in which a
request is about to obtain an absent or expired key and a clean-up has been spawned, whatever the other
tasks are, a state is reached in which both wait for each other. For as long as the request is not dropped,
neither of them moves again, and no other task that comes to need \<open>kv\<close> gets it. Dropping the request ends
it: then the clean-up gets \<open>kv\<close> and finishes.
\<close>

theorem obtain_and_clean_can_deadlock:
  assumes "i \<noteq> j" and "tasks i = obtain_script True @ ri" and "tasks j = clean_script @ rj"
    and "i \<notin> D" and "j \<in> D"
  shows "\<exists>s. lock_steps (free_locks D tasks) [Acts i, Acts j] s \<and>
    (\<forall>es t. lock_steps s es t \<longrightarrow> Drops i \<notin> set es \<longrightarrow> deadlocked i j t \<and> Acts i \<notin> set es \<and> Acts j \<notin> set es \<and>
       (\<forall>k es' t'. needs_kv k t \<longrightarrow> lock_steps t es' t' \<longrightarrow> Drops i \<notin> set es' \<longrightarrow> Acts k \<notin> set es')) \<and>
    (\<exists>t. lock_steps s [Drops i, Acts j, Acts j] t \<and> todo t j = rj \<and> writer t KvLock = None \<and> writer t PqLock = None)"
proof -
  let ?s0 = "free_locks D tasks"
  let ?s1 = "?s0\<lparr>writer := (writer ?s0)(KvLock := Some i),
                 todo := (todo ?s0)(i := Write PqLock # Release # ri)\<rparr>"
  let ?s2 = "?s1\<lparr>writer := (writer ?s1)(PqLock := Some j),
                 todo := (todo ?s1)(j := Write KvLock # Release # rj)\<rparr>"
  let ?s3 = "(drop_guards i ?s2)\<lparr>todo := (todo ?s2)(i := [])\<rparr>"
  let ?s4 = "?s3\<lparr>writer := (writer ?s3)(KvLock := Some j), todo := (todo ?s3)(j := Release # rj)\<rparr>"
  let ?s5 = "(drop_guards j ?s4)\<lparr>todo := (todo ?s4)(j := rj)\<rparr>"
  have a: "lock_step ?s0 (Acts i) ?s1"
    using assms by (intro lock_step.write_lock) (simp_all add: free_locks_def obtain_script_def)
  have b: "lock_step ?s1 (Acts j) ?s2"
    using assms by (intro lock_step.write_lock) (simp_all add: free_locks_def clean_script_def)
  have c: "lock_step ?s2 (Drops i) ?s3"
    using assms by (intro lock_step.cancel) (simp add: free_locks_def)
  have d: "lock_step ?s3 (Acts j) ?s4"
    using assms by (intro lock_step.write_lock) (simp_all add: free_locks_def drop_guards_def)
  have e: "lock_step ?s4 (Acts j) ?s5" by (intro lock_step.release) simp
  have "lock_steps ?s0 [Acts i, Acts j] ?s2" by (rule lock_trans [OF a lock_trans [OF b lock_refl]])
  moreover have "lock_steps ?s2 [Drops i, Acts j, Acts j] ?s5" by (rule lock_trans [OF c lock_trans [OF d lock_trans [OF e lock_refl]]])
  moreover have "todo ?s5 j = rj \<and> writer ?s5 KvLock = None \<and> writer ?s5 PqLock = None"
    by (simp add: drop_guards_def)
  moreover have "deadlocked i j ?s2" using assms(1,5) by (simp add: deadlocked_def free_locks_def)
  then have "\<forall>es t. lock_steps ?s2 es t \<longrightarrow> Drops i \<notin> set es \<longrightarrow> deadlocked i j t \<and> Acts i \<notin> set es \<and> Acts j \<notin> set es \<and>
       (\<forall>k es' t'. needs_kv k t \<longrightarrow> lock_steps t es' t' \<longrightarrow> Drops i \<notin> set es' \<longrightarrow> Acts k \<notin> set es')"
    by (auto dest: deadlocked_steps deadlocked_steps_kv)
  ultimately show ?thesis by blast
qed

theorem obtain_and_clean_can_deadlock_witness:
  "\<exists>s. lock_steps (free_locks {1} (\<lambda>k. if k = 0 then obtain_script True @ [] else if k = 1 then clean_script @ [] else obtain_script False))
     [Acts 0, Acts 1] s \<and> deadlocked 0 1 s"
proof -
  let ?tasks = "\<lambda>k::nat. if k = 0 then obtain_script True @ [] else if k = 1 then clean_script @ [] else obtain_script False"
  obtain s where s: "lock_steps (free_locks {1} ?tasks) [Acts 0, Acts 1] s" and
    d: "\<forall>es t. lock_steps s es t \<longrightarrow> Drops 0 \<notin> set es \<longrightarrow> deadlocked 0 1 t"
    using obtain_and_clean_can_deadlock [of 0 1 ?tasks "[]" "[]" "{1}"] by auto
  from d lock_refl [of s] have "deadlocked 0 1 s" by auto
  with s show ?thesis by blast
qed

text \<open>
  It takes a clean-up task: as long as every task is a sequence of \<open>obtain\<close>, \<open>set\<close>, \<open>del\<close> and
\<open>polling_get\<close> calls, in every reachable state with an unfinished task some task can act, whatever was
dropped before.
\<close>

theorem no_deadlock_without_clean:
  assumes "\<forall>i. \<exists>calls. tasks i = concat calls \<and>
      set calls \<subseteq> range obtain_script \<union> range set_script \<union> range del_script \<union> range poll_script"
    and "lock_steps (free_locks D tasks) es s" and "todo s i \<noteq> []"
  shows "\<exists>k t. lock_step s (Acts k) t"
proof -
  have "ordered_todo False False (tasks k)" for k
  proof -
    obtain calls where "tasks k = concat calls" and
      "set calls \<subseteq> range obtain_script \<union> range set_script \<union> range del_script \<union> range poll_script"
      using assms(1) by blast
    then show ?thesis by (auto intro!: ordered_concat)
  qed
  then have "lock_ordered (free_locks D tasks)" by (simp add: lock_ordered_free)
  with assms(2) have "lock_ordered s" by (blast intro: lock_ordered_steps)
  then show ?thesis using assms(3) by (rule ordered_progress)
qed

theorem no_deadlock_without_clean_witness:
  "\<exists>k t. lock_step (free_locks {} (\<lambda>i. obtain_script True @ set_script True @ poll_script i)) (Acts k) t"
proof (rule no_deadlock_without_clean [where i = 0])
  show "\<forall>i. \<exists>calls. obtain_script True @ set_script True @ poll_script i = concat calls \<and>
      set calls \<subseteq> range obtain_script \<union> range set_script \<union> range del_script \<union> range poll_script"
    by (intro allI exI [of _ "[obtain_script True, set_script True, poll_script _]"]) simp
  show "lock_steps (free_locks {} (\<lambda>i. obtain_script True @ set_script True @ poll_script i)) []
      (free_locks {} (\<lambda>i. obtain_script True @ set_script True @ poll_script i))"
    by (rule lock_refl)
  show "todo (free_locks {} (\<lambda>i. obtain_script True @ set_script True @ poll_script i)) 0 \<noteq> []"
    by (simp add: free_locks_def obtain_script_def)
qed

end
