(* ===== verification/Redis_Cache.thy ===== *)
theory Redis_Cache
  imports Cacher
begin

text \<open>
  \<open>src/idempotent-proxy-server/src/cache/redis.rs\<close>: the cache kept in a Redis server. The
  client library (\<open>rustis\<close>, \<open>bb8\<close>) and the server are not part of the repository: they are the
  parameter \<open>redis_lib\<close>, the calls the code makes on a server in state \<open>'r\<close> at server time \<open>now\<close>,
  and the properties assume what Redis documents about them (\<open>redis_documented\<close>).
\<close>

section \<open>The client library\<close>

datatype set_condition = NX | XX

record 'r redis_lib =
  pool_get :: "'r \<Rightarrow> (unit, string) outcome"
  set_with_options :: "'r \<Rightarrow> u64 \<Rightarrow> string \<Rightarrow> bytes \<Rightarrow> set_condition \<Rightarrow> u64 \<Rightarrow> (bool, string) outcome \<times> 'r"
  conn_get :: "'r \<Rightarrow> u64 \<Rightarrow> string \<Rightarrow> (bytes option, string) outcome \<times> 'r"
  conn_del :: "'r \<Rightarrow> u64 \<Rightarrow> string \<Rightarrow> (nat, string) outcome \<times> 'r"

text \<open>
  What Redis documents. \<open>view s t k\<close> is what \<open>GET k\<close> finds at time \<open>t\<close> when nothing is written in
  between. \<open>SET k v NX PX ttl\<close> stores exactly when the key is absent, \<open>XX\<close> exactly when it is
  present, and the key is gone \<open>ttl\<close> milliseconds later; \<open>GET\<close> changes nothing; \<open>DEL\<close> removes the
  key. When a call reports an error the command may or may not have been executed.
\<close>

definition set_effect :: "('r \<Rightarrow> u64 \<Rightarrow> string \<Rightarrow> bytes option) \<Rightarrow> 'r \<Rightarrow> u64 \<Rightarrow> string \<Rightarrow> bytes \<Rightarrow> u64 \<Rightarrow> bool \<Rightarrow> 'r \<Rightarrow> bool" where
  "set_effect view s now k v ttl executed s' \<longleftrightarrow>
     (\<forall>t k'. now \<le> t \<longrightarrow>
        (if executed \<and> k' = k
         then no_overflow now ttl \<longrightarrow> view s' t k = (if t < now + ttl then Some v else None)
         else view s' t k' = view s t k'))"

definition set_condition_holds :: "set_condition \<Rightarrow> bytes option \<Rightarrow> bool" where
  "set_condition_holds c x = (case c of NX \<Rightarrow> x = None | XX \<Rightarrow> x \<noteq> None)"

definition redis_expiry_documented :: "('r \<Rightarrow> u64 \<Rightarrow> string \<Rightarrow> bytes option) \<Rightarrow> bool" where
  "redis_expiry_documented view \<longleftrightarrow> (\<forall>s t u k v. view s t k = Some v \<longrightarrow> u \<le> t \<longrightarrow> view s u k = Some v)"

definition redis_set_documented :: "'r redis_lib \<Rightarrow> ('r \<Rightarrow> u64 \<Rightarrow> string \<Rightarrow> bytes option) \<Rightarrow> bool" where
  "redis_set_documented R view \<longleftrightarrow>
     (\<forall>s now k v c ttl r s'. set_with_options R s now k v c ttl = (r, s') \<longrightarrow>
        (\<exists>executed. set_effect view s now k v ttl executed s' \<and>
           (executed \<longrightarrow> set_condition_holds c (view s now k)) \<and>
           (\<forall>b. r = Ok b \<longrightarrow> executed = b \<and> b = set_condition_holds c (view s now k))))"

definition redis_get_documented :: "'r redis_lib \<Rightarrow> ('r \<Rightarrow> u64 \<Rightarrow> string \<Rightarrow> bytes option) \<Rightarrow> bool" where
  "redis_get_documented R view \<longleftrightarrow>
     (\<forall>s now k r s'. conn_get R s now k = (r, s') \<longrightarrow>
        (\<forall>t k'. view s' t k' = view s t k') \<and> (\<forall>x. r = Ok x \<longrightarrow> x = view s now k) \<and> \<not> is_panic r)"

definition redis_del_documented :: "'r redis_lib \<Rightarrow> ('r \<Rightarrow> u64 \<Rightarrow> string \<Rightarrow> bytes option) \<Rightarrow> bool" where
  "redis_del_documented R view \<longleftrightarrow>
     (\<forall>s now k r s' t. conn_del R s now k = (r, s') \<longrightarrow> now \<le> t \<longrightarrow>
        (\<forall>k'. k' \<noteq> k \<longrightarrow> view s' t k' = view s t k') \<and> view s' t k \<in> {view s t k, None} \<and>
        (\<forall>n. r = Ok n \<longrightarrow> view s' t k = None))"

definition redis_documented :: "'r redis_lib \<Rightarrow> ('r \<Rightarrow> u64 \<Rightarrow> string \<Rightarrow> bytes option) \<Rightarrow> bool" where
  "redis_documented R view \<longleftrightarrow> redis_expiry_documented view \<and> redis_set_documented R view \<and>
     redis_get_documented R view \<and> redis_del_documented R view"

section \<open>Operations\<close>

text \<open>The placeholder an \<open>obtain\<close> stores: one zero byte. A value longer than one byte is a response.\<close>

definition placeholder :: bytes where
  "placeholder = [CHR 0x00]"

definition redis_obtain :: "'r redis_lib \<Rightarrow> 'r \<Rightarrow> u64 \<Rightarrow> string \<Rightarrow> u64 \<Rightarrow> (bool, string) outcome \<times> 'r" where
  "redis_obtain R s now key ttl =
     (case pool_get R s of
        Ok _ \<Rightarrow> set_with_options R s now key placeholder NX ttl
      | Err e \<Rightarrow> (Err e, s)
      | Panic m \<Rightarrow> (Panic m, s))"

definition redis_poll :: "'r redis_lib \<Rightarrow> 'r \<Rightarrow> u64 \<Rightarrow> string \<Rightarrow> polled \<times> 'r" where
  "redis_poll R s now key =
     (case conn_get R s now key of
        (Ok None, s') \<Rightarrow> (PollDone (Err ''not obtained''), s')
      | (Ok (Some bs), s') \<Rightarrow> (if 1 < length bs then PollDone (Ok bs) else PollAgain, s')
      | (Err e, s') \<Rightarrow> (PollDone (Err e), s')
      | (Panic m, s') \<Rightarrow> (PollDone (Panic m), s'))"

fun redis_poll_loop :: "'r redis_lib \<Rightarrow> (nat \<Rightarrow> u64) \<Rightarrow> (nat \<Rightarrow> 'r \<Rightarrow> 'r) \<Rightarrow> 'r \<Rightarrow> string \<Rightarrow> nat
    \<Rightarrow> (bytes, string) outcome \<times> 'r" where
  "redis_poll_loop R clk env s key 0 = (Err ''polling get cache timeout'', s)"
| "redis_poll_loop R clk env s key (Suc n) =
     (case redis_poll R s (clk (Suc n)) key of
        (PollDone r, s') \<Rightarrow> (r, s')
      | (PollAgain, s') \<Rightarrow> redis_poll_loop R clk env (env (Suc n) s') key n)"

definition redis_polling_get :: "'r redis_lib \<Rightarrow> (nat \<Rightarrow> u64) \<Rightarrow> (nat \<Rightarrow> 'r \<Rightarrow> 'r) \<Rightarrow> 'r \<Rightarrow> string \<Rightarrow> nat
    \<Rightarrow> (bytes, string) outcome \<times> 'r" where
  "redis_polling_get R clk env s key counter =
     (case pool_get R s of
        Ok _ \<Rightarrow> redis_poll_loop R clk env s key counter
      | Err e \<Rightarrow> (Err e, s)
      | Panic m \<Rightarrow> (Panic m, s))"

definition redis_set :: "'r redis_lib \<Rightarrow> 'r \<Rightarrow> u64 \<Rightarrow> string \<Rightarrow> bytes \<Rightarrow> u64 \<Rightarrow> (bool, string) outcome \<times> 'r" where
  "redis_set R s now key val ttl =
     (case pool_get R s of
        Ok _ \<Rightarrow> set_with_options R s now key val XX ttl
      | Err e \<Rightarrow> (Err e, s)
      | Panic m \<Rightarrow> (Panic m, s))"

definition redis_del :: "'r redis_lib \<Rightarrow> 'r \<Rightarrow> u64 \<Rightarrow> string \<Rightarrow> (unit, string) outcome \<times> 'r" where
  "redis_del R s now key =
     (case pool_get R s of
        Ok _ \<Rightarrow> (case conn_del R s now key of (r, s') \<Rightarrow> (map_ok (\<lambda>_. ()) r, s'))
      | Err e \<Rightarrow> (Err e, s)
      | Panic m \<Rightarrow> (Panic m, s))"

section \<open>The contract\<close>

definition redis_live :: "('r \<Rightarrow> u64 \<Rightarrow> string \<Rightarrow> bytes option) \<Rightarrow> 'r \<Rightarrow> u64 \<Rightarrow> string \<Rightarrow> cached option" where
  "redis_live view s now k =
     map_option (\<lambda>bs. if 1 < length bs then Ready bs else Pending) (view s now k)"

lemma redis_live_None [simp]: "redis_live view s t k = None \<longleftrightarrow> view s t k = None"
  by (simp add: redis_live_def)

text \<open>What the documentation says of one call.\<close>

lemma redis_set_call:
  assumes "redis_documented R view" and "set_with_options R s now k v c ttl = (r, s')"
  shows "\<exists>executed. set_effect view s now k v ttl executed s' \<and>
     (executed \<longrightarrow> set_condition_holds c (view s now k)) \<and>
     (\<forall>b. r = Ok b \<longrightarrow> executed = b \<and> b = set_condition_holds c (view s now k))"
proof -
  have "redis_set_documented R view" using assms(1) by (simp add: redis_documented_def)
  from this [unfolded redis_set_documented_def, rule_format, OF assms(2)] show ?thesis .
qed

lemma redis_get_call:
  assumes "redis_documented R view" and "conn_get R s now k = (r, s')"
  shows "view s' = view s" and "r = Ok x \<Longrightarrow> x = view s now k" and "\<not> is_panic r"
proof -
  have "redis_get_documented R view" using assms(1) by (simp add: redis_documented_def)
  note d = this [unfolded redis_get_documented_def, rule_format, OF assms(2)]
  from d show "view s' = view s" by (simp add: fun_eq_iff)
  from d show "r = Ok x \<Longrightarrow> x = view s now k" and "\<not> is_panic r" by blast+
qed

lemma redis_del_call:
  assumes "redis_documented R view" and "conn_del R s now k = (r, s')" and "now \<le> t"
  shows "k' \<noteq> k \<Longrightarrow> view s' t k' = view s t k'" and "r = Ok n \<Longrightarrow> view s' t k = None"
    and "view s' t k \<in> {view s t k, None}"
proof -
  have "redis_del_documented R view" using assms(1) by (simp add: redis_documented_def)
  note d = this [unfolded redis_del_documented_def, rule_format, OF assms(2,3)]
  from d show "k' \<noteq> k \<Longrightarrow> view s' t k' = view s t k'" and "r = Ok n \<Longrightarrow> view s' t k = None"
    and "view s' t k \<in> {view s t k, None}" by blast+
qed

lemma redis_view_before:
  assumes "redis_documented R view" and "view s t k = Some v" and "u \<le> t"
  shows "view s u k = Some v"
proof -
  have "redis_expiry_documented view" using assms(1) by (simp add: redis_documented_def)
  from this [unfolded redis_expiry_documented_def, rule_format, OF assms(2,3)] show ?thesis .
qed

lemma redis_view_antimono:
  "redis_documented R view \<Longrightarrow> view s t k \<noteq> None \<Longrightarrow> u \<le> t \<Longrightarrow> view s u k \<noteq> None"
  using redis_view_before [of R view s t k "the (view s t k)" u] by simp

text \<open>What each operation does to the view: executed or not, and a result says which.\<close>

lemma set_effect_refl: "set_effect view s now k v ttl False s"
  by (simp add: set_effect_def)

lemma set_effect_live:
  assumes "set_effect view s now k v ttl executed s'" and "now \<le> t"
  shows "\<not> (executed \<and> k' = k) \<Longrightarrow> redis_live view s' t k' = redis_live view s t k'"
    and "executed \<Longrightarrow> no_overflow now ttl \<Longrightarrow>
      redis_live view s' t k = (if t < now + ttl then Some (if 1 < length v then Ready v else Pending) else None)"
  using assms by (auto simp: set_effect_def redis_live_def)

lemma redis_obtain_effect:
  assumes "redis_documented R view" and "redis_obtain R s now k ttl = (r, s')"
  shows "\<exists>executed. set_effect view s now k placeholder ttl executed s' \<and>
     (executed \<longrightarrow> view s now k = None) \<and> (\<forall>b. r = Ok b \<longrightarrow> executed = b \<and> b = (view s now k = None))"
proof (cases "pool_get R s")
  case (Ok u)
  with assms(2) have "set_with_options R s now k placeholder NX ttl = (r, s')"
    by (simp add: redis_obtain_def)
  from redis_set_call [OF assms(1) this] show ?thesis by (simp add: set_condition_holds_def)
qed (use assms(2) in \<open>auto simp: redis_obtain_def intro: set_effect_refl\<close>)

lemma redis_put_effect:
  assumes "redis_documented R view" and "redis_set R s now k v ttl = (r, s')"
  shows "\<exists>executed. set_effect view s now k v ttl executed s' \<and>
     (executed \<longrightarrow> view s now k \<noteq> None) \<and> (\<forall>b. r = Ok b \<longrightarrow> executed = b \<and> b = (view s now k \<noteq> None))"
proof (cases "pool_get R s")
  case (Ok u)
  with assms(2) have "set_with_options R s now k v XX ttl = (r, s')"
    by (simp add: redis_set_def)
  from redis_set_call [OF assms(1) this] show ?thesis by (simp add: set_condition_holds_def)
qed (use assms(2) in \<open>auto simp: redis_set_def intro: set_effect_refl\<close>)

lemma redis_poll_effect:
  assumes "redis_documented R view" and "redis_poll R s now k = (p, s')"
  shows "view s' = view s"
    and "redis_live view s now k = Some c \<Longrightarrow>
      p = (case c of Pending \<Rightarrow> PollAgain | Ready v \<Rightarrow> PollDone (Ok v)) \<or> (\<exists>e. p = PollDone (Err e))"
proof -
  obtain r where g: "conn_get R s now k = (r, s')"
    using assms(2) by (auto simp: redis_poll_def split: prod.splits outcome.splits option.splits)
  note d = redis_get_call [OF assms(1) g]
  show "view s' = view s" by (rule d(1))
  assume "redis_live view s now k = Some c"
  with assms(2) g d(2,3)
  show "p = (case c of Pending \<Rightarrow> PollAgain | Ready v \<Rightarrow> PollDone (Ok v)) \<or> (\<exists>e. p = PollDone (Err e))"
    by (cases r) (auto simp: redis_poll_def redis_live_def split: option.splits if_splits)
qed

lemma redis_del_effect:
  assumes "redis_documented R view" and "redis_del R s now k = (d, s')" and "now \<le> t"
  shows "k' \<noteq> k \<Longrightarrow> view s' t k' = view s t k'" and "d = Ok () \<Longrightarrow> view s' t k = None"
    and "view s' t k \<in> {view s t k, None}"
proof -
  note l = redis_del_call [OF assms(1) _ assms(3), of s k]
  show "k' \<noteq> k \<Longrightarrow> view s' t k' = view s t k'"
    using assms(2) l(1) by (auto simp: redis_del_def split: outcome.splits prod.splits)
  show "view s' t k \<in> {view s t k, None}"
    using assms(2) l(3) by (auto simp: redis_del_def split: outcome.splits prod.splits)
  show "d = Ok () \<Longrightarrow> view s' t k = None"
    using assms(2) l(2) by (auto simp: redis_del_def split: outcome.splits prod.splits)
qed

theorem redis_is_cacher:
  assumes "redis_documented R view"
  shows "cacher (redis_obtain R) (redis_poll R) (redis_set R) (redis_del R) (\<lambda>c now. c)
    (redis_live view) (\<lambda>v. 1 < length v) (\<lambda>_ _. True)"
proof (unfold_locales, goal_cases)
  case (1 c t k s)
  then show ?case using redis_view_antimono [OF assms, of c t k s] by simp
next
  case (2 c now k ttl b c')
  then show ?case using redis_obtain_effect [OF assms 2] by simp
next
  case (3 c now k ttl c' t)
  then show ?case using redis_obtain_effect [OF assms 3(1)] set_effect_live(2)
    by (fastforce simp: placeholder_def)
next
  case (4 c now k ttl r c' t k')
  from redis_obtain_effect [OF assms 4(1)] obtain x
    where x: "set_effect view c now k placeholder ttl x c'" "x \<longrightarrow> view c now k = None" by blast
  have "\<not> (x \<and> k' = k)" using x(2) 4(2,3) redis_view_antimono [OF assms, of c t k now] by auto
  then show ?case by (rule set_effect_live(1) [OF x(1) 4(2)])
next
  case (5 c now k ttl r c' t k')
  from redis_obtain_effect [OF assms 5(1)] obtain x
    where x: "set_effect view c now k placeholder ttl x c'" by blast
  show ?case by (rule set_effect_live(1) [OF x 5(2)]) (simp add: 5(3))
next
  case (6 c now k p c' t k')
  then show ?case using redis_poll_effect(1) [OF assms 6] by (simp add: redis_live_def)
next
  case (7 c now k p c' v)
  then show ?case using redis_poll_effect(2) [OF assms 7] by simp
next
  case (8 c now k p c')
  then show ?case using redis_poll_effect(2) [OF assms 8] by simp
next
  case (9 c now k v ttl c' t)
  from redis_put_effect [OF assms 9(1)] obtain x
    where x: "set_effect view c now k v ttl x c'" "x" by auto
  from set_effect_live(2) [OF x(1) 9(3) x(2) 9(2)] show ?case by simp
next
  case (10 c now k v ttl b c')
  then show ?case using redis_put_effect [OF assms 10] by simp
next
  case (11 c now k v ttl r c' t)
  from redis_put_effect [OF assms 11(1)] obtain x
    where x: "set_effect view c now k v ttl x c'" by blast
  show ?case
  proof (cases x)
    case True
    from set_effect_live(2) [OF x 11(3) True 11(2)] 11(4) show ?thesis by simp
  next
    case False
    with set_effect_live(1) [OF x 11(3), of k] 11(5) show ?thesis by simp
  qed
next
  case (12 c now k v ttl r c' t k')
  from redis_put_effect [OF assms 12(1)] obtain x
    where x: "set_effect view c now k v ttl x c'" by blast
  show ?case by (rule set_effect_live(1) [OF x 12(2)]) (simp add: 12(3))
next
  case (13 c now k c' t)
  then show ?case using redis_del_effect(2) [OF assms 13] by simp
next
  case (14 c now k d c' t k')
  then show ?case using redis_del_effect(1) [OF assms 14(1,2)] by (simp add: redis_live_def)
qed simp_all

text \<open>What a poll can return: a value of more than one byte that the server has.\<close>

definition redis_source :: "('r \<Rightarrow> u64 \<Rightarrow> string \<Rightarrow> bytes option) \<Rightarrow> 'r \<Rightarrow> u64 \<Rightarrow> string \<Rightarrow> bytes \<Rightarrow> bool" where
  "redis_source view s t k w \<longleftrightarrow> 1 < length w \<and> view s t k = Some w"

lemma redis_poll_source:
  assumes "redis_documented R view" and "redis_poll R s now k = (PollDone (Ok w), s')"
  shows "redis_source view s now k w"
proof -
  obtain r where g: "conn_get R s now k = (r, s')"
    using assms(2) by (auto simp: redis_poll_def split: prod.splits outcome.splits option.splits)
  from redis_get_call(2) [OF assms(1) g] g assms(2) show ?thesis
    by (auto simp: redis_poll_def redis_source_def split: outcome.splits option.splits if_splits)
qed

lemma set_effect_source:
  assumes "set_effect view s now k' v ttl executed s'" and "no_overflow now ttl" and "now \<le> t"
    and "redis_source view s' t k w"
  shows "redis_source view s t k w \<or> k = k' \<and> w = v"
proof (cases "executed \<and> k = k'")
  case True
  with assms have "view s' t k = (if t < now + ttl then Some v else None)" by (auto simp: set_effect_def)
  with True assms(4) show ?thesis by (simp add: redis_source_def split: if_splits)
next
  case False
  with assms(1,3) have "view s' t k = view s t k" unfolding set_effect_def by metis
  with assms(4) show ?thesis by (simp add: redis_source_def)
qed

theorem redis_is_cacher_source:
  assumes "redis_documented R view"
  shows "cacher_source (redis_obtain R) (redis_poll R) (redis_set R) (redis_del R) (\<lambda>c now. c)
    (redis_live view) (\<lambda>v. 1 < length v) (\<lambda>_ _. True) (redis_source view)"
proof (rule cacher_source.intro [OF redis_is_cacher [OF assms]], unfold_locales, goal_cases)
  case (1 c t k w s)
  then show ?case using redis_view_before [OF assms, of c t k w s] by (simp add: redis_source_def)
next
  case (2 c now k w c')
  then show ?case by (rule redis_poll_source [OF assms])
next
  case (3 c now k' p c' t k w)
  then show ?case using redis_poll_effect(1) [OF assms 3(1)] by (simp add: redis_source_def)
next
  case (4 c now k' ttl r c' t k w)
  then show ?case using redis_obtain_effect [OF assms 4(1)] set_effect_source [OF _ 4(2,3,4)]
    by (fastforce simp: redis_source_def placeholder_def)
next
  case (5 c now k' v ttl r c' t k w)
  then show ?case using redis_put_effect [OF assms 5(1)] set_effect_source [OF _ 5(2,3,4)] by blast
next
  case (6 c now k' d c' t k w)
  then show ?case using redis_del_effect [OF assms 6(1,2)] by (cases "k = k'") (auto simp: redis_source_def)
qed simp

section \<open>An instance\<close>

text \<open>A server that keeps each value with its expiry time: the documented laws hold of it.\<close>

definition ref_view :: "(string \<rightharpoonup> bytes \<times> u64) \<Rightarrow> u64 \<Rightarrow> string \<Rightarrow> bytes option" where
  "ref_view s t k = (case s k of None \<Rightarrow> None | Some (v, e) \<Rightarrow> if t < e then Some v else None)"

definition ref_redis :: "(string \<rightharpoonup> bytes \<times> u64) redis_lib" where
  "ref_redis = \<lparr>pool_get = (\<lambda>s. Ok ()),
     set_with_options = (\<lambda>s now k v c ttl.
       if set_condition_holds c (ref_view s now k) then (Ok True, s(k \<mapsto> (v, now + ttl))) else (Ok False, s)),
     conn_get = (\<lambda>s now k. (Ok (ref_view s now k), s)),
     conn_del = (\<lambda>s now k. (Ok 1, s(k := None)))\<rparr>"

lemma ref_set_effect:
  "set_effect ref_view s now k v ttl (set_condition_holds c (ref_view s now k))
     (snd (set_with_options ref_redis s now k v c ttl))"
  by (simp add: set_effect_def ref_redis_def ref_view_def)

lemma ref_redis_documented: "redis_documented ref_redis ref_view"
  unfolding redis_documented_def
proof (intro conjI)
  show "redis_expiry_documented ref_view"
    by (fastforce simp: redis_expiry_documented_def ref_view_def split: option.splits if_splits)
  show "redis_set_documented ref_redis ref_view"
    unfolding redis_set_documented_def
  proof (intro allI impI)
    fix s now k v c ttl r s'
    assume a: "set_with_options ref_redis s now k v c ttl = (r, s')"
    then have "r = Ok (set_condition_holds c (ref_view s now k))"
      by (auto simp: ref_redis_def split: if_splits)
    with ref_set_effect [of s now k v ttl c] a
    show "\<exists>executed. set_effect ref_view s now k v ttl executed s' \<and>
        (executed \<longrightarrow> set_condition_holds c (ref_view s now k)) \<and>
        (\<forall>b. r = Ok b \<longrightarrow> executed = b \<and> b = set_condition_holds c (ref_view s now k))"
      by (intro exI [of _ "set_condition_holds c (ref_view s now k)"]) simp
  qed
  show "redis_get_documented ref_redis ref_view"
    by (auto simp: redis_get_documented_def ref_redis_def)
  show "redis_del_documented ref_redis ref_view"
    by (auto simp: redis_del_documented_def ref_redis_def ref_view_def)
qed

end
