(* ===== verification/Hybrid_Cache.thy ===== *)
theory Hybrid_Cache
  imports Memory_Cache Redis_Cache
begin

text \<open>
  \<open>HybridCacher\<close> and \<open>CacherEntry\<close> of \<open>src/idempotent-proxy-server/src/cache/mod.rs\<close>: the
  cache the handler uses, which passes every call to the in-memory cache or to Redis.
\<close>

section \<open>State\<close>

datatype 'r cacher_entry = Memory mem_cacher | Redis 'r

record 'r hybrid_cacher =
  poll_interval :: u64
  cache_ttl :: u64
  cache :: "'r cacher_entry"

definition hybrid_new :: "u64 \<Rightarrow> u64 \<Rightarrow> 'r cacher_entry \<Rightarrow> 'r hybrid_cacher" where
  "hybrid_new interval ttl entry = \<lparr>poll_interval = interval, cache_ttl = ttl, cache = entry\<rparr>"

section \<open>Operations\<close>

definition hybrid_obtain :: "'r redis_lib \<Rightarrow> 'r hybrid_cacher \<Rightarrow> u64 \<Rightarrow> string \<Rightarrow> u64
    \<Rightarrow> (bool, string) outcome \<times> 'r hybrid_cacher" where
  "hybrid_obtain R h now key ttl =
     (case cache h of
        Memory m \<Rightarrow> (case mem_obtain m now key ttl of (x, m') \<Rightarrow> (x, h\<lparr>cache := Memory m'\<rparr>))
      | Redis r \<Rightarrow> (case redis_obtain R r now key ttl of (x, r') \<Rightarrow> (x, h\<lparr>cache := Redis r'\<rparr>)))"

definition hybrid_set :: "'r redis_lib \<Rightarrow> 'r hybrid_cacher \<Rightarrow> u64 \<Rightarrow> string \<Rightarrow> bytes \<Rightarrow> u64
    \<Rightarrow> (bool, string) outcome \<times> 'r hybrid_cacher" where
  "hybrid_set R h now key val ttl =
     (case cache h of
        Memory m \<Rightarrow> (case mem_set m now key val ttl of (x, m') \<Rightarrow> (x, h\<lparr>cache := Memory m'\<rparr>))
      | Redis r \<Rightarrow> (case redis_set R r now key val ttl of (x, r') \<Rightarrow> (x, h\<lparr>cache := Redis r'\<rparr>)))"

definition hybrid_del :: "'r redis_lib \<Rightarrow> 'r hybrid_cacher \<Rightarrow> u64 \<Rightarrow> string
    \<Rightarrow> (unit, string) outcome \<times> 'r hybrid_cacher" where
  "hybrid_del R h now key =
     (case cache h of
        Memory m \<Rightarrow> (case mem_del m key of (x, m') \<Rightarrow> (x, h\<lparr>cache := Memory m'\<rparr>))
      | Redis r \<Rightarrow> (case redis_del R r now key of (x, r') \<Rightarrow> (x, h\<lparr>cache := Redis r'\<rparr>)))"

text \<open>
  \<open>polling_get\<close>: what the other tasks do in the sleeps is given for either kind of cache. The
  same loop round by round: \<open>hybrid_poll_start\<close> is what happens before the first round (Redis
  takes a pooled connection), \<open>hybrid_poll\<close> one round.
\<close>

record 'r others =
  others_mem :: "nat \<Rightarrow> mem_cacher \<Rightarrow> mem_cacher"
  others_redis :: "nat \<Rightarrow> 'r \<Rightarrow> 'r"

definition hybrid_polling_get :: "'r redis_lib \<Rightarrow> (nat \<Rightarrow> u64) \<Rightarrow> 'r others \<Rightarrow> 'r hybrid_cacher \<Rightarrow> string \<Rightarrow> nat
    \<Rightarrow> (bytes, string) outcome \<times> 'r hybrid_cacher" where
  "hybrid_polling_get R clk o1 h key counter =
     (case cache h of
        Memory m \<Rightarrow> (case mem_polling_get clk (others_mem o1) m key counter of
          (x, m') \<Rightarrow> (x, h\<lparr>cache := Memory m'\<rparr>))
      | Redis r \<Rightarrow> (case redis_polling_get R clk (others_redis o1) r key counter of
          (x, r') \<Rightarrow> (x, h\<lparr>cache := Redis r'\<rparr>)))"

definition hybrid_poll_start :: "'r redis_lib \<Rightarrow> 'r hybrid_cacher \<Rightarrow> (unit, string) outcome" where
  "hybrid_poll_start R h = (case cache h of Memory m \<Rightarrow> Ok () | Redis r \<Rightarrow> pool_get R r)"

definition hybrid_poll :: "'r redis_lib \<Rightarrow> 'r hybrid_cacher \<Rightarrow> u64 \<Rightarrow> string \<Rightarrow> polled \<times> 'r hybrid_cacher" where
  "hybrid_poll R h now key =
     (case cache h of
        Memory m \<Rightarrow> (case mem_poll m now key of (x, m') \<Rightarrow> (x, h\<lparr>cache := Memory m'\<rparr>))
      | Redis r \<Rightarrow> (case redis_poll R r now key of (x, r') \<Rightarrow> (x, h\<lparr>cache := Redis r'\<rparr>)))"

definition hybrid_others :: "'r others \<Rightarrow> nat \<Rightarrow> 'r hybrid_cacher \<Rightarrow> 'r hybrid_cacher" where
  "hybrid_others o1 n h =
     h\<lparr>cache := (case cache h of Memory m \<Rightarrow> Memory (others_mem o1 n m)
                             | Redis r \<Rightarrow> Redis (others_redis o1 n r))\<rparr>"

fun hybrid_rounds :: "'r redis_lib \<Rightarrow> (nat \<Rightarrow> u64) \<Rightarrow> 'r others \<Rightarrow> 'r hybrid_cacher \<Rightarrow> string \<Rightarrow> nat
    \<Rightarrow> (bytes, string) outcome \<times> 'r hybrid_cacher" where
  "hybrid_rounds R clk o1 h key 0 = (Err ''polling get cache timeout'', h)"
| "hybrid_rounds R clk o1 h key (Suc n) =
     (case hybrid_poll R h (clk (Suc n)) key of
        (PollDone r, h') \<Rightarrow> (r, h')
      | (PollAgain, h') \<Rightarrow> hybrid_rounds R clk o1 (hybrid_others o1 (Suc n) h') key n)"

text \<open>A clean-up task of the in-memory cache running at some moment.\<close>

definition hybrid_bg :: "'r hybrid_cacher \<Rightarrow> u64 \<Rightarrow> 'r hybrid_cacher" where
  "hybrid_bg h now = (case cache h of Memory m \<Rightarrow> h\<lparr>cache := Memory (run_clean m now)\<rparr> | Redis r \<Rightarrow> h)"

text \<open>
  An operation of the in-memory cache that is dropped half-way. (A command to Redis is executed or not.)
\<close>

definition hybrid_obtain_cut :: "'r hybrid_cacher \<Rightarrow> u64 \<Rightarrow> string \<Rightarrow> u64 \<Rightarrow> 'r hybrid_cacher option" where
  "hybrid_obtain_cut h now key ttl =
     (case cache h of
        Memory m \<Rightarrow> map_option (\<lambda>m'. h\<lparr>cache := Memory m'\<rparr>) (mem_obtain_cut m now key ttl)
      | Redis r \<Rightarrow> None)"

definition hybrid_del_cut :: "'r hybrid_cacher \<Rightarrow> string \<Rightarrow> 'r hybrid_cacher option" where
  "hybrid_del_cut h key =
     (case cache h of
        Memory m \<Rightarrow> map_option (\<lambda>m'. h\<lparr>cache := Memory m'\<rparr>) (mem_del_cut m key)
      | Redis r \<Rightarrow> None)"

section \<open>The contract\<close>

definition hybrid_live :: "('r \<Rightarrow> u64 \<Rightarrow> string \<Rightarrow> bytes option) \<Rightarrow> 'r hybrid_cacher \<Rightarrow> u64 \<Rightarrow> string \<Rightarrow> cached option" where
  "hybrid_live view h now k = (case cache h of Memory m \<Rightarrow> mem_live m now k | Redis r \<Rightarrow> redis_live view r now k)"

definition hybrid_ok :: "string \<Rightarrow> 'r hybrid_cacher \<Rightarrow> bool" where
  "hybrid_ok k h = (case cache h of Memory m \<Rightarrow> mem_tidy k m | Redis r \<Rightarrow> True)"

lemmas hybrid_defs = hybrid_obtain_def hybrid_set_def hybrid_del_def hybrid_poll_def hybrid_bg_def
  hybrid_live_def hybrid_ok_def

lemma hybrid_memory_rounds:
  "cache h = Memory m \<Longrightarrow> hybrid_rounds R clk o1 h key n =
     (case mem_polling_get clk (others_mem o1) m key n of (x, m') \<Rightarrow> (x, h\<lparr>cache := Memory m'\<rparr>))"
proof (induction n arbitrary: h m)
  case 0
  then show ?case by simp
next
  case (Suc n)
  obtain p m' where p: "mem_poll m (clk (Suc n)) key = (p, m')" by fastforce
  with Suc show ?case by (cases p) (simp_all add: hybrid_poll_def hybrid_others_def)
qed

lemma hybrid_redis_rounds:
  "cache h = Redis r \<Longrightarrow> hybrid_rounds R clk o1 h key n =
     (case redis_poll_loop R clk (others_redis o1) r key n of (x, r') \<Rightarrow> (x, h\<lparr>cache := Redis r'\<rparr>))"
proof (induction n arbitrary: h r)
  case 0
  then show ?case by simp
next
  case (Suc n)
  obtain p r' where p: "redis_poll R r (clk (Suc n)) key = (p, r')" by fastforce
  with Suc show ?case by (cases p) (simp_all add: hybrid_poll_def hybrid_others_def)
qed

lemma hybrid_polling_rounds:
  "hybrid_polling_get R clk o1 h key n =
     (case hybrid_poll_start R h of
        Ok _ \<Rightarrow> hybrid_rounds R clk o1 h key n
      | Err e \<Rightarrow> (Err e, h)
      | Panic m \<Rightarrow> (Panic m, h))"
proof (cases "cache h")
  case (Memory m)
  then show ?thesis
    by (simp add: hybrid_polling_get_def hybrid_poll_start_def hybrid_memory_rounds)
next
  case (Redis r)
  then show ?thesis
    by (cases "pool_get R r")
      (simp_all add: hybrid_polling_get_def hybrid_poll_start_def redis_polling_get_def hybrid_redis_rounds)
qed

text \<open>A call of the hybrid cache is a call of the cache it wraps, of the same kind afterwards.\<close>

lemma hybrid_obtain_cases:
  assumes "hybrid_obtain R h now k ttl = (r, h')"
  obtains m m' where "cache h = Memory m" "cache h' = Memory m'" "mem_obtain m now k ttl = (r, m')"
    | s s' where "cache h = Redis s" "cache h' = Redis s'" "redis_obtain R s now k ttl = (r, s')"
  using assms
  by (cases "cache h") (auto simp: hybrid_obtain_def mem_delete_def split: prod.splits)

lemma hybrid_set_cases:
  assumes "hybrid_set R h now k v ttl = (r, h')"
  obtains m m' where "cache h = Memory m" "cache h' = Memory m'" "mem_set m now k v ttl = (r, m')"
    | s s' where "cache h = Redis s" "cache h' = Redis s'" "redis_set R s now k v ttl = (r, s')"
  using assms
  by (cases "cache h") (auto simp: hybrid_set_def mem_delete_def split: prod.splits)

lemma hybrid_del_cases:
  assumes "hybrid_del R h now k = (d, h')"
  obtains m m' where "cache h = Memory m" "cache h' = Memory m'" "mem_delete m now k = (d, m')"
    | s s' where "cache h = Redis s" "cache h' = Redis s'" "redis_del R s now k = (d, s')"
  using assms
  by (cases "cache h") (auto simp: hybrid_del_def mem_delete_def split: prod.splits)

lemma hybrid_poll_cases:
  assumes "hybrid_poll R h now k = (p, h')"
  obtains m m' where "cache h = Memory m" "cache h' = Memory m'" "mem_poll m now k = (p, m')"
    | s s' where "cache h = Redis s" "cache h' = Redis s'" "redis_poll R s now k = (p, s')"
  using assms
  by (cases "cache h") (auto simp: hybrid_poll_def mem_delete_def split: prod.splits)

lemma hybrid_live_simps [simp]:
  "cache h = Memory m \<Longrightarrow> hybrid_live view h t k = mem_live m t k"
  "cache h = Redis r \<Longrightarrow> hybrid_live view h t k = redis_live view r t k"
  by (simp_all add: hybrid_live_def)

lemma hybrid_ok_simps [simp]:
  "cache h = Memory m \<Longrightarrow> hybrid_ok k h = mem_tidy k m"
  "cache h = Redis r \<Longrightarrow> hybrid_ok k h = True"
  by (simp_all add: hybrid_ok_def)

theorem hybrid_is_cacher:
  assumes "redis_documented R view"
  shows "cacher (hybrid_obtain R) (hybrid_poll R) (hybrid_set R) (hybrid_del R) hybrid_bg
    (hybrid_live view) (\<lambda>v. 1 < length v) hybrid_ok"
proof (unfold_locales, goal_cases)
  case (1 c t k s)
  show ?case
  proof (cases "cache c")
    case (Memory m)
    with 1 mem.live_antimono [of m t k s] show ?thesis by simp
  next
    case (Redis r)
    with 1 redis_view_antimono [OF assms, of r t k s] show ?thesis by simp
  qed
next
  case (2 c now k ttl b c')
  from 2 show ?case
  proof (cases rule: hybrid_obtain_cases)
    case (1 m m')
    from mem.obt_Ok [OF 1(3)] 1(1,2) show ?thesis by simp
  next
    case (2 s s')
    from cacher.obt_Ok [OF redis_is_cacher [OF assms] 2(3)] 2(1,2) show ?thesis by simp
  qed
next
  case (3 c now k ttl c' t)
  from 3(1) show ?case
  proof (cases rule: hybrid_obtain_cases)
    case (1 m m')
    from mem.obt_True [OF 1(3) 3(2) 3(3)] 1(1,2) show ?thesis by simp
  next
    case (2 s s')
    from cacher.obt_True [OF redis_is_cacher [OF assms] 2(3) 3(2) 3(3)] 2(1,2) show ?thesis by simp
  qed
next
  case (4 c now k ttl r c' t k')
  from 4(1) show ?case
  proof (cases rule: hybrid_obtain_cases)
    case (1 m m')
    with mem.obt_keeps [OF 1(3) 4(2), of k'] 4(3) show ?thesis by simp
  next
    case (2 s s')
    with cacher.obt_keeps [OF redis_is_cacher [OF assms] 2(3) 4(2), of k'] 4(3) show ?thesis by simp
  qed
next
  case (5 c now k ttl r c' t k')
  from 5(1) show ?case
  proof (cases rule: hybrid_obtain_cases)
    case (1 m m')
    from mem.obt_other [OF 1(3) 5(2) 5(3)] 1(1,2) show ?thesis by simp
  next
    case (2 s s')
    from cacher.obt_other [OF redis_is_cacher [OF assms] 2(3) 5(2) 5(3)] 2(1,2) show ?thesis by simp
  qed
next
  case (6 c now k p c' t k')
  from 6 show ?case
  proof (cases rule: hybrid_poll_cases)
    case (1 m m')
    from mem.pol_live [OF 1(3)] 1(1,2) show ?thesis by simp
  next
    case (2 s s')
    from cacher.pol_live [OF redis_is_cacher [OF assms] 2(3)] 2(1,2) show ?thesis by simp
  qed
next
  case (7 c now k p c' v)
  from 7(1) show ?case
  proof (cases rule: hybrid_poll_cases)
    case (1 m m')
    with mem.pol_Ready [OF 1(3), of v] 7(2) show ?thesis by simp
  next
    case (2 s s')
    with cacher.pol_Ready [OF redis_is_cacher [OF assms] 2(3), of v] 7(2) show ?thesis by simp
  qed
next
  case (8 c now k p c')
  from 8(1) show ?case
  proof (cases rule: hybrid_poll_cases)
    case (1 m m')
    with mem.pol_Pending [OF 1(3)] 8(2) show ?thesis by simp
  next
    case (2 s s')
    with cacher.pol_Pending [OF redis_is_cacher [OF assms] 2(3)] 8(2) show ?thesis by simp
  qed
next
  case (9 c now k v ttl c' t)
  from 9(1) show ?case
  proof (cases rule: hybrid_set_cases)
    case (1 m m')
    from mem.put_True [OF 1(3) 9(2,3)] 1(1,2) show ?thesis by (auto split: if_splits)
  next
    case (2 s s')
    from cacher.put_True [OF redis_is_cacher [OF assms] 2(3) 9(2,3)] 2(1,2) show ?thesis
      by (auto split: if_splits)
  qed
next
  case (10 c now k v ttl b c')
  from 10 show ?case
  proof (cases rule: hybrid_set_cases)
    case (1 m m')
    from mem.put_Ok [OF 1(3)] 1(1,2) show ?thesis by simp
  next
    case (2 s s')
    from cacher.put_Ok [OF redis_is_cacher [OF assms] 2(3)] 2(1,2) show ?thesis by simp
  qed
next
  case (11 c now k v ttl r c' t)
  from 11(1) show ?case
  proof (cases rule: hybrid_set_cases)
    case (1 m m')
    with mem.put_keeps [OF 1(3) 11(2,3,4)] 11(5) show ?thesis by simp
  next
    case (2 s s')
    with cacher.put_keeps [OF redis_is_cacher [OF assms] 2(3) 11(2,3,4)] 11(5) show ?thesis by simp
  qed
next
  case (12 c now k v ttl r c' t k')
  from 12(1) show ?case
  proof (cases rule: hybrid_set_cases)
    case (1 m m')
    from mem.put_other [OF 1(3) 12(2) 12(3)] 1(1,2) show ?thesis by simp
  next
    case (2 s s')
    from cacher.put_other [OF redis_is_cacher [OF assms] 2(3) 12(2) 12(3)] 2(1,2) show ?thesis by simp
  qed
next
  case (13 c now k c' t)
  from 13(1) show ?case
  proof (cases rule: hybrid_del_cases)
    case (1 m m')
    from mem.del_Ok [OF 1(3) 13(2)] 1(1,2) show ?thesis by simp
  next
    case (2 s s')
    from cacher.del_Ok [OF redis_is_cacher [OF assms] 2(3) 13(2)] 2(1,2) show ?thesis by simp
  qed
next
  case (14 c now k d c' t k')
  from 14(1) show ?case
  proof (cases rule: hybrid_del_cases)
    case (1 m m')
    from mem.del_other [OF 1(3) 14(2) 14(3)] 1(1,2) show ?thesis by simp
  next
    case (2 s s')
    from cacher.del_other [OF redis_is_cacher [OF assms] 2(3) 14(2) 14(3)] 2(1,2) show ?thesis by simp
  qed
next
  case (15 k c now t)
  then show ?case by (cases "cache c") (simp_all add: hybrid_bg_def mem.bg_live)
next
  case 16
  from 16(2,1) show ?case by (cases rule: hybrid_obtain_cases) (auto dest: mem_tidy_obtain)
next
  case 17
  from 17(2,1) show ?case by (cases rule: hybrid_poll_cases) (auto dest: mem_tidy_poll)
next
  case 18
  from 18(2,1,3) show ?case by (cases rule: hybrid_set_cases) (auto dest: mem_tidy_set)
next
  case 19
  from 19(2,1) show ?case by (cases rule: hybrid_del_cases) (auto dest: mem_tidy_del)
next
  case (20 k c now)
  then show ?case by (cases "cache c") (simp_all add: hybrid_bg_def mem_tidy_clean)
qed

definition hybrid_source :: "('r \<Rightarrow> u64 \<Rightarrow> string \<Rightarrow> bytes option) \<Rightarrow> 'r hybrid_cacher \<Rightarrow> u64 \<Rightarrow> string \<Rightarrow> bytes \<Rightarrow> bool" where
  "hybrid_source view h t k w =
     (case cache h of Memory m \<Rightarrow> mem_source m t k w | Redis r \<Rightarrow> redis_source view r t k w)"

lemma hybrid_source_simps [simp]:
  "cache h = Memory m \<Longrightarrow> hybrid_source view h t k w = mem_source m t k w"
  "cache h = Redis r \<Longrightarrow> hybrid_source view h t k w = redis_source view r t k w"
  by (simp_all add: hybrid_source_def)

theorem hybrid_is_cacher_source:
  assumes "redis_documented R view"
  shows "cacher_source (hybrid_obtain R) (hybrid_poll R) (hybrid_set R) (hybrid_del R) hybrid_bg
    (hybrid_live view) (\<lambda>v. 1 < length v) hybrid_ok (hybrid_source view)"
proof (rule cacher_source.intro [OF hybrid_is_cacher [OF assms]], unfold_locales, goal_cases)
  note R = redis_is_cacher_source [OF assms]
  {
    case (1 c t k w s)
    then show ?case
      using mem_src.source_antimono [of _ t k w s] cacher_source.source_antimono [OF R, of _ t k w s]
      by (cases "cache c") auto
  next
    case (2 c now k w c')
    from 2 show ?case
      using mem_src.pol_source [of _ now k w] cacher_source.pol_source [OF R, of _ now k w]
      by (cases rule: hybrid_poll_cases) auto
  next
    case (3 c now k' p c' t k w)
    from 3 show ?case
      using mem_src.pol_adds [of _ now k' p _ t k w] cacher_source.pol_adds [OF R, of _ now k' p _ t k w]
      by (elim hybrid_poll_cases) auto
  next
    case (4 c now k' ttl r c' t k w)
    from 4 show ?case
      using mem_src.obt_adds [of _ now k' ttl r _ t k w] cacher_source.obt_adds [OF R, of _ now k' ttl r _ t k w]
      by (elim hybrid_obtain_cases) auto
  next
    case (5 c now k' v ttl r c' t k w)
    from 5 show ?case
      using mem_src.put_adds [of _ now k' v ttl r _ t k w] cacher_source.put_adds [OF R, of _ now k' v ttl r _ t k w]
      by (elim hybrid_set_cases) auto
  next
    case (6 c now k' d c' t k w)
    from 6 show ?case
      using mem_src.del_adds [of _ now k' d _ t k w] cacher_source.del_adds [OF R, of _ now k' d _ t k w]
      by (elim hybrid_del_cases) auto
  next
    case (7 c now t k w)
    then show ?case
      using mem_src.bg_adds [of _ now t k w] by (cases "cache c") (auto simp: hybrid_bg_def)
  }
qed

lemma hybrid_obtain_cut_Some:
  "hybrid_obtain_cut h now k ttl = Some h' \<longleftrightarrow>
     (\<exists>m m'. cache h = Memory m \<and> mem_obtain_cut m now k ttl = Some m' \<and> h' = h\<lparr>cache := Memory m'\<rparr>)"
  by (cases "cache h") (auto simp: hybrid_obtain_cut_def)

lemma hybrid_del_cut_Some:
  "hybrid_del_cut h k = Some h' \<longleftrightarrow>
     (\<exists>m m'. cache h = Memory m \<and> mem_del_cut m k = Some m' \<and> h' = h\<lparr>cache := Memory m'\<rparr>)"
  by (cases "cache h") (auto simp: hybrid_del_cut_def)

theorem hybrid_is_cacher_cut:
  assumes "redis_documented R view"
  shows "cacher_cut (hybrid_obtain R) (hybrid_poll R) (hybrid_set R) (hybrid_del R) hybrid_bg
    (hybrid_live view) (\<lambda>v. 1 < length v) hybrid_ok (hybrid_source view) hybrid_obtain_cut hybrid_del_cut"
  by (rule cacher_cut.intro [OF hybrid_is_cacher_source [OF assms]], unfold_locales)
    (auto simp: hybrid_obtain_cut_Some hybrid_del_cut_Some mem_cut.obt_cut_free mem_cut.obt_cut_other
      mem_cut.del_cut_other mem_cut.del_cut_invar mem_cut.obt_cut_invar
      dest: mem_cut.obt_cut_adds mem_cut.del_cut_adds)

section \<open>Properties\<close>

text \<open>
  C29: The two caches are interchangeable: given Redis's documentation, Redis and the enum that
chooses between Redis and the in-memory cache satisfy the same contract as the in-memory cache
(what an \<open>obtain\<close>, a polling round, a \<open>set\<close> and a \<open>del\<close> do to the live entries, and when).
\<close>

theorem caches_meet_the_contract:
  assumes "redis_documented R view"
  shows "cacher (redis_obtain R) (redis_poll R) (redis_set R) (redis_del R) (\<lambda>c now. c)
      (redis_live view) (\<lambda>v. 1 < length v) (\<lambda>_ _. True) \<and>
    cacher (hybrid_obtain R) (hybrid_poll R) (hybrid_set R) (hybrid_del R) hybrid_bg
      (hybrid_live view) (\<lambda>v. 1 < length v) hybrid_ok"
  using redis_is_cacher [OF assms] hybrid_is_cacher [OF assms] by blast

theorem caches_meet_the_contract_witness:
  "cacher (redis_obtain ref_redis) (redis_poll ref_redis) (redis_set ref_redis) (redis_del ref_redis) (\<lambda>c now. c)
      (redis_live ref_view) (\<lambda>v. 1 < length v) (\<lambda>_ _. True) \<and>
    cacher (hybrid_obtain ref_redis) (hybrid_poll ref_redis) (hybrid_set ref_redis) (hybrid_del ref_redis) hybrid_bg
      (hybrid_live ref_view) (\<lambda>v. 1 < length v) hybrid_ok"
  by (rule caches_meet_the_contract [OF ref_redis_documented])

text \<open>
  The loop of \<open>polling_get\<close>, of either cache, is its rounds one by one: whatever other tasks do in
the sleeps between them, running the rounds separately gives the loop's result and cache.
\<close>

theorem polling_get_is_its_rounds:
  "hybrid_polling_get R clk o1 h key n =
     (case hybrid_poll_start R h of
        Ok _ \<Rightarrow> hybrid_rounds R clk o1 h key n
      | Err e \<Rightarrow> (Err e, h)
      | Panic m \<Rightarrow> (Panic m, h))"
  by (rule hybrid_polling_rounds)

end
