(* ===== verification/Http_Types.thy ===== *)
theory Http_Types
  imports Prelude "HOL-Library.Multiset"
begin

text \<open>
  What the sources call of the HTTP crates (\<open>http\<close>, \<open>axum\<close>, \<open>reqwest\<close>), as parameters: header
  maps of type \<open>'h\<close> with header values of type \<open>'v\<close>, and URLs of type \<open>'u\<close>. Header names are
  strings (the crates store them in lower case). The laws the properties need are the crates'
  documentation, stated as predicates over these parameters.
\<close>

section \<open>Header maps, header values, status codes\<close>

record ('h, 'v) http_lib =
  hm_iter :: "'h \<Rightarrow> (string \<times> 'v) list"
  hm_get :: "'h \<Rightarrow> string \<Rightarrow> 'v option"
  hm_get_all :: "'h \<Rightarrow> string \<Rightarrow> 'v list"
  hm_remove :: "string \<Rightarrow> 'h \<Rightarrow> 'h"
  hm_map_values :: "('v \<Rightarrow> 'v) \<Rightarrow> 'h \<Rightarrow> 'h"
  hm_new :: 'h
  hm_append :: "'h \<Rightarrow> string \<Rightarrow> 'v \<Rightarrow> 'h"
  hm_insert :: "'h \<Rightarrow> string \<Rightarrow> 'v \<Rightarrow> 'h"
  hv_to_str :: "'v \<Rightarrow> string option"
  hv_from_bytes :: "bytes \<Rightarrow> 'v option"
  hv_from_usize :: "nat \<Rightarrow> 'v"
  header_name_from_bytes :: "bytes \<Rightarrow> string option"
  status_from_u16 :: "u16 \<Rightarrow> u16 option"
  method_is_safe :: "string \<Rightarrow> bool"

text \<open>The values of one name among pairs, in their order.\<close>

definition values_of :: "string \<Rightarrow> (string \<times> 'v) list \<Rightarrow> 'v list" where
  "values_of k xs = map snd (filter (\<lambda>x. fst x = k) xs)"

lemma values_of_simps [simp]:
  "values_of k [] = []"
  "values_of k (x # xs) = (if fst x = k then snd x # values_of k xs else values_of k xs)"
  "values_of k (xs @ ys) = values_of k xs @ values_of k ys"
  by (simp_all add: values_of_def)

text \<open>
  Documented behaviour of \<open>HeaderMap\<close>, a multimap: \<open>get_all\<close> visits the values of a name in the order they
  were inserted, and \<open>get\<close> gives the first of them; \<open>iter\<close> visits each value once, in an arbitrary order;
  \<open>remove\<close> removes all values of a name; \<open>values_mut\<close> visits every value once, in its place.
\<close>

definition header_map_documented :: "('h, 'v) http_lib \<Rightarrow> bool" where
  "header_map_documented H \<longleftrightarrow>
     (\<forall>h k. hm_get H h k = (case hm_get_all H h k of [] \<Rightarrow> None | v # vs \<Rightarrow> Some v)) \<and>
     (\<forall>h k. mset (values_of k (hm_iter H h)) = mset (hm_get_all H h k)) \<and>
     (\<forall>h j k. hm_get_all H (hm_remove H j h) k = (if k = j then [] else hm_get_all H h k)) \<and>
     (\<forall>h f k. hm_get_all H (hm_map_values H f h) k = map f (hm_get_all H h k))"

text \<open>
  Documented behaviour of names and values: a name in a map is a valid name, and a value that
  \<open>to_str\<close> shows as text is rebuilt by \<open>from_bytes\<close> from that text.
\<close>

definition header_text_documented :: "('h, 'v) http_lib \<Rightarrow> bool" where
  "header_text_documented H \<longleftrightarrow>
     (\<forall>h k v. (k, v) \<in> set (hm_iter H h) \<longrightarrow> header_name_from_bytes H k = Some k) \<and>
     (\<forall>v s. hv_to_str H v = Some s \<longrightarrow> hv_from_bytes H s \<noteq> None) \<and>
     hv_from_bytes H ''text/plain'' \<noteq> None"

section \<open>Names\<close>

text \<open>The headers of \<open>src/idempotent-proxy-types/src/lib.rs\<close>, and those of \<open>http::header\<close>.\<close>

definition HEADER_PROXY_AUTHORIZATION :: string where
  "HEADER_PROXY_AUTHORIZATION = ''proxy-authorization''"

definition HEADER_X_FORWARDED_FOR :: string where
  "HEADER_X_FORWARDED_FOR = ''x-forwarded-for''"

definition HEADER_X_FORWARDED_HOST :: string where
  "HEADER_X_FORWARDED_HOST = ''x-forwarded-host''"

definition HEADER_X_FORWARDED_PROTO :: string where
  "HEADER_X_FORWARDED_PROTO = ''x-forwarded-proto''"

definition HEADER_IDEMPOTENCY_KEY :: string where
  "HEADER_IDEMPOTENCY_KEY = ''idempotency-key''"

definition HEADER_X_JSON_MASK :: string where
  "HEADER_X_JSON_MASK = ''x-json-mask''"

definition HEADER_RESPONSE_HEADERS :: string where
  "HEADER_RESPONSE_HEADERS = ''response-headers''"

abbreviation HOST :: string where
  "HOST \<equiv> ''host''"

abbreviation FORWARDED :: string where
  "FORWARDED \<equiv> ''forwarded''"

section \<open>Laws in rewriting form\<close>

lemma hm_get_all_remove:
  "header_map_documented H \<Longrightarrow> hm_get_all H (hm_remove H j h) k = (if k = j then [] else hm_get_all H h k)"
  by (simp add: header_map_documented_def)

lemma hm_get_all_map_values:
  "header_map_documented H \<Longrightarrow> hm_get_all H (hm_map_values H f h) k = map f (hm_get_all H h k)"
  by (simp add: header_map_documented_def)

lemma header_name_valid:
  "header_text_documented H \<Longrightarrow> (k, v) \<in> set (hm_iter H h) \<Longrightarrow> header_name_from_bytes H k = Some k"
  by (auto simp: header_text_documented_def)

lemma header_value_valid:
  "header_text_documented H \<Longrightarrow> hv_to_str H v = Some s \<Longrightarrow> \<exists>w. hv_from_bytes H s = Some w"
  by (auto simp: header_text_documented_def)

lemma header_plain_valid:
  "header_text_documented H \<Longrightarrow> \<exists>w. hv_from_bytes H ''text/plain'' = Some w"
  by (auto simp: header_text_documented_def)

section \<open>An instance\<close>

text \<open>
  A list of name and value pairs, with the values as text: an instance on which the laws hold,
  for the witnesses of the properties that assume them.
\<close>

definition list_http :: "((string \<times> string) list, string) http_lib" where
  "list_http = \<lparr>hm_iter = filter (\<lambda>x. fst x \<noteq> []), hm_get = (\<lambda>h. map_of (filter (\<lambda>x. fst x \<noteq> []) h)),
     hm_get_all = (\<lambda>h k. values_of k (filter (\<lambda>x. fst x \<noteq> []) h)), hm_remove = (\<lambda>k. filter (\<lambda>x. fst x \<noteq> k)), hm_map_values = (\<lambda>f. map (\<lambda>x. (fst x, f (snd x)))),
     hm_new = [], hm_append = (\<lambda>h k v. h @ [(k, v)]),
     hm_insert = (\<lambda>h k v. filter (\<lambda>x. fst x \<noteq> k) h @ [(k, v)]),
     hv_to_str = Some, hv_from_bytes = Some, hv_from_usize = (\<lambda>n. replicate n CHR ''i''),
     header_name_from_bytes = (\<lambda>k. if k = [] then None else Some k),
     status_from_u16 = (\<lambda>c. if 100 \<le> c \<and> c < 1000 then Some c else None),
     method_is_safe = (\<lambda>m. m = ''GET'' \<or> m = ''HEAD'' \<or> m = ''OPTIONS'' \<or> m = ''TRACE'')\<rparr>"

lemma values_of_filter: "values_of k (filter (\<lambda>x. P (fst x)) xs) = (if P k then values_of k xs else [])"
  by (induction xs) auto

lemma values_of_map: "values_of k (map (\<lambda>x. (fst x, f (snd x))) xs) = map f (values_of k xs)"
  by (induction xs) auto

lemma map_of_values: "map_of xs k = (case values_of k xs of [] \<Rightarrow> None | v # vs \<Rightarrow> Some v)"
  by (induction xs) auto

lemma list_http_documented: "header_map_documented list_http"
proof -
  have "values_of k (filter (\<lambda>x. fst x \<noteq> []) (filter (\<lambda>x. fst x \<noteq> j) h)) =
      (if k = j then [] else values_of k (filter (\<lambda>x. fst x \<noteq> []) h))" for h :: "(string \<times> string) list" and j k
    using values_of_filter [of k "\<lambda>n. n \<noteq> j \<and> n \<noteq> []" h] values_of_filter [of k "\<lambda>n. n \<noteq> []" h]
    by (simp add: conj_commute)
  moreover have "values_of k (filter (\<lambda>x. fst x \<noteq> []) (map (\<lambda>x. (fst x, f (snd x))) h)) =
      map f (values_of k (filter (\<lambda>x. fst x \<noteq> []) h))" for h :: "(string \<times> string) list" and f :: "string \<Rightarrow> string" and k
    using values_of_filter [of k "\<lambda>n. n \<noteq> []" h] values_of_filter [of k "\<lambda>n. n \<noteq> []" "map (\<lambda>x. (fst x, f (snd x))) h"]
    by (simp add: values_of_map)
  ultimately show ?thesis by (simp add: header_map_documented_def list_http_def map_of_values)
qed

lemma list_http_text_documented: "header_text_documented list_http"
  by (auto simp: header_text_documented_def list_http_def)

end
