(* ===== verification/Response.thy ===== *)
theory Response
  imports Http_Types
begin

text \<open>
  \<open>ResponseData\<close> and \<open>split_filtering\<close> of \<open>src/idempotent-proxy-server/src/cache/mod.rs\<close>: the
  response kept in the cache, with the headers and the body reduced to what the client asked for.
  The JSON and CBOR libraries are parameters.
\<close>

section \<open>Data\<close>

record response_data =
  rd_status :: u16
  rd_headers :: "(string \<times> string) list"
  rd_body :: bytes
  rd_mime :: string

text \<open>
  JSON values \<open>'j\<close> and maps \<open>'m\<close> of \<open>serde_json\<close>, CBOR values \<open>'c\<close> of \<open>ciborium\<close>, and the derived
  CBOR encoding of \<open>ResponseData\<close>. Errors are given as their texts, which is what the code keeps
  of them (\<open>err_string\<close>).
\<close>

record ('j, 'm, 'c) codec_lib =
  json_from_slice :: "bytes \<Rightarrow> ('j, string) outcome"
  json_get :: "'j \<Rightarrow> string \<Rightarrow> 'j option"
  json_map_new :: 'm
  json_map_insert :: "'m \<Rightarrow> string \<Rightarrow> 'j \<Rightarrow> 'm"
  json_map_to_vec :: "'m \<Rightarrow> (bytes, string) outcome"
  cbor_from_reader :: "bytes \<Rightarrow> ('c, string) outcome"
  cbor_into_map :: "'c \<Rightarrow> ('c \<times> 'c) list option"
  cbor_as_text :: "'c \<Rightarrow> string option"
  cbor_map :: "('c \<times> 'c) list \<Rightarrow> 'c"
  cbor_into_writer :: "'c \<Rightarrow> (bytes, string) outcome"
  response_encode :: "response_data \<Rightarrow> (bytes, string) outcome"
  response_decode :: "bytes \<Rightarrow> (response_data, string) outcome"

definition err_string :: "string \<Rightarrow> string" where
  "err_string err = err"

section \<open>Operations\<close>

definition response_new :: "u16 \<Rightarrow> response_data" where
  "response_new status = \<lparr>rd_status = status, rd_headers = [], rd_body = [], rd_mime = ''text/plain''\<rparr>"

definition response_default :: response_data where
  "response_default = response_new 200"

definition split_filtering :: "string \<Rightarrow> string list" where
  "split_filtering filtering = filter (\<lambda>s. s \<noteq> []) (map trim (split_char CHR '','' filtering))"

text \<open>One iteration of the loop over the upstream's headers, and the loop.\<close>

definition take_header :: "('h, 'v) http_lib \<Rightarrow> string list \<Rightarrow> string \<times> 'v \<Rightarrow> response_data \<Rightarrow> response_data" where
  "take_header H filtering kv rd =
     (case kv of (k, v) \<Rightarrow>
        (case hv_to_str H v of
           None \<Rightarrow> rd
         | Some s \<Rightarrow>
             if k = ''content-type'' then rd\<lparr>rd_mime := s\<rparr>
             else if k = ''content-length'' \<or> k = ''transfer-encoding'' then rd
             else if filtering = [] \<or> k \<in> set filtering
               then rd\<lparr>rd_headers := rd_headers rd @ [(k, s)]\<rparr>
             else rd))"

definition with_headers :: "('h, 'v) http_lib \<Rightarrow> response_data \<Rightarrow> 'h \<Rightarrow> string \<Rightarrow> response_data" where
  "with_headers H rd hm filtering =
     fold (take_header H (split_filtering (to_ascii_lowercase filtering))) (hm_iter H hm) rd"

definition json_mask :: "('j, 'm, 'c) codec_lib \<Rightarrow> 'j \<Rightarrow> string list \<Rightarrow> 'm" where
  "json_mask C obj filtering =
     fold (\<lambda>k m. case json_get C obj k of None \<Rightarrow> m | Some v \<Rightarrow> json_map_insert C m k v)
       filtering (json_map_new C)"

definition cbor_mask :: "('j, 'm, 'c) codec_lib \<Rightarrow> 'c \<Rightarrow> string list \<Rightarrow> 'c" where
  "cbor_mask C obj filtering =
     (case cbor_into_map C obj of
        Some entries \<Rightarrow>
          cbor_map C (filter (\<lambda>e. case cbor_as_text C (fst e) of None \<Rightarrow> False | Some t \<Rightarrow> t \<in> set filtering) entries)
      | None \<Rightarrow> cbor_map C [])"

definition with_body :: "('j, 'm, 'c) codec_lib \<Rightarrow> response_data \<Rightarrow> bytes \<Rightarrow> string \<Rightarrow> (response_data, string) outcome" where
  "with_body C rd body filtering =
     (let fs = split_filtering filtering in
      if 300 \<le> rd_status rd \<or> fs = [] then Ok (rd\<lparr>rd_body := rd_body rd @ body\<rparr>)
      else if str_contains (rd_mime rd) ''application/json'' then
        and_then (map_err err_string (json_from_slice C body)) (\<lambda>obj.
          and_then (map_err err_string (json_map_to_vec C (json_mask C obj fs))) (\<lambda>buf.
            Ok (rd\<lparr>rd_body := buf\<rparr>)))
      else if str_contains (rd_mime rd) ''application/cbor'' then
        and_then (map_err err_string (cbor_from_reader C body)) (\<lambda>obj.
          and_then (map_err err_string (cbor_into_writer C (cbor_mask C obj fs))) (\<lambda>buf.
            Ok (rd\<lparr>rd_body := buf\<rparr>)))
      else Ok (rd\<lparr>rd_body := rd_body rd @ body\<rparr>))"

definition to_bytes :: "('j, 'm, 'c) codec_lib \<Rightarrow> response_data \<Rightarrow> (bytes, string) outcome" where
  "to_bytes C rd = map_err err_string (response_encode C rd)"

definition response_try_from :: "('j, 'm, 'c) codec_lib \<Rightarrow> bytes \<Rightarrow> (response_data, string) outcome" where
  "response_try_from C value = map_err err_string (response_decode C value)"

text \<open>\<open>IntoResponse\<close>: the HTTP response sent to the client; the \<open>unwrap\<close>s can panic.\<close>

record 'h http_response =
  resp_status :: u16
  resp_headers :: 'h
  resp_body :: bytes

fun append_headers :: "('h, 'v) http_lib \<Rightarrow> (string \<times> string) list \<Rightarrow> 'h \<Rightarrow> ('h, string) outcome" where
  "append_headers H [] hm = Ok hm"
| "append_headers H ((k, v) # hs) hm =
     (case (header_name_from_bytes H k, hv_from_bytes H v) of
        (Some n, Some w) \<Rightarrow> append_headers H hs (hm_append H hm n w)
      | _ \<Rightarrow> Panic ''called `Result::unwrap()` on an `Err` value'')"

definition into_response :: "('h, 'v) http_lib \<Rightarrow> response_data \<Rightarrow> ('h http_response, string) outcome" where
  "into_response H rd =
     and_then (append_headers H (rd_headers rd) (hm_new H)) (\<lambda>hm.
       case hv_from_bytes H (rd_mime rd) of
         None \<Rightarrow> Panic ''called `Result::unwrap()` on an `Err` value''
       | Some m \<Rightarrow>
           Ok \<lparr>resp_status = (case status_from_u16 H (rd_status rd) of None \<Rightarrow> 200 | Some c \<Rightarrow> c),
               resp_headers = hm_insert H (hm_insert H hm ''content-type'' m)
                 ''content-length'' (hv_from_usize H (length (rd_body rd))),
               resp_body = rd_body rd\<rparr>)"

section \<open>Lemmas\<close>

lemma split_filtering_pieces: "s \<in> set (split_filtering f) \<Longrightarrow> s \<noteq> [] \<and> CHR '','' \<notin> set s"
  using set_trim split_char_not_in by (fastforce simp: split_filtering_def)

lemma split_filtering_Nil [simp]: "split_filtering [] = []"
  by (simp add: split_filtering_def)

text \<open>What the headers loop keeps: the headers it pushes, and the last content type it saw.\<close>

definition kept_headers :: "('h, 'v) http_lib \<Rightarrow> string list \<Rightarrow> (string \<times> 'v) list \<Rightarrow> (string \<times> string) list" where
  "kept_headers H fs xs =
     map (\<lambda>x. (fst x, the (hv_to_str H (snd x))))
       (filter (\<lambda>x. hv_to_str H (snd x) \<noteq> None
                 \<and> fst x \<notin> {''content-type'', ''content-length'', ''transfer-encoding''}
                 \<and> (fs = [] \<or> fst x \<in> set fs)) xs)"

definition last_mime :: "('h, 'v) http_lib \<Rightarrow> string \<Rightarrow> (string \<times> 'v) list \<Rightarrow> string" where
  "last_mime H m xs =
     last (m # map (\<lambda>x. the (hv_to_str H (snd x)))
       (filter (\<lambda>x. hv_to_str H (snd x) \<noteq> None \<and> fst x = ''content-type'') xs))"

lemma take_header_eq:
  "take_header H fs x rd =
     rd\<lparr>rd_headers := rd_headers rd @ kept_headers H fs [x], rd_mime := last_mime H (rd_mime rd) [x]\<rparr>"
proof (cases x)
  case (Pair k v)
  then show ?thesis
    by (cases "hv_to_str H v")
      (simp_all add: take_header_def kept_headers_def last_mime_def)
qed

lemma kept_headers_Cons: "kept_headers H fs (x # xs) = kept_headers H fs [x] @ kept_headers H fs xs"
  by (simp add: kept_headers_def)

lemma last_mime_Cons: "last_mime H m (x # xs) = last_mime H (last_mime H m [x]) xs"
  by (simp add: last_mime_def)

lemma last_mime_source: "last_mime H m xs = m \<or> (\<exists>v. hv_to_str H v = Some (last_mime H m xs))"
proof (induction xs arbitrary: m)
  case Nil
  then show ?case by (simp add: last_mime_def)
next
  case (Cons x xs)
  have "last_mime H m [x] = m \<or> (\<exists>v. hv_to_str H v = Some (last_mime H m [x]))"
    by (auto simp: last_mime_def)
  with Cons.IH [of "last_mime H m [x]"] show ?case
    by (auto simp: last_mime_Cons [of H m x xs])
qed

lemma fold_take_header:
  "fold (take_header H fs) xs rd =
     rd\<lparr>rd_headers := rd_headers rd @ kept_headers H fs xs, rd_mime := last_mime H (rd_mime rd) xs\<rparr>"
proof (induction xs arbitrary: rd)
  case Nil
  then show ?case by (simp add: kept_headers_def last_mime_def)
next
  case (Cons x xs)
  then show ?case
    by (simp add: take_header_eq kept_headers_Cons [of H fs x xs] last_mime_Cons [of H _ x xs])
qed

lemma with_headers_eq:
  "with_headers H rd hm f =
     rd\<lparr>rd_headers := rd_headers rd @ kept_headers H (split_filtering (to_ascii_lowercase f)) (hm_iter H hm),
        rd_mime := last_mime H (rd_mime rd) (hm_iter H hm)\<rparr>"
  by (simp add: with_headers_def fold_take_header)

lemma append_headers_total:
  "(\<And>k v. (k, v) \<in> set hs \<Longrightarrow> header_name_from_bytes H k \<noteq> None \<and> hv_from_bytes H v \<noteq> None) \<Longrightarrow>
     \<exists>hm'. append_headers H hs hm = Ok hm'"
proof (induction hs arbitrary: hm)
  case Nil
  then show ?case by simp
next
  case (Cons x hs)
  obtain k v where x: "x = (k, v)" by (cases x)
  with Cons.prems [of k v] obtain n w where "header_name_from_bytes H k = Some n" "hv_from_bytes H v = Some w"
    by auto
  moreover obtain hm' where "append_headers H hs (hm_append H hm n w) = Ok hm'"
    using Cons.IH Cons.prems by (meson list.set_intros(2))
  ultimately show ?case using x by simp
qed

lemma with_body_frame:
  "with_body C rd b f = Ok rd' \<Longrightarrow>
     rd_status rd' = rd_status rd \<and> rd_headers rd' = rd_headers rd \<and> rd_mime rd' = rd_mime rd"
  by (auto simp: with_body_def Let_def split: if_splits)

text \<open>Documented behaviour of \<open>serde_json::Map\<close> and of the map values of \<open>ciborium\<close>.\<close>

definition json_map_documented :: "('j, 'm, 'c) codec_lib \<Rightarrow> ('m \<Rightarrow> string \<rightharpoonup> 'j) \<Rightarrow> bool" where
  "json_map_documented C lookup \<longleftrightarrow>
     lookup (json_map_new C) = Map.empty \<and>
     (\<forall>m k v. lookup (json_map_insert C m k v) = (lookup m)(k \<mapsto> v))"

definition cbor_map_documented :: "('j, 'm, 'c) codec_lib \<Rightarrow> bool" where
  "cbor_map_documented C \<longleftrightarrow> (\<forall>es. cbor_into_map C (cbor_map C es) = Some es)"

lemma lookup_fold_json_mask:
  assumes "json_map_documented C lookup"
  shows "lookup (fold (\<lambda>k m. case json_get C obj k of None \<Rightarrow> m | Some v \<Rightarrow> json_map_insert C m k v) fs m) k =
    (if k \<in> set fs \<and> json_get C obj k \<noteq> None then json_get C obj k else lookup m k)"
  using assms
  by (induction fs arbitrary: m) (auto simp: json_map_documented_def split: option.splits)

lemma lookup_json_mask:
  "json_map_documented C lookup \<Longrightarrow>
     lookup (json_mask C obj fs) = (\<lambda>k. if k \<in> set fs then json_get C obj k else None)"
  using lookup_fold_json_mask [of C lookup obj fs "json_map_new C"]
  by (auto simp: json_mask_def json_map_documented_def fun_eq_iff)

section \<open>Splitting and joining\<close>

text \<open>The comma-separated list of some names, for stating what \<open>split_filtering\<close> parses.\<close>

fun join_comma :: "string list \<Rightarrow> string" where
  "join_comma [] = []"
| "join_comma [x] = x"
| "join_comma (x # y # ys) = x @ CHR '','' # join_comma (y # ys)"

lemma split_join_comma:
  "xs \<noteq> [] \<Longrightarrow> (\<And>x. x \<in> set xs \<Longrightarrow> CHR '','' \<notin> set x) \<Longrightarrow> split_char CHR '','' (join_comma xs) = xs"
  by (induction xs rule: join_comma.induct) (auto simp: split_char_no_sep split_char_append)

section \<open>An instance\<close>

text \<open>
  Codecs on which the laws hold, for the witnesses: a JSON object is the text of its keys, a CBOR
  value a text or a map, and \<open>ResponseData\<close> has a self-delimiting encoding.
\<close>

datatype sample_cbor = CText string | CMap "(sample_cbor \<times> sample_cbor) list"

fun enc_pairs :: "(string \<times> string) list \<Rightarrow> bytes" where
  "enc_pairs [] = [CHR 0x00]"
| "enc_pairs ((k, v) # xs) = CHR 0x01 # enc_str k @ enc_str v @ enc_pairs xs"

text \<open>Decoding, with fuel: one unit for each pair.\<close>

fun dec_pairs :: "nat \<Rightarrow> bytes \<Rightarrow> ((string \<times> string) list \<times> bytes) option" where
  "dec_pairs n (t # bs) =
     (if t = CHR 0x00 then Some ([], bs)
      else (case n of 0 \<Rightarrow> None
        | Suc m \<Rightarrow> Option.bind (dec_str bs) (\<lambda>(k, r). Option.bind (dec_str r) (\<lambda>(v, r').
            map_option (\<lambda>(xs, r''). ((k, v) # xs, r'')) (dec_pairs m r')))))"
| "dec_pairs n [] = None"

lemma dec_enc_pairs [simp]: "length xs \<le> n \<Longrightarrow> dec_pairs n (enc_pairs xs @ r) = Some (xs, r)"
  by (induction xs arbitrary: n rule: enc_pairs.induct) (auto split: nat.splits)

definition sample_encode :: "response_data \<Rightarrow> bytes" where
  "sample_encode rd = enc_str (replicate (unat (rd_status rd)) CHR ''x'') @ enc_str (rd_body rd) @
     enc_str (rd_mime rd) @ enc_pairs (rd_headers rd)"

definition sample_decode :: "bytes \<Rightarrow> response_data option" where
  "sample_decode bs =
     Option.bind (dec_str bs) (\<lambda>(st, r1). Option.bind (dec_str r1) (\<lambda>(b, r2).
       Option.bind (dec_str r2) (\<lambda>(m, r3). Option.bind (dec_pairs (length r3) r3) (\<lambda>(hs, r4).
         Some \<lparr>rd_status = of_nat (length st), rd_headers = hs, rd_body = b, rd_mime = m\<rparr>))))"

lemma length_enc_pairs: "length xs \<le> length (enc_pairs xs)"
  by (induction xs rule: enc_pairs.induct) auto

lemma sample_roundtrip: "sample_decode (sample_encode rd) = Some rd"
proof -
  have "dec_pairs (length (enc_pairs (rd_headers rd))) (enc_pairs (rd_headers rd)) = Some (rd_headers rd, [])"
    using dec_enc_pairs [OF length_enc_pairs, of "rd_headers rd" "[]"] by simp
  then show ?thesis by (simp add: sample_decode_def sample_encode_def)
qed

definition sample_codec :: "(string, (string \<times> string) list, sample_cbor) codec_lib" where
  "sample_codec = \<lparr>json_from_slice = Ok,
     json_get = (\<lambda>j k. if str_contains j k then Some k else None),
     json_map_new = [], json_map_insert = (\<lambda>m k v. (k, v) # m), json_map_to_vec = (\<lambda>m. Ok (concat (map fst m))),
     cbor_from_reader = (\<lambda>b. Ok (CMap [(CText b, CText b), (CText ''k'', CText b)])),
     cbor_into_map = (\<lambda>c. case c of CMap es \<Rightarrow> Some es | CText s \<Rightarrow> None),
     cbor_as_text = (\<lambda>c. case c of CText s \<Rightarrow> Some s | CMap es \<Rightarrow> None),
     cbor_map = CMap, cbor_into_writer = (\<lambda>c. Ok ''cbor''),
     response_encode = (\<lambda>rd. Ok (sample_encode rd)),
     response_decode = (\<lambda>b. ok_or ''bad'' (sample_decode b))\<rparr>"

lemma sample_json_documented: "json_map_documented sample_codec map_of"
  by (simp add: json_map_documented_def sample_codec_def)

lemma sample_cbor_documented: "cbor_map_documented sample_codec"
  by (simp add: cbor_map_documented_def sample_codec_def)

lemma split_filtering_plain:
  "f \<noteq> [] \<Longrightarrow> CHR '','' \<notin> set f \<Longrightarrow> strip_any white_space f = None \<Longrightarrow>
     strip_any (map rev white_space) (rev f) = None \<Longrightarrow> split_filtering f = [f]"
  by (simp add: split_filtering_def split_char_no_sep trim_id)

lemma proxied_response_sendable:
  assumes "header_text_documented H"
    and "with_body C (with_headers H (response_new st) hm f) b jm = Ok rd"
  shows "\<exists>r. into_response H rd = Ok r \<and> resp_body r = rd_body rd \<and>
    resp_status r = (case status_from_u16 H (rd_status rd) of None \<Rightarrow> 200 | Some c \<Rightarrow> c)"
proof -
  let ?rd0 = "with_headers H (response_new st) hm f"
  have fr: "rd_headers rd = rd_headers ?rd0" "rd_mime rd = rd_mime ?rd0"
    using with_body_frame [OF assms(2)] by auto
  have h: "header_name_from_bytes H k \<noteq> None \<and> hv_from_bytes H s \<noteq> None" if ks: "(k, s) \<in> set (rd_headers rd)" for k s
  proof -
    from ks obtain v where "(k, v) \<in> set (hm_iter H hm)" "hv_to_str H v = Some s"
      by (auto simp: fr with_headers_eq response_new_def kept_headers_def)
    then show ?thesis
      using header_name_valid [OF assms(1)] header_value_valid [OF assms(1)] by fastforce
  qed
  obtain hm' where a: "append_headers H (rd_headers rd) (hm_new H) = Ok hm'"
    using append_headers_total [OF h] by blast
  have "\<exists>w. hv_from_bytes H (rd_mime rd) = Some w"
  proof -
    have "rd_mime rd = ''text/plain'' \<or> (\<exists>v. hv_to_str H v = Some (rd_mime rd))"
      using last_mime_source [of H "''text/plain''" "hm_iter H hm"]
      by (simp add: fr with_headers_eq response_new_def)
    then show ?thesis
      using header_value_valid [OF assms(1)] header_plain_valid [OF assms(1)] by auto
  qed
  with a show ?thesis by (auto simp: into_response_def)
qed

section \<open>Properties\<close>

text \<open>
  The names a client lists, separated by commas, are exactly the names the filter uses, whatever
white space surrounds them; an element that is empty after trimming is dropped.
\<close>

theorem split_filtering_parses_lists:
  assumes "\<forall>x\<in>set xs. CHR '','' \<notin> set x"
  shows "split_filtering (join_comma xs) = filter (\<lambda>s. s \<noteq> []) (map trim xs)"
proof (cases xs)
  case Nil
  then show ?thesis by simp
next
  case (Cons x ys)
  with assms have "split_char CHR '','' (join_comma xs) = xs"
    by (intro split_join_comma) auto
  then show ?thesis by (simp add: split_filtering_def)
qed

theorem split_filtering_parses_lists_witness:
  "split_filtering (join_comma [''args'', '' url '', []]) = [''args'', ''url'']"
proof -
  have t: "trim ''args'' = ''args''"
    by (rule trim_id) (simp_all add: white_space_def)
  have u: "trim '' url '' = ''url''"
    by (simp add: trim_def trim_start_by.simps white_space_def)
  show ?thesis
    by (subst split_filtering_parses_lists) (simp_all add: t u)
qed

text \<open>
  C33: The headers of a proxied response are those of the upstream's that are readable text, are not
the content type, length or transfer encoding, and, if the client named any, are among the names
it asked for (compared in lower case); nothing else gets through, and nothing else is lost.
\<close>

theorem with_headers_keeps_exactly_requested:
  "(k, s) \<in> set (rd_headers (with_headers H (response_new st) hm f)) \<longleftrightarrow>
     (\<exists>v. (k, v) \<in> set (hm_iter H hm) \<and> hv_to_str H v = Some s) \<and>
     k \<noteq> ''content-type'' \<and> k \<noteq> ''content-length'' \<and> k \<noteq> ''transfer-encoding'' \<and>
     (split_filtering (to_ascii_lowercase f) = [] \<or> k \<in> set (split_filtering (to_ascii_lowercase f)))"
  by (force simp: with_headers_eq response_new_def kept_headers_def image_iff)

text \<open>
  C34: The JSON mask: for a successful (below 300) JSON response and a non-empty mask, the body the
client gets is the encoding of a map that has the masked keys of the upstream's object and no
other key.
\<close>

theorem json_body_has_only_masked_keys:
  assumes "json_map_documented C lookup"
    and "rd_status rd < 300" and "split_filtering f \<noteq> []"
    and "str_contains (rd_mime rd) ''application/json''"
    and "with_body C rd b f = Ok rd'"
  shows "\<exists>obj m. json_from_slice C b = Ok obj \<and> json_map_to_vec C m = Ok (rd_body rd') \<and>
    lookup m = (\<lambda>k. if k \<in> set (split_filtering f) then json_get C obj k else None)"
proof -
  have "\<not> 300 \<le> rd_status rd" using assms(2) by simp
  with assms(3-5) obtain obj buf where o: "json_from_slice C b = Ok obj"
      "json_map_to_vec C (json_mask C obj (split_filtering f)) = Ok buf" "rd' = rd\<lparr>rd_body := buf\<rparr>"
    by (auto simp: with_body_def Let_def)
  with lookup_json_mask [OF assms(1)] show ?thesis by auto
qed

theorem json_body_has_only_masked_keys_witness:
  "\<exists>obj m. json_from_slice sample_codec ''url,ip'' = Ok obj \<and> json_map_to_vec sample_codec m = Ok ''url'' \<and>
    map_of m = (\<lambda>k. if k \<in> set (split_filtering ''url'') then json_get sample_codec obj k else None)"
proof -
  let ?rd = "\<lparr>rd_status = 200, rd_headers = [], rd_body = [], rd_mime = ''application/json''\<rparr>"
  have f: "split_filtering ''url'' = [''url'']"
    by (rule split_filtering_plain) (simp_all add: white_space_def)
  have m: "str_contains (rd_mime ?rd) ''application/json''" by (simp add: str_contains_def)
  have u: "sublist ''url'' ''url,ip''" by (simp add: prefix_imp_sublist)
  have b: "with_body sample_codec ?rd ''url,ip'' ''url'' = Ok (?rd\<lparr>rd_body := ''url''\<rparr>)"
    using m u by (simp add: with_body_def f json_mask_def sample_codec_def str_contains_def)
  have "split_filtering ''url'' \<noteq> []" by (simp add: f)
  from json_body_has_only_masked_keys [OF sample_json_documented _ this m b] show ?thesis by simp
qed

text \<open>
  The CBOR mask: for a successful CBOR response and a non-empty mask, the body the client gets is
the encoding of a map with exactly the entries of the upstream's map whose key is a text in the
mask, in their order; of no entry when the upstream sent something other than a map.
\<close>

theorem cbor_body_has_only_masked_entries:
  assumes "cbor_map_documented C"
    and "rd_status rd < 300" and "split_filtering f \<noteq> []"
    and "\<not> str_contains (rd_mime rd) ''application/json''"
    and "str_contains (rd_mime rd) ''application/cbor''"
    and "with_body C rd b f = Ok rd'"
  shows "\<exists>obj v. cbor_from_reader C b = Ok obj \<and> cbor_into_writer C v = Ok (rd_body rd') \<and>
    cbor_into_map C v = Some (filter (\<lambda>e. \<exists>t\<in>set (split_filtering f). cbor_as_text C (fst e) = Some t)
      (case cbor_into_map C obj of None \<Rightarrow> [] | Some es \<Rightarrow> es))"
proof -
  have "\<not> 300 \<le> rd_status rd" using assms(2) by simp
  with assms(3-6) obtain obj buf where o: "cbor_from_reader C b = Ok obj"
      "cbor_into_writer C (cbor_mask C obj (split_filtering f)) = Ok buf" "rd' = rd\<lparr>rd_body := buf\<rparr>"
    by (auto simp: with_body_def Let_def)
  have e: "(\<lambda>e. case cbor_as_text C (fst e) of None \<Rightarrow> False | Some t \<Rightarrow> t \<in> set (split_filtering f)) =
      (\<lambda>e. \<exists>t\<in>set (split_filtering f). cbor_as_text C (fst e) = Some t)"
    by (auto simp: fun_eq_iff split: option.splits)
  have "cbor_into_map C (cbor_mask C obj (split_filtering f)) =
      Some (filter (\<lambda>e. \<exists>t\<in>set (split_filtering f). cbor_as_text C (fst e) = Some t)
      (case cbor_into_map C obj of None \<Rightarrow> [] | Some es \<Rightarrow> es))"
    using assms(1) by (auto simp: cbor_mask_def cbor_map_documented_def e split: option.splits)
  with o show ?thesis by auto
qed

theorem cbor_body_has_only_masked_entries_witness:
  "\<exists>obj v. cbor_from_reader sample_codec ''b'' = Ok obj \<and> cbor_into_writer sample_codec v = Ok ''cbor'' \<and>
    cbor_into_map sample_codec v = Some (filter (\<lambda>e. \<exists>t\<in>set (split_filtering ''k''). cbor_as_text sample_codec (fst e) = Some t)
      (case cbor_into_map sample_codec obj of None \<Rightarrow> [] | Some es \<Rightarrow> es))"
proof -
  let ?rd = "\<lparr>rd_status = 200, rd_headers = [], rd_body = [], rd_mime = ''application/cbor''\<rparr>"
  have f: "split_filtering ''k'' = [''k'']"
    by (rule split_filtering_plain) (simp_all add: white_space_def)
  have m: "str_contains (rd_mime ?rd) ''application/cbor''" by (simp add: str_contains_def)
  have n: "\<not> str_contains (rd_mime ?rd) ''application/json''" by code_simp
  have b: "with_body sample_codec ?rd ''b'' ''k'' = Ok (?rd\<lparr>rd_body := ''cbor''\<rparr>)"
    using m n by (simp add: with_body_def f sample_codec_def)
  have "split_filtering ''k'' \<noteq> []" by (simp add: f)
  from cbor_body_has_only_masked_entries [OF sample_cbor_documented _ this n m b] show ?thesis by simp
qed

text \<open>
  Sending a response that the proxy built from an upstream's answer never panics: every name and
value it kept can be turned back into a header, and the client gets the stored body.
\<close>

theorem proxied_response_is_sent:
  assumes "header_text_documented H"
    and "with_body C (with_headers H (response_new st) hm f) b jm = Ok rd"
  shows "\<exists>r. into_response H rd = Ok r \<and> resp_body r = rd_body rd"
  using proxied_response_sendable [OF assms] by blast

theorem proxied_response_is_sent_witness:
  "\<exists>r. into_response list_http \<lparr>rd_status = 200, rd_headers = [(''date'', ''today'')], rd_body = ''hi'',
      rd_mime = ''text/html''\<rparr> = Ok r \<and> resp_body r = ''hi''"
proof -
  have "with_body sample_codec (with_headers list_http (response_new 200)
      [(''content-type'', ''text/html''), (''date'', ''today''), (''content-length'', ''2'')] []) ''hi'' [] =
    Ok \<lparr>rd_status = 200, rd_headers = [(''date'', ''today'')], rd_body = ''hi'', rd_mime = ''text/html''\<rparr>"
    by (simp add: with_body_def with_headers_eq kept_headers_def last_mime_def list_http_def
        response_new_def to_ascii_lowercase_def)
  from proxied_response_is_sent [OF list_http_text_documented this] show ?thesis by simp
qed

end
