(* ===== verification/Auth.thy ===== *)
theory Auth
  imports Prelude
begin

text \<open>
  \<open>src/idempotent-proxy-types/src/auth.rs\<close>: bearer tokens signed with Ed25519 or with
  ECDSA over secp256k1. The signature schemes, SHA3-256 and the CBOR encoding are libraries and
  therefore parameters; what the two verifiers decide from them is the contract
  \<open>token_verifier\<close>, interpreted on both for any libraries.
\<close>

section \<open>Tokens and the libraries\<close>

text \<open>Token format: expiry time in seconds, agent, signature.\<close>

datatype token = Token (tok_expire: u64) (tok_agent: string) (tok_sig: bytes)

definition PERMITTED_DRIFT :: u64 where
  "PERMITTED_DRIFT = 10"

record token_lib =
  cbor_pair :: "u64 \<times> string \<Rightarrow> (bytes, string) outcome"
  cbor_token :: "u64 \<times> string \<times> bytes \<Rightarrow> (bytes, string) outcome"
  token_from_reader :: "bytes \<Rightarrow> token option"
  sha3_digest :: "bytes \<Rightarrow> bytes"

record ('sk, 'vk, 'sig) sign_lib =
  sign_message :: "'sk \<Rightarrow> bytes \<Rightarrow> ('sig, string) outcome"
  sig_to_vec :: "'sig \<Rightarrow> bytes"
  sig_parse :: "bytes \<Rightarrow> 'sig option"
  sig_verify :: "'vk \<Rightarrow> bytes \<Rightarrow> 'sig \<Rightarrow> bool"
  verifying_key :: "'sk \<Rightarrow> 'vk"

section \<open>Signing and verifying\<close>

definition sha3_256 :: "token_lib \<Rightarrow> bytes \<Rightarrow> bytes" where
  "sha3_256 A data = sha3_digest A data"

definition ed25519_sign :: "token_lib \<Rightarrow> ('sk, 'vk, 'sig) sign_lib \<Rightarrow> 'sk \<Rightarrow> u64 \<Rightarrow> string \<Rightarrow> (bytes, string) outcome" where
  "ed25519_sign A E key expire_at agent =
     and_then (expect ''failed to encode data in CBOR format'' (cbor_pair A (expire_at, agent))) (\<lambda>buf.
     and_then (sign_message E key buf) (\<lambda>sig.
       expect ''failed to encode in CBOR format'' (cbor_token A (expire_at, agent, sig_to_vec E sig))))"

definition ecdsa_sign :: "token_lib \<Rightarrow> ('sk, 'vk, 'sig) sign_lib \<Rightarrow> 'sk \<Rightarrow> u64 \<Rightarrow> string \<Rightarrow> (bytes, string) outcome" where
  "ecdsa_sign A E key expire_at agent =
     and_then (expect ''failed to encode data in CBOR format'' (cbor_pair A (expire_at, agent))) (\<lambda>buf.
     and_then (expect ''failed to sign Secp256k1 signature'' (sign_message E key (sha3_256 A buf))) (\<lambda>sig.
       expect ''failed to encode in CBOR format'' (cbor_token A (expire_at, agent, sig_to_vec E sig))))"

text \<open>The loop over the configured keys: the first key that accepts the signature ends it.\<close>

fun try_keys :: "('vk \<Rightarrow> bool) \<Rightarrow> 'vk list \<Rightarrow> token \<Rightarrow> string \<Rightarrow> (token, string) outcome" where
  "try_keys ok [] token msg = Err msg"
| "try_keys ok (key # keys) token msg = (if ok key then Ok token else try_keys ok keys token msg)"

definition ed25519_verify :: "token_lib \<Rightarrow> ('sk, 'vk, 'sig) sign_lib \<Rightarrow> 'vk list \<Rightarrow> bytes \<Rightarrow> u64 \<Rightarrow> (token, string) outcome" where
  "ed25519_verify A E keys data unix_ms =
     and_then (ok_or ''failed to decode CBOR data'' (token_from_reader A data)) (\<lambda>token.
       if tok_expire token + PERMITTED_DRIFT < unix_ms div 1000 then Err ''token expired''
       else and_then (ok_or ''failed to parse Ed25519 signature'' (sig_parse E (tok_sig token))) (\<lambda>sig.
         and_then (expect ''failed to encode data in CBOR format'' (cbor_pair A (tok_expire token, tok_agent token))) (\<lambda>buf.
           try_keys (\<lambda>key. sig_verify E key buf sig) keys token ''failed to verify Ed25519 signature'')))"

definition ecdsa_verify :: "token_lib \<Rightarrow> ('sk, 'vk, 'sig) sign_lib \<Rightarrow> 'vk list \<Rightarrow> bytes \<Rightarrow> u64 \<Rightarrow> (token, string) outcome" where
  "ecdsa_verify A E keys data unix_ms =
     and_then (ok_or ''failed to decode CBOR data'' (token_from_reader A data)) (\<lambda>token.
       if tok_expire token + PERMITTED_DRIFT < unix_ms div 1000 then Err ''token expired''
       else and_then (ok_or ''failed to parse Secp256k1 signature'' (sig_parse E (tok_sig token))) (\<lambda>sig.
         and_then (expect ''failed to encode data in CBOR format'' (cbor_pair A (tok_expire token, tok_agent token))) (\<lambda>buf.
           let digest = sha3_256 A buf in
           try_keys (\<lambda>key. sig_verify E key digest sig) keys token ''failed to verify ECDSA/Secp256k1 signature'')))"

section \<open>What a verifier decides\<close>

definition token_expired :: "token \<Rightarrow> u64 \<Rightarrow> bool" where
  "token_expired token unix_ms \<longleftrightarrow> tok_expire token + PERMITTED_DRIFT < unix_ms div 1000"

text \<open>The signature of the token is one of its expiry time and agent under the key.\<close>

definition ed25519_authentic :: "token_lib \<Rightarrow> ('sk, 'vk, 'sig) sign_lib \<Rightarrow> 'vk \<Rightarrow> token \<Rightarrow> bool" where
  "ed25519_authentic A E key token \<longleftrightarrow>
     (\<exists>sig buf. sig_parse E (tok_sig token) = Some sig \<and>
        cbor_pair A (tok_expire token, tok_agent token) = Ok buf \<and> sig_verify E key buf sig)"

definition ecdsa_authentic :: "token_lib \<Rightarrow> ('sk, 'vk, 'sig) sign_lib \<Rightarrow> 'vk \<Rightarrow> token \<Rightarrow> bool" where
  "ecdsa_authentic A E key token \<longleftrightarrow>
     (\<exists>sig buf. sig_parse E (tok_sig token) = Some sig \<and>
        cbor_pair A (tok_expire token, tok_agent token) = Ok buf \<and> sig_verify E key (sha3_256 A buf) sig)"

lemma try_keys_eq_Ok [simp]: "try_keys ok keys token msg = Ok t \<longleftrightarrow> t = token \<and> (\<exists>key\<in>set keys. ok key)"
  by (induction keys) auto

locale token_verifier =
  fixes ver :: "'vk list \<Rightarrow> bytes \<Rightarrow> u64 \<Rightarrow> (token, string) outcome"
    and decode :: "bytes \<Rightarrow> token option"
    and authentic :: "'vk \<Rightarrow> token \<Rightarrow> bool"
  assumes ver_Ok: "ver keys data now = Ok t \<longleftrightarrow>
    decode data = Some t \<and> \<not> token_expired t now \<and> (\<exists>key\<in>set keys. authentic key t)"
begin

lemma ver_no_keys: "ver [] data now \<noteq> Ok t"
  by (simp add: ver_Ok)

text \<open>Adding keys (key rotation) rejects no token that was accepted, and their order is irrelevant.\<close>

lemma ver_more_keys: "ver keys data now = Ok t \<Longrightarrow> set keys \<subseteq> set keys' \<Longrightarrow> ver keys' data now = Ok t"
  by (auto simp: ver_Ok)

lemma ver_expired: "decode data = Some t \<Longrightarrow> token_expired t now \<Longrightarrow> ver keys data now \<noteq> Ok t'"
  by (auto simp: ver_Ok)

lemma ver_deterministic: "ver keys data now = Ok t \<Longrightarrow> ver keys' data now' = Ok t' \<Longrightarrow> t = t'"
  by (simp add: ver_Ok)

end

interpretation ed25519: token_verifier "ed25519_verify A E" "token_from_reader A" "ed25519_authentic A E"
  for A :: token_lib and E :: "('sk, 'vk, 'sig) sign_lib"
  by unfold_locales
    (auto simp: ed25519_verify_def token_expired_def ed25519_authentic_def split: if_splits)

interpretation ecdsa: token_verifier "ecdsa_verify A E" "token_from_reader A" "ecdsa_authentic A E"
  for A :: token_lib and E :: "('sk, 'vk, 'sig) sign_lib"
  by unfold_locales
    (auto simp: ecdsa_verify_def token_expired_def ecdsa_authentic_def Let_def split: if_splits)

section \<open>Laws of the libraries\<close>

text \<open>Decoding undoes encoding, and a signature made with a key verifies under its public key.\<close>

definition token_codec_documented :: "token_lib \<Rightarrow> bool" where
  "token_codec_documented A \<longleftrightarrow>
     (\<forall>e a s data. cbor_token A (e, a, s) = Ok data \<longrightarrow> token_from_reader A data = Some (Token e a s))"

definition signatures_documented :: "('sk, 'vk, 'sig) sign_lib \<Rightarrow> bool" where
  "signatures_documented E \<longleftrightarrow>
     (\<forall>sig. sig_parse E (sig_to_vec E sig) = Some sig) \<and>
     (\<forall>key m sig. sign_message E key m = Ok sig \<longrightarrow> sig_verify E (verifying_key E key) m sig)"

text \<open>An instance, for the witnesses: keys are names, and a signature is the key and the message.\<close>

definition sample_tokens :: token_lib where
  "sample_tokens = \<lparr>cbor_pair = (\<lambda>(e, a). Ok (enc_str (replicate (unat e) CHR ''x'') @ enc_str a)),
     cbor_token = (\<lambda>(e, a, s). Ok (enc_str (replicate (unat e) CHR ''x'') @ enc_str a @ enc_str s)),
     token_from_reader = (\<lambda>d. Option.bind (dec_str d) (\<lambda>(e, r). Option.bind (dec_str r) (\<lambda>(a, r').
       map_option (\<lambda>(s, r''). Token (of_nat (length e)) a s) (dec_str r')))),
     sha3_digest = (\<lambda>d. d)\<rparr>"

lemma sample_tokens_documented: "token_codec_documented sample_tokens"
proof -
  have "dec_str (enc_str s) = Some (s, [])" for s
    using dec_enc_str [of s "[]"] by simp
  then show ?thesis by (simp add: token_codec_documented_def sample_tokens_def)
qed

definition sample_signatures :: "(char, char, char \<times> bytes) sign_lib" where
  "sample_signatures = \<lparr>sign_message = (\<lambda>k m. Ok (k, m)), sig_to_vec = (\<lambda>(k, m). k # m),
     sig_parse = (\<lambda>s. case s of [] \<Rightarrow> None | k # m \<Rightarrow> Some (k, m)),
     sig_verify = (\<lambda>k m s. s = (k, m)), verifying_key = (\<lambda>k. k)\<rparr>"

lemma sample_signatures_documented: "signatures_documented sample_signatures"
  by (auto simp: signatures_documented_def sample_signatures_def)

section \<open>Properties\<close>

text \<open>
  C32: What an accepted ECDSA token proves: it decodes, its expiry time plus the permitted drift (as
computed, on 64 bits) is not in the past, and one of the configured keys verifies its signature
over the hash of exactly this expiry time and agent; and every such token is accepted.
\<close>

theorem ecdsa_token_accepted_iff:
  "ecdsa_verify A E keys data now = Ok t \<longleftrightarrow>
     token_from_reader A data = Some t \<and> \<not> tok_expire t + 10 < now div 1000 \<and>
     (\<exists>key sig buf. key \<in> set keys \<and> sig_parse E (tok_sig t) = Some sig \<and>
        cbor_pair A (tok_expire t, tok_agent t) = Ok buf \<and> sig_verify E key (sha3_256 A buf) sig)"
  by (auto simp: ecdsa.ver_Ok token_expired_def PERMITTED_DRIFT_def ecdsa_authentic_def)

text \<open>
  The same for Ed25519, whose signature is over the encoded expiry time and agent themselves.
\<close>

theorem ed25519_token_accepted_iff:
  "ed25519_verify A E keys data now = Ok t \<longleftrightarrow>
     token_from_reader A data = Some t \<and> \<not> tok_expire t + 10 < now div 1000 \<and>
     (\<exists>key sig buf. key \<in> set keys \<and> sig_parse E (tok_sig t) = Some sig \<and>
        cbor_pair A (tok_expire t, tok_agent t) = Ok buf \<and> sig_verify E key buf sig)"
  by (auto simp: ed25519.ver_Ok token_expired_def PERMITTED_DRIFT_def ed25519_authentic_def)

text \<open>
  A token signed by either function is accepted by its verifier, with its expiry time and agent,
as long as the signer's public key is configured and the token has not expired.
\<close>

theorem signed_tokens_verify:
  assumes "token_codec_documented A" and "signatures_documented E"
    and "verifying_key E sk \<in> set keys" and "\<not> e + 10 < now div 1000"
  shows "(ecdsa_sign A E sk e a = Ok data \<longrightarrow> (\<exists>s. ecdsa_verify A E keys data now = Ok (Token e a s))) \<and>
    (ed25519_sign A E sk e a = Ok data \<longrightarrow> (\<exists>s. ed25519_verify A E keys data now = Ok (Token e a s)))"
proof (intro conjI impI)
  assume "ecdsa_sign A E sk e a = Ok data"
  then obtain buf sig where b: "cbor_pair A (e, a) = Ok buf" "sign_message E sk (sha3_256 A buf) = Ok sig"
      "cbor_token A (e, a, sig_to_vec E sig) = Ok data"
    by (auto simp: ecdsa_sign_def)
  moreover have "ecdsa_authentic A E (verifying_key E sk) (Token e a (sig_to_vec E sig))"
    using b assms(2) by (auto simp: ecdsa_authentic_def signatures_documented_def)
  ultimately show "\<exists>s. ecdsa_verify A E keys data now = Ok (Token e a s)"
    using assms(1,3,4) by (auto simp: ecdsa.ver_Ok token_codec_documented_def token_expired_def PERMITTED_DRIFT_def)
next
  assume "ed25519_sign A E sk e a = Ok data"
  then obtain buf sig where b: "cbor_pair A (e, a) = Ok buf" "sign_message E sk buf = Ok sig"
      "cbor_token A (e, a, sig_to_vec E sig) = Ok data"
    by (auto simp: ed25519_sign_def)
  moreover have "ed25519_authentic A E (verifying_key E sk) (Token e a (sig_to_vec E sig))"
    using b assms(2) by (auto simp: ed25519_authentic_def signatures_documented_def)
  ultimately show "\<exists>s. ed25519_verify A E keys data now = Ok (Token e a s)"
    using assms(1,3,4) by (auto simp: ed25519.ver_Ok token_codec_documented_def token_expired_def PERMITTED_DRIFT_def)
qed

theorem signed_tokens_verify_witness:
  "(\<exists>d s. ecdsa_sign sample_tokens sample_signatures CHR ''k'' 5 ''bob'' = Ok d \<and>
     ecdsa_verify sample_tokens sample_signatures [CHR ''k''] d 7000 = Ok (Token 5 ''bob'' s))"
proof -
  obtain d where d: "ecdsa_sign sample_tokens sample_signatures CHR ''k'' 5 ''bob'' = Ok d"
    by (simp add: ecdsa_sign_def sample_tokens_def sample_signatures_def)
  have k: "verifying_key sample_signatures CHR ''k'' \<in> set [CHR ''k'']"
    by (simp add: sample_signatures_def)
  have n: "\<not> (5 :: u64) + 10 < 7000 div 1000" by simp
  from signed_tokens_verify [OF sample_tokens_documented sample_signatures_documented k n] d
  show ?thesis by blast
qed

text \<open>
  The sum with the permitted drift wraps: a token whose expiry time is among the last ten seconds
that 64 bits can count (one meant never to expire) is rejected as expired, ten seconds after the
epoch or later, before its signature is looked at.
\<close>

theorem far_future_token_is_rejected:
  assumes "token_from_reader A data = Some t" and "2 ^ 64 - 10 \<le> unat (tok_expire t)" and "10000 \<le> now"
  shows "ecdsa_verify A E keys data now = Err ''token expired'' \<and>
    ed25519_verify A E' keys' data now = Err ''token expired''"
proof -
  have lt: "unat (tok_expire t) < 2 ^ 64" using unsigned_less [of "tok_expire t"] by simp
  have "unat (tok_expire t + 10) = (unat (tok_expire t) + 10) mod 2 ^ 64"
    by (simp add: unat_word_ariths)
  also have "\<dots> < 10"
    using assms(2) lt by (simp add: mod_if) arith
  finally have a: "unat (tok_expire t + 10) < 10" .
  have "10 \<le> unat (now div 1000)"
    using assms(3) by (simp add: unat_div word_le_nat_alt)
  with a have "tok_expire t + PERMITTED_DRIFT < now div 1000"
    by (simp add: word_less_nat_alt PERMITTED_DRIFT_def)
  with assms(1) show ?thesis by (simp add: ecdsa_verify_def ed25519_verify_def)
qed

theorem far_future_token_is_rejected_witness:
  "ecdsa_verify (sample_tokens\<lparr>token_from_reader := \<lambda>d. Some (Token (- 1) ''bob'' d)\<rparr>) sample_signatures
     [CHR ''k''] ''kbob'' 1700000000000 = Err ''token expired'' \<and>
   ed25519_verify (sample_tokens\<lparr>token_from_reader := \<lambda>d. Some (Token (- 1) ''bob'' d)\<rparr>) sample_signatures
     [CHR ''k''] ''kbob'' 1700000000000 = Err ''token expired''"
  by (rule far_future_token_is_rejected [where t = "Token (- 1) ''bob'' ''kbob''"])
    (simp_all add: unsigned_minus_1_eq_mask mask_eq_exp_minus_1)

end
