(* ===== verification/Handler.thy ===== *)
theory Handler
  imports Hybrid_Cache Response Auth
begin

text \<open>
  \<open>src/idempotent-proxy-server/src/handler.rs\<close>: the state of the application and the handler
  \<open>proxy\<close>. The handler is written as the code has it, one definition for each stretch of it
  (access control, target, idempotency key, upstream request, upstream response), composed by
  \<open>proxy\<close>. What other tasks do to the shared cache while this request waits, the clock, and the
  upstream server are inputs (\<open>proxy_env\<close>).
\<close>

section \<open>State, requests and the environment\<close>

record ('v, 'ek, 'dk) app_state =
  agents :: "string list"
  url_vars :: "(string \<times> string) list"
  header_vars :: "(string \<times> 'v) list"
  ecdsa_pub_keys :: "'ek list"
  ed25519_pub_keys :: "'dk list"

record 'h request =
  req_method :: string
  req_path :: string
  req_path_and_query :: "string option"
  req_headers :: 'h
  req_body :: bytes

record ('h, 'u) upstream_request =
  up_method :: string
  up_url :: 'u
  up_headers :: 'h
  up_body :: "bytes option"

record 'h upstream_response =
  ur_status :: u16
  ur_headers :: 'h
  ur_bytes :: "(bytes, string) outcome"

text \<open>The other libraries the handler calls: \<open>reqwest::Url\<close>, \<open>base64\<close>, \<open>axum::body::to_bytes\<close>.\<close>

record 'u net_lib =
  url_parse :: "string \<Rightarrow> ('u, string) outcome"
  base64_decode :: "bytes \<Rightarrow> (bytes, string) outcome"
  body_to_bytes :: "bytes \<Rightarrow> nat \<Rightarrow> (bytes, string) outcome"

text \<open>All the libraries of the handler together.\<close>

record ('h, 'v, 'j, 'm, 'c, 'u, 'r, 'es, 'ek, 'ei, 'ds, 'dk, 'di) libs =
  http :: "('h, 'v) http_lib"
  codec :: "('j, 'm, 'c) codec_lib"
  net :: "'u net_lib"
  redis :: "'r redis_lib"
  tok :: token_lib
  ecdsa_lib :: "('es, 'ek, 'ei) sign_lib"
  ed25519_lib :: "('ds, 'dk, 'di) sign_lib"

type_synonym proxy_error = "u16 \<times> string"

record ('r, 'h, 'u) proxy_env =
  now_verify :: u64
  now_obtain :: u64
  poll_clock :: "nat \<Rightarrow> u64"
  poll_others :: "'r others"
  http_client :: "('h, 'u) upstream_request \<Rightarrow> ('h upstream_response, string) outcome"
  meanwhile :: "'r cacher_entry \<Rightarrow> 'r cacher_entry"
  now_store :: u64

section \<open>Helpers\<close>

definition bad_gateway :: "string \<Rightarrow> proxy_error" where
  "bad_gateway err = (502, err)"

definition extract_header :: "('h, 'v) http_lib \<Rightarrow> 'h \<Rightarrow> string \<Rightarrow> string \<Rightarrow> string" where
  "extract_header H hm key dflt =
     (case hm_get H hm key of
        None \<Rightarrow> dflt
      | Some v \<Rightarrow> (case hv_to_str H v of Some s \<Rightarrow> s | None \<Rightarrow> dflt))"

definition substitute_var :: "('h, 'v) http_lib \<Rightarrow> (string \<times> 'v) list \<Rightarrow> 'v \<Rightarrow> 'v" where
  "substitute_var H vars val =
     (case hv_to_str H val of
        None \<Rightarrow> val
      | Some s \<Rightarrow> (case map_of vars s of None \<Rightarrow> val | Some v \<Rightarrow> v))"

definition alter_headers :: "('h, 'v) http_lib \<Rightarrow> ('v, 'ek, 'dk) app_state \<Rightarrow> 'h \<Rightarrow> 'h" where
  "alter_headers H app headers =
     (let headers = hm_remove H HOST headers;
          headers = hm_remove H FORWARDED headers;
          headers = hm_remove H HEADER_PROXY_AUTHORIZATION headers;
          headers = hm_remove H HEADER_X_FORWARDED_FOR headers;
          headers = hm_remove H HEADER_X_FORWARDED_HOST headers;
          headers = hm_remove H HEADER_X_FORWARDED_PROTO headers
      in if header_vars app \<noteq> [] then hm_map_values H (substitute_var H (header_vars app)) headers
         else headers)"

definition verify_token :: "('h, 'v, 'j, 'm, 'c, 'u, 'r, 'es, 'ek, 'ei, 'ds, 'dk, 'di) libs
    \<Rightarrow> ('v, 'ek, 'dk) app_state \<Rightarrow> string \<Rightarrow> u64 \<Rightarrow> (string, string) outcome" where
  "verify_token L app access_token now =
     (case strip_prefix access_token ''Bearer '' of
        None \<Rightarrow> Err ''invalid proxy-authorization header''
      | Some encoded \<Rightarrow>
          and_then (base64_decode (net L) encoded) (\<lambda>token.
            if ecdsa_pub_keys app \<noteq> []
            then map_err (\<lambda>err. ''proxy authentication verify failed: '' @ err)
                   (map_ok tok_agent (ecdsa_verify (tok L) (ecdsa_lib L) (ecdsa_pub_keys app) token now))
            else if ed25519_pub_keys app \<noteq> []
            then map_err (\<lambda>err. ''proxy authentication verify failed: '' @ err)
                   (map_ok tok_agent (ed25519_verify (tok L) (ed25519_lib L) (ed25519_pub_keys app) token now))
            else Err ''proxy authentication verify failed''))"

section \<open>The handler before the cache\<close>

definition access_control :: "('h, 'v, 'j, 'm, 'c, 'u, 'r, 'es, 'ek, 'ei, 'ds, 'dk, 'di) libs
    \<Rightarrow> ('v, 'ek, 'dk) app_state \<Rightarrow> 'h request \<Rightarrow> u64 \<Rightarrow> (string, proxy_error) outcome" where
  "access_control L app req now =
     and_then
       (if ecdsa_pub_keys app \<noteq> [] \<or> ed25519_pub_keys app \<noteq> []
        then map_err (\<lambda>err. (407, err))
               (verify_token L app (extract_header (http L) (req_headers req) HEADER_PROXY_AUTHORIZATION []) now)
        else Ok ''ANON'')
       (\<lambda>agent.
          if agents app \<noteq> [] \<and> agent \<notin> set (agents app)
          then Err (403, ''agent '' @ agent @ '' is not allowed'')
          else Ok agent)"

definition target_url :: "('h, 'v, 'j, 'm, 'c, 'u, 'r, 'es, 'ek, 'ei, 'ds, 'dk, 'di) libs
    \<Rightarrow> ('v, 'ek, 'dk) app_state \<Rightarrow> 'h request \<Rightarrow> ('u, proxy_error) outcome" where
  "target_url L app req =
     and_then
       (if starts_with (req_path req) ''/URL_''
        then (let url = (case strip_prefix (req_path req) ''/'' of
                           None \<Rightarrow> []
                         | Some name \<Rightarrow> (case map_of (url_vars app) name of None \<Rightarrow> [] | Some u \<Rightarrow> u))
              in if starts_with url ''http'' then Ok url else Err (400, ''invalid url: '' @ url))
        else (let host = extract_header (http L) (req_headers req) HEADER_X_FORWARDED_HOST []
              in if host = [] then Err (400, ''missing header: x-forwarded-host'')
                 else Ok (''https://'' @ host @
                   (case req_path_and_query req of None \<Rightarrow> req_path req | Some pq \<Rightarrow> pq))))
       (\<lambda>url. map_err (\<lambda>err. (400, err)) (url_parse (net L) url))"

definition cache_key :: "string \<Rightarrow> string \<Rightarrow> string \<Rightarrow> string" where
  "cache_key agent m key = agent @ '':'' @ m @ '':'' @ key"

definition idempotency_key :: "('h, 'v) http_lib \<Rightarrow> string \<Rightarrow> 'h request \<Rightarrow> (string, proxy_error) outcome" where
  "idempotency_key H agent req =
     (let key = extract_header H (req_headers req) HEADER_IDEMPOTENCY_KEY []
      in if key = [] then Err (400, ''missing header: idempotency-key'')
         else Ok (cache_key agent (req_method req) key))"

record 'u admitted =
  adm_agent :: string
  adm_url :: 'u
  adm_key :: string

definition admit :: "('h, 'v, 'j, 'm, 'c, 'u, 'r, 'es, 'ek, 'ei, 'ds, 'dk, 'di) libs
    \<Rightarrow> ('v, 'ek, 'dk) app_state \<Rightarrow> 'h request \<Rightarrow> u64 \<Rightarrow> ('u admitted, proxy_error) outcome" where
  "admit L app req now =
     and_then (access_control L app req now) (\<lambda>agent.
     and_then (target_url L app req) (\<lambda>url.
     and_then (idempotency_key (http L) agent req) (\<lambda>key.
       Ok \<lparr>adm_agent = agent, adm_url = url, adm_key = key\<rparr>)))"

section \<open>The first request of a key: forwarding\<close>

definition MAX_BODY :: nat where
  "MAX_BODY = 1024 * 1024"

definition build_upstream :: "('h, 'v, 'j, 'm, 'c, 'u, 'r, 'es, 'ek, 'ei, 'ds, 'dk, 'di) libs
    \<Rightarrow> ('v, 'ek, 'dk) app_state \<Rightarrow> 'h request \<Rightarrow> 'u \<Rightarrow> (('h, 'u) upstream_request, proxy_error) outcome" where
  "build_upstream L app req url =
     (let headers = alter_headers (http L) app (req_headers req)
      in if method_is_safe (http L) (req_method req)
         then Ok \<lparr>up_method = req_method req, up_url = url, up_headers = headers, up_body = None\<rparr>
         else and_then (map_err (\<lambda>err. (400, err)) (body_to_bytes (net L) (req_body req) MAX_BODY)) (\<lambda>body.
           Ok \<lparr>up_method = req_method req, up_url = url, up_headers = headers, up_body = Some body\<rparr>))"

text \<open>What is done with the upstream's answer: keep a response, or pass an error on.\<close>

datatype verdict = Store response_data bytes | Discard u16 string

definition handle_response :: "('h, 'v, 'j, 'm, 'c, 'u, 'r, 'es, 'ek, 'ei, 'ds, 'dk, 'di) libs
    \<Rightarrow> 'h request \<Rightarrow> 'h upstream_response \<Rightarrow> (verdict, proxy_error) outcome" where
  "handle_response L req rres =
     and_then (map_err bad_gateway (ur_bytes rres)) (\<lambda>res_body.
       if 200 \<le> ur_status rres \<and> ur_status rres \<le> 500 then
         (let rd = with_headers (http L) (response_new (ur_status rres)) (ur_headers rres)
                     (extract_header (http L) (req_headers req) HEADER_RESPONSE_HEADERS [])
          in and_then (map_err bad_gateway (with_body (codec L) rd res_body
                 (extract_header (http L) (req_headers req) HEADER_X_JSON_MASK []))) (\<lambda>rd.
             and_then (map_err bad_gateway (to_bytes (codec L) rd)) (\<lambda>data.
               Ok (Store rd data))))
       else Ok (Discard (ur_status rres) (from_utf8_lossy res_body)))"

section \<open>The handler\<close>

text \<open>
  The result of a run: the response or the error, the cache afterwards, and the request sent
  upstream, if one was. The three parts are those of a request that found the key taken
  (\<open>follow\<close>), of one that took it (\<open>lead\<close>), and the handler itself.
\<close>

type_synonym ('r, 'h, 'u) proxy_result =
  "(response_data, proxy_error) outcome \<times> 'r hybrid_cacher \<times> ('h, 'u) upstream_request option"

definition follow :: "('h, 'v, 'j, 'm, 'c, 'u, 'r, 'es, 'ek, 'ei, 'ds, 'dk, 'di) libs
    \<Rightarrow> ('r, 'h, 'u) proxy_env \<Rightarrow> string \<Rightarrow> 'r hybrid_cacher \<Rightarrow> ('r, 'h, 'u) proxy_result" where
  "follow L env key h =
     (if poll_interval h = 0 then (Panic ''attempt to divide by zero'', h, None)
      else (case hybrid_polling_get (redis L) (poll_clock env) (poll_others env) h key
                   (unat (cache_ttl h div poll_interval h)) of
        (r, h') \<Rightarrow>
          (and_then (map_err bad_gateway r) (\<lambda>data.
             map_err bad_gateway (response_try_from (codec L) data)), h', None)))"

definition conclude :: "'r redis_lib \<Rightarrow> u64 \<Rightarrow> string \<Rightarrow> verdict \<Rightarrow> 'r hybrid_cacher
    \<Rightarrow> (response_data, proxy_error) outcome \<times> 'r hybrid_cacher" where
  "conclude R now key v h =
     (case v of
        Store rd data \<Rightarrow>
          (case hybrid_set R h now key data (cache_ttl h) of
             (r, h') \<Rightarrow> (and_then (map_err bad_gateway r) (\<lambda>_. Ok rd), h'))
      | Discard status msg \<Rightarrow>
          (case hybrid_del R h now key of
             (Panic m, h') \<Rightarrow> (Panic m, h')
           | (_, h') \<Rightarrow> (Err (status, msg), h')))"

definition lead :: "('h, 'v, 'j, 'm, 'c, 'u, 'r, 'es, 'ek, 'ei, 'ds, 'dk, 'di) libs
    \<Rightarrow> ('v, 'ek, 'dk) app_state \<Rightarrow> ('r, 'h, 'u) proxy_env \<Rightarrow> 'h request \<Rightarrow> 'u admitted
    \<Rightarrow> 'r hybrid_cacher \<Rightarrow> ('r, 'h, 'u) proxy_result" where
  "lead L app env req adm h =
     (case build_upstream L app req (adm_url adm) of
        Err e \<Rightarrow> (Err e, h, None)
      | Panic m \<Rightarrow> (Panic m, h, None)
      | Ok up \<Rightarrow>
          (let h' = h\<lparr>cache := meanwhile env (cache h)\<rparr>
           in case and_then (map_err bad_gateway (http_client env up)) (handle_response L req) of
                Err e \<Rightarrow> (Err e, h', Some up)
              | Panic m \<Rightarrow> (Panic m, h', Some up)
              | Ok v \<Rightarrow> (case conclude (redis L) (now_store env) (adm_key adm) v h' of
                  (r, h'') \<Rightarrow> (r, h'', Some up))))"

definition proxy :: "('h, 'v, 'j, 'm, 'c, 'u, 'r, 'es, 'ek, 'ei, 'ds, 'dk, 'di) libs
    \<Rightarrow> ('v, 'ek, 'dk) app_state \<Rightarrow> ('r, 'h, 'u) proxy_env \<Rightarrow> 'h request \<Rightarrow> 'r hybrid_cacher
    \<Rightarrow> ('r, 'h, 'u) proxy_result" where
  "proxy L app env req h =
     (case admit L app req (now_verify env) of
        Err e \<Rightarrow> (Err e, h, None)
      | Panic m \<Rightarrow> (Panic m, h, None)
      | Ok adm \<Rightarrow>
          (case hybrid_obtain (redis L) h (now_obtain env) (adm_key adm) (cache_ttl h) of
             (Err e, h') \<Rightarrow> (Err (bad_gateway e), h', None)
           | (Panic m, h') \<Rightarrow> (Panic m, h', None)
           | (Ok False, h') \<Rightarrow> follow L env (adm_key adm) h'
           | (Ok True, h') \<Rightarrow> lead L app env req adm h'))"

section \<open>Lemmas\<close>

lemma hybrid_config [simp]:
  "hybrid_obtain R h now k ttl = (r, h') \<Longrightarrow> cache_ttl h' = cache_ttl h \<and> poll_interval h' = poll_interval h"
  "hybrid_set R h now k v ttl = (r, h') \<Longrightarrow> cache_ttl h' = cache_ttl h \<and> poll_interval h' = poll_interval h"
  "hybrid_del R h now k = (d, h') \<Longrightarrow> cache_ttl h' = cache_ttl h \<and> poll_interval h' = poll_interval h"
  "hybrid_poll R h now k = (p, h') \<Longrightarrow> cache_ttl h' = cache_ttl h \<and> poll_interval h' = poll_interval h"
  by (auto simp: hybrid_obtain_def hybrid_set_def hybrid_del_def hybrid_poll_def
      split: cacher_entry.splits prod.splits)

lemma follow_never_forwards: "snd (snd (follow L env key h)) = None"
  by (simp add: follow_def split: prod.splits)

text \<open>The handler by what its \<open>obtain\<close> answers.\<close>

lemma proxy_lead:
  assumes "admit L app req (now_verify env) = Ok adm"
    and "hybrid_obtain (redis L) h (now_obtain env) (adm_key adm) (cache_ttl h) = (Ok True, g)"
  shows "proxy L app env req h = lead L app env req adm g"
  using assms by (simp add: proxy_def)

lemma proxy_follow:
  assumes "admit L app req (now_verify env) = Ok adm"
    and "hybrid_obtain (redis L) h (now_obtain env) (adm_key adm) (cache_ttl h) = (Ok False, g)"
  shows "proxy L app env req h = follow L env (adm_key adm) g"
  using assms by (simp add: proxy_def)

lemma proxy_forwards_cases:
  assumes "proxy L app env req h = (r, h', Some up)"
  obtains adm g where "admit L app req (now_verify env) = Ok adm"
    and "hybrid_obtain (redis L) h (now_obtain env) (adm_key adm) (cache_ttl h) = (Ok True, g)"
    and "lead L app env req adm g = (r, h', Some up)"
proof -
  have f: "follow L env key g \<noteq> (r, h', Some up)" for key g
    using follow_never_forwards [of L env key g] by (metis option.distinct(1) snd_conv)
  from assms obtain adm where a: "admit L app req (now_verify env) = Ok adm"
    by (cases "admit L app req (now_verify env)") (auto simp: proxy_def)
  obtain x g where o: "hybrid_obtain (redis L) h (now_obtain env) (adm_key adm) (cache_ttl h) = (x, g)"
    by fastforce
  from assms a o f have "x = Ok True"
    by (cases x) (auto simp: proxy_def split: bool.splits)
  with assms a o that show thesis by (simp add: proxy_def)
qed

lemma lead_forwards:
  assumes "lead L app env req adm g = (r, h', Some up)"
  shows "build_upstream L app req (adm_url adm) = Ok up"
  using assms
  by (auto simp: lead_def Let_def split: outcome.splits prod.splits)

lemma lead_upstream:
  assumes "build_upstream L app req (adm_url adm) = Ok up"
  shows "lead L app env req adm g =
    (let h' = g\<lparr>cache := meanwhile env (cache g)\<rparr>
     in case and_then (map_err bad_gateway (http_client env up)) (handle_response L req) of
          Err e \<Rightarrow> (Err e, h', Some up)
        | Panic m \<Rightarrow> (Panic m, h', Some up)
        | Ok v \<Rightarrow> (case conclude (redis L) (now_store env) (adm_key adm) v h' of
            (r, h'') \<Rightarrow> (r, h'', Some up)))"
  using assms by (simp add: lead_def)

lemma admit_cases:
  assumes "admit L app req now = Ok adm"
  obtains key where "access_control L app req now = Ok (adm_agent adm)"
    and "target_url L app req = Ok (adm_url adm)"
    and "adm_key adm = cache_key (adm_agent adm) (req_method req) key" and "key \<noteq> []"
    and "key = extract_header (http L) (req_headers req) HEADER_IDEMPOTENCY_KEY []"
  using assms by (auto simp: admit_def idempotency_key_def Let_def split: if_splits)

end
