(* ===== verification/Proxy_Properties.thy ===== *)
theory Proxy_Properties
  imports Handler
begin

text \<open>
  What one run of the handler of \<open>Handler\<close> does, for any libraries: who gets through access
  control, what is sent upstream, what a second request with the same key gets, and what a
  failure leaves behind. Runs that interleave are the subject of \<open>Proxy_System\<close>.
\<close>

section \<open>Access control\<close>

text \<open>
  The agent of a request, said without the control flow: the token decodes, has not expired, and
  is signed by a configured key of the scheme in force; without keys, everyone is \<open>ANON\<close>.
\<close>

definition authorised :: "('h, 'v, 'j, 'm, 'c, 'u, 'r, 'es, 'ek, 'ei, 'ds, 'dk, 'di) libs
    \<Rightarrow> ('v, 'ek, 'dk) app_state \<Rightarrow> 'h request \<Rightarrow> u64 \<Rightarrow> string \<Rightarrow> bool" where
  "authorised L app req now agent \<longleftrightarrow>
     (agents app = [] \<or> agent \<in> set (agents app)) \<and>
     (if ecdsa_pub_keys app = [] \<and> ed25519_pub_keys app = [] then agent = ''ANON''
      else (\<exists>encoded data t.
        extract_header (http L) (req_headers req) HEADER_PROXY_AUTHORIZATION [] = ''Bearer '' @ encoded \<and>
        base64_decode (net L) encoded = Ok data \<and> token_from_reader (tok L) data = Some t \<and>
        \<not> token_expired t now \<and> tok_agent t = agent \<and>
        (if ecdsa_pub_keys app \<noteq> []
         then \<exists>key\<in>set (ecdsa_pub_keys app). ecdsa_authentic (tok L) (ecdsa_lib L) key t
         else \<exists>key\<in>set (ed25519_pub_keys app). ed25519_authentic (tok L) (ed25519_lib L) key t)))"

lemma strip_prefix_eq: "strip_prefix s p = (if \<exists>t. s = p @ t then Some (drop (length p) s) else None)"
  by (auto simp: strip_prefix_def starts_with_def prefix_def)

lemma strip_prefix_Some: "strip_prefix s p = Some t \<longleftrightarrow> s = p @ t"
  by (auto simp: strip_prefix_eq)

lemma verify_token_bearer:
  "verify_token L app (''Bearer '' @ encoded) now = Ok agent \<longleftrightarrow>
     (\<exists>data t. base64_decode (net L) encoded = Ok data \<and> tok_agent t = agent \<and>
        (if ecdsa_pub_keys app \<noteq> []
         then ecdsa_verify (tok L) (ecdsa_lib L) (ecdsa_pub_keys app) data now = Ok t
         else ed25519_pub_keys app \<noteq> [] \<and>
           ed25519_verify (tok L) (ed25519_lib L) (ed25519_pub_keys app) data now = Ok t))"
  unfolding verify_token_def strip_prefix_append
  by (cases "ecdsa_pub_keys app = []"; cases "ed25519_pub_keys app = []") auto

lemma verify_token_Ok:
  "verify_token L app s now = Ok agent \<longleftrightarrow>
     (\<exists>encoded. s = ''Bearer '' @ encoded \<and> verify_token L app (''Bearer '' @ encoded) now = Ok agent)"
proof (cases "strip_prefix s ''Bearer ''")
  case None
  then have "\<nexists>t. s = ''Bearer '' @ t" using strip_prefix_Some [of s "''Bearer ''"] by (metis option.distinct(1))
  moreover from None have "verify_token L app s now \<noteq> Ok agent" unfolding verify_token_def by simp
  ultimately show ?thesis by blast
next
  case (Some t)
  then have "s = ''Bearer '' @ t" by (simp only: strip_prefix_Some)
  then show ?thesis by blast
qed

lemma access_control_Ok: "access_control L app req now = Ok agent \<longleftrightarrow> authorised L app req now agent"
proof (cases "ecdsa_pub_keys app = [] \<and> ed25519_pub_keys app = []")
  case True
  then show ?thesis by (auto simp: access_control_def authorised_def)
next
  case False
  let ?s = "extract_header (http L) (req_headers req) HEADER_PROXY_AUTHORIZATION []"
  from False have "access_control L app req now = Ok agent \<longleftrightarrow>
      (agents app = [] \<or> agent \<in> set (agents app)) \<and> verify_token L app ?s now = Ok agent"
    by (auto simp: access_control_def)
  also have "\<dots> \<longleftrightarrow> authorised L app req now agent"
    unfolding verify_token_Ok [of L app ?s] verify_token_bearer authorised_def ecdsa.ver_Ok ed25519.ver_Ok
    using False by auto
  finally show ?thesis .
qed

lemma proxy_not_admitted:
  "admit L app req (now_verify env) \<noteq> Ok adm \<Longrightarrow> (\<And>a. admit L app req (now_verify env) \<noteq> Ok a) \<Longrightarrow>
     \<exists>r. proxy L app env req h = (r, h, None) \<and> (\<forall>rd. r \<noteq> Ok rd)"
  by (cases "admit L app req (now_verify env)") (auto simp: proxy_def)

lemma admit_authorised:
  "admit L app req now = Ok adm \<Longrightarrow> authorised L app req now (adm_agent adm)"
  by (erule admit_cases) (simp add: access_control_Ok)

section \<open>Headers\<close>

definition proxy_header_names :: "string list" where
  "proxy_header_names = [''host'', ''forwarded'', ''proxy-authorization'', ''x-forwarded-for'',
     ''x-forwarded-host'', ''x-forwarded-proto'']"

lemma substitute_no_vars: "substitute_var H [] = (\<lambda>v. v)"
  by (auto simp: substitute_var_def fun_eq_iff split: option.splits)

lemma hm_get_all_alter_headers:
  assumes "header_map_documented H"
  shows "hm_get_all H (alter_headers H app hs) k =
    (if k \<in> set proxy_header_names then []
     else map (substitute_var H (header_vars app)) (hm_get_all H hs k))"
  using assms
  by (auto simp: substitute_no_vars alter_headers_def Let_def hm_get_all_remove hm_get_all_map_values proxy_header_names_def
      HEADER_PROXY_AUTHORIZATION_def HEADER_X_FORWARDED_FOR_def HEADER_X_FORWARDED_HOST_def
      HEADER_X_FORWARDED_PROTO_def)

section \<open>A key that is taken, and a key that holds a response\<close>

text \<open>The handler against the contract of the cache, which the hybrid cache satisfies.\<close>

definition response_codec_documented :: "('j, 'm, 'c) codec_lib \<Rightarrow> bool" where
  "response_codec_documented C \<longleftrightarrow>
     (\<forall>rd bs. response_encode C rd = Ok bs \<longrightarrow> response_decode C bs = Ok rd \<and> 1 < length bs)"

lemma proxy_forwards_free:
  assumes "redis_documented (redis L) view" and "proxy L app env req h = (r, h', Some up)"
  obtains adm g where "admit L app req (now_verify env) = Ok adm"
    and "hybrid_live view h (now_obtain env) (adm_key adm) = None"
    and "hybrid_obtain (redis L) h (now_obtain env) (adm_key adm) (cache_ttl h) = (Ok True, g)"
    and "lead L app env req adm g = (r, h', Some up)"
proof -
  from assms(2) obtain adm g where a: "admit L app req (now_verify env) = Ok adm"
      and o: "hybrid_obtain (redis L) h (now_obtain env) (adm_key adm) (cache_ttl h) = (Ok True, g)"
      and l: "lead L app env req adm g = (r, h', Some up)"
    by (rule proxy_forwards_cases)
  from cacher.obt_Ok [OF hybrid_is_cacher [OF assms(1)] o]
  have "hybrid_live view h (now_obtain env) (adm_key adm) = None" by simp
  with a o l that show thesis by blast
qed

lemma proxy_live_not_forwarded:
  assumes "redis_documented (redis L) view" and "admit L app req (now_verify env) = Ok adm"
    and "hybrid_live view h (now_obtain env) (adm_key adm) \<noteq> None"
  shows "snd (snd (proxy L app env req h)) = None"
proof (rule ccontr)
  assume "snd (snd (proxy L app env req h)) \<noteq> None"
  then obtain r h' up where "proxy L app env req h = (r, h', Some up)"
    by (metis not_None_eq prod.collapse)
  from proxy_forwards_free [OF assms(1) this] assms(2,3) show False by (metis outcome.inject(1))
qed

text \<open>One round of polling a key that holds a response ends with it, or with an error of Redis.\<close>

lemma hybrid_rounds_answer:
  assumes "redis_documented R view" and "hybrid_live view h (clk n) key = Some (Ready v)" and "0 < n"
  shows "fst (hybrid_rounds R clk o1 h key n) = Ok v \<or>
    (\<exists>e. fst (hybrid_rounds R clk o1 h key n) = Err e)"
proof -
  obtain m where n: "n = Suc m" using assms(3) by (cases n) auto
  obtain p h' where p: "hybrid_poll R h (clk (Suc m)) key = (p, h')" by fastforce
  from cacher.pol_Ready [OF hybrid_is_cacher [OF assms(1)] p, of v] assms(2) n
  have "p = PollDone (Ok v) \<or> (\<exists>e. p = PollDone (Err e))" by simp
  with n p show ?thesis by auto
qed

lemma hybrid_memory_answer:
  assumes "cache h = Memory m" and "mem_live m (clk n) key = Some (Ready v)" and "0 < n"
  shows "fst (hybrid_rounds R clk o1 h key n) = Ok v"
proof -
  obtain j where n: "n = Suc j" using assms(3) by (cases n) auto
  from mem_poll_result [OF assms(2)] assms(1) n show ?thesis
    by (auto simp: hybrid_poll_def split: prod.splits)
qed

lemma follow_answer:
  assumes "redis_documented (redis L) view" and "response_codec_documented (codec L)"
    and "response_encode (codec L) rd = Ok bs"
    and "poll_interval h \<noteq> 0" and "poll_interval h \<le> cache_ttl h"
    and "hybrid_live view h (poll_clock env (unat (cache_ttl h div poll_interval h))) key = Some (Ready bs)"
  shows "fst (follow L env key h) = Ok rd \<or> (\<forall>rd'. fst (follow L env key h) \<noteq> Ok rd')"
    and "cache h = Memory m \<Longrightarrow> fst (follow L env key h) = Ok rd"
proof -
  let ?n = "unat (cache_ttl h div poll_interval h)"
  have p: "0 < unat (poll_interval h)" using assms(4) unat_gt_0 by blast
  then have n: "0 < ?n"
    using assms(5) by (simp add: unat_div word_le_nat_alt div_greater_zero_iff)
  have d: "response_try_from (codec L) bs = Ok rd"
    using assms(2,3) by (auto simp: response_codec_documented_def response_try_from_def)
  let ?r = "hybrid_rounds (redis L) (poll_clock env) (poll_others env) h key ?n"
  have f: "fst (follow L env key h) = (case hybrid_poll_start (redis L) h of
      Ok _ \<Rightarrow> and_then (map_err bad_gateway (fst ?r)) (\<lambda>data. map_err bad_gateway (response_try_from (codec L) data))
    | Err e \<Rightarrow> Err (bad_gateway e) | Panic m \<Rightarrow> Panic m)"
    using assms(4) by (simp add: follow_def hybrid_polling_rounds split: outcome.splits prod.splits)
  show "fst (follow L env key h) = Ok rd \<or> (\<forall>rd'. fst (follow L env key h) \<noteq> Ok rd')"
    using hybrid_rounds_answer [of "redis L" view h "poll_clock env" ?n key bs "poll_others env"] assms(1,6) n d
    by (auto simp: f split: outcome.splits)
  assume m: "cache h = Memory m"
  with assms(6) have "mem_live m (poll_clock env ?n) key = Some (Ready bs)" by simp
  from hybrid_memory_answer [of h m "poll_clock env" ?n, OF m this n] m d show "fst (follow L env key h) = Ok rd"
    by (simp add: f hybrid_poll_start_def)
qed

text \<open>A leader that answers has stored what it answers, unless the lock was gone by then.\<close>

lemma handle_response_Store:
  assumes "handle_response L req rres = Ok (Store rd bs)"
  shows "response_encode (codec L) rd = Ok bs"
  using assms by (auto simp: handle_response_def Let_def to_bytes_def split: if_splits)

lemma lead_stores:
  assumes "lead L app env req adm g = (Ok rd, h', Some up)"
  obtains bs b where "response_encode (codec L) rd = Ok bs"
    and "hybrid_set (redis L) (g\<lparr>cache := meanwhile env (cache g)\<rparr>) (now_store env) (adm_key adm) bs
      (cache_ttl g) = (Ok b, h')"
proof -
  let ?g = "g\<lparr>cache := meanwhile env (cache g)\<rparr>"
  from lead_upstream [OF lead_forwards [OF assms]] assms
  obtain v where v: "and_then (map_err bad_gateway (http_client env up)) (handle_response L req) = Ok v"
      and c: "conclude (redis L) (now_store env) (adm_key adm) v ?g = (Ok rd, h')"
    by (auto simp: Let_def split: outcome.splits prod.splits)
  from c obtain bs b where s: "v = Store rd bs"
      and b: "hybrid_set (redis L) ?g (now_store env) (adm_key adm) bs (cache_ttl g) = (Ok b, h')"
    by (auto simp: conclude_def split: verdict.splits prod.splits outcome.splits)
  from v s have "response_encode (codec L) rd = Ok bs" by (auto dest: handle_response_Store)
  with b that show thesis by blast
qed

lemma lead_answers:
  assumes "redis_documented (redis L) view" and "response_codec_documented (codec L)"
    and "lead L app env req adm g = (Ok rd, h', Some up)"
    and "hybrid_live view (g\<lparr>cache := meanwhile env (cache g)\<rparr>) (now_store env) (adm_key adm) \<noteq> None"
    and "no_overflow (now_store env) (cache_ttl g)"
  obtains bs where "response_encode (codec L) rd = Ok bs"
    and "cacher.answers (hybrid_live view) h' (now_store env) (adm_key adm) bs (now_store env + cache_ttl g)"
    and "cache_ttl h' = cache_ttl g" and "poll_interval h' = poll_interval g"
proof -
  note C = hybrid_is_cacher [OF assms(1)]
  from assms(3) obtain bs b where e: "response_encode (codec L) rd = Ok bs"
      and s: "hybrid_set (redis L) (g\<lparr>cache := meanwhile env (cache g)\<rparr>) (now_store env) (adm_key adm) bs
        (cache_ttl g) = (Ok b, h')"
    by (rule lead_stores)
  from cacher.put_Ok [OF C s] assms(4) have "b = True" by simp
  with s have "cacher.answers (hybrid_live view) h' (now_store env) (adm_key adm) bs (now_store env + cache_ttl g)"
    using cacher.put_answers [OF C _ assms(5)] e assms(2) by (simp add: response_codec_documented_def)
  with e s that show thesis by (auto dest: hybrid_config)
qed

lemma sample_codec_documented: "response_codec_documented sample_codec"
proof -
  have pos: "0 < length (enc_str s)" for s by (cases s) auto
  have "1 < length (sample_encode rd)" for rd
    unfolding sample_encode_def length_append
    using pos [of "replicate (unat (rd_status rd)) CHR ''x''"] pos [of "rd_body rd"] by linarith
  then show ?thesis by (simp add: response_codec_documented_def sample_codec_def sample_roundtrip)
qed

section \<open>Runs that cannot panic\<close>

text \<open>
  The libraries report errors as values: none of the calls the handler makes panics, and the pair
  of expiry time and agent always has an encoding (the code expects it to).
\<close>

definition libs_report_errors :: "('h, 'v, 'j, 'm, 'c, 'u, 'r, 'es, 'ek, 'ei, 'ds, 'dk, 'di) libs \<Rightarrow> bool" where
  "libs_report_errors L \<longleftrightarrow>
     (\<forall>b. \<not> is_panic (base64_decode (net L) b)) \<and> (\<forall>s. \<not> is_panic (url_parse (net L) s)) \<and>
     (\<forall>b n. \<not> is_panic (body_to_bytes (net L) b n)) \<and> (\<forall>p. \<exists>b. cbor_pair (tok L) p = Ok b) \<and>
     (\<forall>b. \<not> is_panic (json_from_slice (codec L) b)) \<and> (\<forall>m. \<not> is_panic (json_map_to_vec (codec L) m)) \<and>
     (\<forall>b. \<not> is_panic (cbor_from_reader (codec L) b)) \<and> (\<forall>v. \<not> is_panic (cbor_into_writer (codec L) v)) \<and>
     (\<forall>rd. \<not> is_panic (response_encode (codec L) rd)) \<and> (\<forall>b. \<not> is_panic (response_decode (codec L) b))"

lemma is_panic_try_keys [simp]: "\<not> is_panic (try_keys ok keys t msg)"
  by (induction keys) auto

lemma verify_no_panic:
  assumes "\<forall>p. \<exists>b. cbor_pair A p = Ok b"
  shows "\<not> is_panic (ecdsa_verify A E keys data now)" and "\<not> is_panic (ed25519_verify A E' keys' data now)"
proof -
  have "\<exists>b. cbor_pair A (tok_expire t, tok_agent t) = Ok b" for t using assms by blast
  then have "\<not> is_panic (expect msg (cbor_pair A (tok_expire t, tok_agent t)))" for t msg
    by (metis expect.simps(1) is_panic.simps(2))
  then show "\<not> is_panic (ecdsa_verify A E keys data now)" "\<not> is_panic (ed25519_verify A E' keys' data now)"
    by (auto simp: ecdsa_verify_def ed25519_verify_def Let_def split: if_splits)
qed

lemma verify_token_no_panic: "libs_report_errors L \<Longrightarrow> \<not> is_panic (verify_token L app s now)"
  by (auto simp: libs_report_errors_def verify_token_def verify_no_panic split: option.splits)

lemma target_url_no_panic: "libs_report_errors L \<Longrightarrow> \<not> is_panic (target_url L app req)"
  by (auto simp: libs_report_errors_def target_url_def Let_def)

lemma admit_no_panic: "libs_report_errors L \<Longrightarrow> \<not> is_panic (admit L app req now)"
  by (auto simp: admit_def access_control_def verify_token_no_panic target_url_no_panic
      idempotency_key_def Let_def)

lemma build_no_panic: "libs_report_errors L \<Longrightarrow> \<not> is_panic (build_upstream L app req url)"
  by (auto simp: libs_report_errors_def build_upstream_def Let_def split: if_splits)

lemma with_body_no_panic: "libs_report_errors L \<Longrightarrow> \<not> is_panic (with_body (codec L) rd b f)"
  by (auto simp: libs_report_errors_def with_body_def Let_def split: if_splits)

lemma handle_no_panic: "libs_report_errors L \<Longrightarrow> \<not> is_panic (ur_bytes rres) \<Longrightarrow> \<not> is_panic (handle_response L req rres)"
  using with_body_no_panic
  by (auto simp: handle_response_def Let_def to_bytes_def libs_report_errors_def split: if_splits)

lemma mem_no_panic:
  "\<not> is_panic (fst (mem_obtain m now k ttl))" "\<not> is_panic (fst (mem_set m now k v ttl))"
  "\<not> is_panic (fst (mem_del m k))" "fst (mem_poll m now k) \<noteq> PollDone (Panic s)"
  by (auto simp: mem_obtain_alt mem_set_alt mem_del_alt mem_poll_def Let_def split: option.splits)

lemma mem_polling_no_panic: "\<not> is_panic (fst (mem_polling_get clk env m k n))"
proof (induction n arbitrary: m)
  case 0
  then show ?case by simp
next
  case (Suc n)
  obtain p m' where p: "mem_poll m (clk (Suc n)) k = (p, m')" by fastforce
  with mem_no_panic(4) [of m "clk (Suc n)" k] Suc show ?case by (cases p) (auto simp: is_panic_iff)
qed

text \<open>A run on a cache that is, and stays, the in-memory one.\<close>

lemma follow_no_panic:
  assumes "libs_report_errors L" and "cache h = Memory m" and "poll_interval h \<noteq> 0"
  shows "\<not> is_panic (fst (follow L env key h))"
  using assms mem_polling_no_panic
  by (auto simp: follow_def hybrid_polling_get_def response_try_from_def libs_report_errors_def split: prod.splits)
    (metis fst_conv)

lemma conclude_no_panic: "cache h = Memory m \<Longrightarrow> \<not> is_panic (fst (conclude R now key v h))"
  using mem_no_panic(2)
  by (auto simp: conclude_def hybrid_set_def hybrid_del_def mem_del_alt split: verdict.splits prod.splits)
    (metis fst_conv)

lemma lead_no_panic:
  assumes "libs_report_errors L" and "meanwhile env (cache g) = Memory m'"
    and "\<And>up. \<not> is_panic (http_client env up)"
    and "\<And>up rres. http_client env up = Ok rres \<Longrightarrow> \<not> is_panic (ur_bytes rres)"
  shows "\<not> is_panic (fst (lead L app env req adm g))"
proof (cases "build_upstream L app req (adm_url adm)")
  case (Ok up)
  let ?r = "and_then (map_err bad_gateway (http_client env up)) (handle_response L req)"
  have "\<not> is_panic ?r" using assms(3,4) handle_no_panic [OF assms(1)] by auto
  moreover have "\<not> is_panic (fst (conclude (redis L) (now_store env) (adm_key adm) v (g\<lparr>cache := meanwhile env (cache g)\<rparr>)))" for v
    by (rule conclude_no_panic [of _ m']) (simp add: assms(2))
  ultimately show ?thesis
    unfolding lead_upstream [OF Ok] Let_def by (cases ?r) (auto split: prod.splits, metis fst_conv)
qed (use build_no_panic [OF assms(1), of app req "adm_url adm"] in \<open>auto simp: lead_def\<close>)

section \<open>An instance\<close>

text \<open>Libraries, an application, an environment and a request, for the witnesses.\<close>

definition sample_net :: "string net_lib" where
  "sample_net = \<lparr>url_parse = Ok, base64_decode = Ok,
     body_to_bytes = (\<lambda>b n. if length b \<le> n then Ok b else Err ''length limit exceeded'')\<rparr>"

definition sample_libs where
  "sample_libs = \<lparr>http = list_http, codec = sample_codec, net = sample_net, redis = ref_redis,
     tok = sample_tokens, ecdsa_lib = sample_signatures, ed25519_lib = sample_signatures\<rparr>"

definition sample_app :: "(string, char, char) app_state" where
  "sample_app = \<lparr>agents = [], url_vars = [(''URL_A'', ''https://a'')], header_vars = [(''KEY'', ''secret'')],
     ecdsa_pub_keys = [], ed25519_pub_keys = []\<rparr>"

definition sample_request :: "string \<Rightarrow> string \<Rightarrow> (string \<times> string) list request" where
  "sample_request token key = \<lparr>req_method = ''GET'', req_path = ''/URL_A'', req_path_and_query = None,
     req_headers = [(''host'', ''proxy''), (''proxy-authorization'', ''Bearer '' @ token),
       (''idempotency-key'', key), (''authorization'', ''KEY'')], req_body = []\<rparr>"

definition sample_others :: "'r others" where
  "sample_others = \<lparr>others_mem = (\<lambda>n m. m), others_redis = (\<lambda>n r. r)\<rparr>"

definition sample_env :: "u16 \<Rightarrow> (string \<rightharpoonup> bytes \<times> u64, (string \<times> string) list, string) proxy_env" where
  "sample_env st = \<lparr>now_verify = 1000, now_obtain = 1000, poll_clock = (\<lambda>n. 1500), poll_others = sample_others,
     http_client = (\<lambda>up. Ok \<lparr>ur_status = st, ur_headers = [(''content-type'', ''text/html'')], ur_bytes = Ok ''hi''\<rparr>),
     meanwhile = (\<lambda>c. c), now_store = 1200\<rparr>"

definition sample_cache :: "(string \<rightharpoonup> bytes \<times> u64) hybrid_cacher" where
  "sample_cache = hybrid_new 100 10000 (Memory mem_default)"

definition sample_up :: "string \<Rightarrow> ((string \<times> string) list, string) upstream_request" where
  "sample_up token = \<lparr>up_method = ''GET'', up_url = ''https://a'',
     up_headers = [(''idempotency-key'', ''k1''), (''authorization'', ''secret'')], up_body = None\<rparr>"

definition sample_rd :: response_data where
  "sample_rd = \<lparr>rd_status = 200, rd_headers = [], rd_body = ''hi'', rd_mime = ''text/html''\<rparr>"

definition sample_keys_app :: "(string, char, char) app_state" where
  "sample_keys_app = sample_app\<lparr>ecdsa_pub_keys := [CHR ''k''], agents := [''bob'', ''bob:GET'']\<rparr>"

definition sample_token :: "string \<Rightarrow> string" where
  "sample_token agent = enc_str ''xxxxx'' @ enc_str agent @ enc_str (CHR ''k'' # (enc_str ''xxxxx'' @ enc_str agent))"

lemmas sample_defs = sample_libs_def sample_net_def sample_app_def sample_env_def sample_request_def
  sample_others_def sample_up_def list_http_def sample_cache_def hybrid_new_def

lemma sample_access:
  "access_control sample_libs sample_app (sample_request t k) now = Ok ''ANON''"
  "a \<in> {''bob'', ''bob:GET''} \<Longrightarrow>
    access_control sample_libs sample_keys_app (sample_request (sample_token a) k) 1000 = Ok a"
proof -
  show "access_control sample_libs sample_app (sample_request t k) now = Ok ''ANON''"
    by (simp add: access_control_def sample_app_def)
  assume "a \<in> {''bob'', ''bob:GET''}"
  then have a: "a \<in> set (agents sample_keys_app)" by (simp add: sample_keys_app_def)
  have "\<not> token_expired (Token 5 a s) 1000" for s
    by (simp add: token_expired_def PERMITTED_DRIFT_def)
  moreover have t: "token_from_reader sample_tokens (sample_token a) =
      Some (Token 5 a (CHR ''k'' # (enc_str ''xxxxx'' @ enc_str a)))"
  proof -
    have d: "dec_str (enc_str s) = Some (s, [])" for s using dec_enc_str [of s "[]"] by simp
    show ?thesis by (simp add: sample_tokens_def sample_token_def d del: enc_str.simps)
  qed
  moreover have "ecdsa_authentic sample_tokens sample_signatures CHR ''k'' (Token 5 a (CHR ''k'' # (enc_str ''xxxxx'' @ enc_str a)))"
  proof -
    have "replicate 5 CHR ''x'' = ''xxxxx''" by (simp add: eval_nat_numeral)
    then show ?thesis
      by (simp add: ecdsa_authentic_def sample_signatures_def sample_tokens_def sha3_256_def del: enc_str.simps)
  qed
  moreover have "extract_header list_http (req_headers (sample_request (sample_token a) k)) HEADER_PROXY_AUTHORIZATION [] =
      ''Bearer '' @ sample_token a"
    by (simp add: extract_header_def sample_request_def list_http_def HEADER_PROXY_AUTHORIZATION_def)
  ultimately have "authorised sample_libs sample_keys_app (sample_request (sample_token a) k) 1000 a"
    unfolding authorised_def using a
    by (simp add: sample_libs_def sample_net_def) (simp add: sample_keys_app_def)
  then show "access_control sample_libs sample_keys_app (sample_request (sample_token a) k) 1000 = Ok a"
    by (simp add: access_control_Ok)
qed

lemma sample_admit:
  "access_control sample_libs app (sample_request t k) now = Ok a \<Longrightarrow> url_vars app = url_vars sample_app \<Longrightarrow>
    k \<noteq> [] \<Longrightarrow> admit sample_libs app (sample_request t k) now =
      Ok \<lparr>adm_agent = a, adm_url = ''https://a'', adm_key = cache_key a ''GET'' k\<rparr>"
  by (simp add: admit_def target_url_def starts_with_def strip_prefix_def sample_defs idempotency_key_def
      extract_header_def HEADER_IDEMPOTENCY_KEY_def Let_def)

lemma sample_build:
  "header_vars app = header_vars sample_app \<Longrightarrow>
    build_upstream sample_libs app (sample_request t ''k1'') ''https://a'' = Ok (sample_up t)"
  by (simp add: build_upstream_def alter_headers_def sample_defs substitute_var_def HEADER_PROXY_AUTHORIZATION_def
      HEADER_X_FORWARDED_FOR_def HEADER_X_FORWARDED_HOST_def HEADER_X_FORWARDED_PROTO_def)

lemma sample_handle:
  "handle_response sample_libs (sample_request t ''k1'') \<lparr>ur_status = 200,
      ur_headers = [(''content-type'', ''text/html'')], ur_bytes = Ok ''hi''\<rparr> =
    Ok (Store sample_rd (sample_encode sample_rd))"
  by (simp add: handle_response_def Let_def with_body_def with_headers_eq response_new_def extract_header_def
      sample_defs HEADER_RESPONSE_HEADERS_def HEADER_X_JSON_MASK_def to_ascii_lowercase_def kept_headers_def
      last_mime_def to_bytes_def sample_codec_def err_string_def sample_rd_def)

lemma sample_lead:
  assumes "header_vars app = header_vars sample_app" and "cache h = Memory m"
    and "mem_set m 1200 (adm_key adm) (sample_encode sample_rd) (cache_ttl h) = (Ok True, m')"
    and "adm_url adm = ''https://a''"
  shows "lead sample_libs app (sample_env 200) (sample_request t ''k1'') adm h =
    (Ok sample_rd, h\<lparr>cache := Memory m'\<rparr>, Some (sample_up t))"
proof -
  have "http_client (sample_env 200) (sample_up t) = Ok \<lparr>ur_status = 200,
      ur_headers = [(''content-type'', ''text/html'')], ur_bytes = Ok ''hi''\<rparr>"
    by (simp add: sample_env_def)
  with assms show ?thesis
    by (simp add: lead_def sample_build sample_handle conclude_def hybrid_set_def)
      (simp add: sample_env_def)
qed


definition sample_locked :: "string \<Rightarrow> (string \<rightharpoonup> bytes \<times> u64) hybrid_cacher" where
  "sample_locked k = sample_cache\<lparr>cache := Memory (snd (mem_obtain mem_default 1000 k 10000))\<rparr>"

definition sample_done :: "string \<Rightarrow> (string \<rightharpoonup> bytes \<times> u64) hybrid_cacher" where
  "sample_done k = sample_cache\<lparr>cache := Memory
     (snd (mem_set (snd (mem_obtain mem_default 1000 k 10000)) 1200 k (sample_encode sample_rd) 10000))\<rparr>"

lemma sample_obtain:
  "hybrid_obtain R sample_cache 1000 k (cache_ttl sample_cache) = (Ok True, sample_locked k)"
  by (simp add: hybrid_obtain_def sample_locked_def sample_cache_def hybrid_new_def mem_obtain_alt mem_default_def)

lemma sample_run:
  assumes "access_control sample_libs app (sample_request t ''k1'') 1000 = Ok a"
    and "url_vars app = url_vars sample_app" and "header_vars app = header_vars sample_app"
  shows "proxy sample_libs app (sample_env 200) (sample_request t ''k1'') sample_cache =
    (Ok sample_rd, sample_done (cache_key a ''GET'' ''k1''), Some (sample_up t))"
proof -
  let ?k = "cache_key a ''GET'' ''k1''"
  let ?adm = "\<lparr>adm_agent = a, adm_url = ''https://a'', adm_key = ?k\<rparr>"
  let ?m = "snd (mem_obtain mem_default 1000 ?k 10000)"
  have a: "admit sample_libs app (sample_request t ''k1'') (now_verify (sample_env 200)) = Ok ?adm"
    using sample_admit [OF assms(1,2)] by (simp add: sample_env_def)
  have o: "hybrid_obtain (redis sample_libs) sample_cache (now_obtain (sample_env 200)) (adm_key ?adm)
      (cache_ttl sample_cache) = (Ok True, sample_locked ?k)"
    using sample_obtain by (simp add: sample_env_def)
  have s: "mem_set ?m 1200 (adm_key ?adm) (sample_encode sample_rd) (cache_ttl (sample_locked ?k)) =
      (Ok True, snd (mem_set ?m 1200 ?k (sample_encode sample_rd) 10000))"
    by (simp add: mem_set_alt mem_obtain_alt mem_default_def sample_locked_def sample_cache_def hybrid_new_def
        mem_store_def)
  have c: "cache (sample_locked ?k) = Memory ?m" by (simp add: sample_locked_def)
  show ?thesis
    unfolding proxy_lead [OF a o] by (subst sample_lead [OF assms(3) c s]) (simp_all add: sample_done_def sample_locked_def)
qed

lemma sample_plain_run:
  "proxy sample_libs sample_app (sample_env 200) (sample_request t ''k1'') sample_cache =
    (Ok sample_rd, sample_done ''ANON:GET:k1'', Some (sample_up t))"
  using sample_run [OF sample_access(1)] by (simp add: cache_key_def)

lemma sample_keys_run:
  "proxy sample_libs sample_keys_app (sample_env 200) (sample_request (sample_token ''bob'') ''k1'') sample_cache =
    (Ok sample_rd, sample_done ''bob:GET:k1'', Some (sample_up (sample_token ''bob'')))"
  using sample_run [OF sample_access(2) [of "''bob''"]] by (simp add: cache_key_def sample_keys_app_def)

section \<open>A lock that is lost\<close>

text \<open>
  A response that arrives when its lock has expired: on the in-memory cache the client gets an error for it,
  on Redis the failed store (\<open>Ok false\<close>) is ignored and the client gets the response, which is not kept.
\<close>

lemma lost_lock_is_noticed_only_in_memory:
  "cache h = Memory m \<Longrightarrow> (case kv m key of None \<Rightarrow> True | Some (expire_at, v) \<Rightarrow> expire_at \<le> now) \<Longrightarrow>
     \<exists>e h'. conclude R now key (Store rd data) h = (Err (502, e), h')"
  "cache h = Redis r \<Longrightarrow> redis_set R r now key data (cache_ttl h) = (Ok False, r') \<Longrightarrow>
     conclude R now key (Store rd data) h = (Ok rd, h\<lparr>cache := Redis r'\<rparr>)"
  by (auto simp: conclude_def hybrid_set_def mem_set_def bad_gateway_def split: option.splits)

section \<open>Properties\<close>

text \<open>
  C9: Access control holds for every effect: a run that gets a response, changes the cache or sends
anything upstream is one whose agent is authorised, that is: the agent is on the allow list (if
there is one) and, where keys are configured, the request carries a bearer token that decodes, has
not expired and is signed for this agent by a configured key of the scheme in force.
\<close>

theorem only_authorised_requests_have_effects:
  assumes "proxy L app env req h = (r, h', up)"
    and "(\<exists>rd. r = Ok rd) \<or> h' \<noteq> h \<or> up \<noteq> None"
  shows "\<exists>agent. authorised L app req (now_verify env) agent"
proof -
  have "\<exists>a. admit L app req (now_verify env) = Ok a"
  proof (rule ccontr)
    assume "\<nexists>a. admit L app req (now_verify env) = Ok a"
    then obtain x where "proxy L app env req h = (x, h, None)" "\<forall>rd. x \<noteq> Ok rd"
      using proxy_not_admitted [of L app req env] by blast
    with assms show False by auto
  qed
  then show ?thesis using admit_authorised by blast
qed

theorem only_authorised_requests_have_effects_witness:
  "\<exists>agent. authorised sample_libs sample_keys_app (sample_request (sample_token ''bob'') ''k1'') 1000 agent"
  using only_authorised_requests_have_effects [OF sample_keys_run] by (simp add: sample_env_def)

text \<open>
  C16: What is sent upstream is the client's request: the same method, the target the path or the
forwarding header names, no body for a safe method and the whole body otherwise (which fits the
limit). Of the headers, the six that are the proxy's own (the authorization for the proxy among them) have
no value, and every other name has exactly the client's values, in the order they were received, each
replaced by the secret it names, if any.
\<close>

theorem upstream_request_is_the_clients:
  assumes "header_map_documented (http L)"
    and "proxy L app env req h = (r, h', Some up)"
  shows "up_method up = req_method req \<and> target_url L app req = Ok (up_url up) \<and>
    (if method_is_safe (http L) (req_method req) then up_body up = None
     else \<exists>b. body_to_bytes (net L) (req_body req) MAX_BODY = Ok b \<and> up_body up = Some b) \<and>
    (\<forall>name. hm_get_all (http L) (up_headers up) name =
      (if name \<in> {''host'', ''forwarded'', ''proxy-authorization'', ''x-forwarded-for'',
           ''x-forwarded-host'', ''x-forwarded-proto''} then []
       else map (substitute_var (http L) (header_vars app)) (hm_get_all (http L) (req_headers req) name)))"
proof -
  from assms(2) obtain adm g where a: "admit L app req (now_verify env) = Ok adm"
      and l: "lead L app env req adm g = (r, h', Some up)"
    by (rule proxy_forwards_cases)
  from a have "target_url L app req = Ok (adm_url adm)" by (rule admit_cases)
  with lead_forwards [OF l] show ?thesis
    by (auto simp: build_upstream_def Let_def hm_get_all_alter_headers [OF assms(1)] proxy_header_names_def
        split: if_splits)
qed

theorem upstream_request_is_the_clients_witness:
  "hm_get_all list_http (up_headers (sample_up ''t'')) ''proxy-authorization'' = [] \<and>
   hm_get_all list_http (up_headers (sample_up ''t'')) ''idempotency-key'' =
     map (substitute_var list_http [(''KEY'', ''secret'')]) (hm_get_all list_http (req_headers (sample_request ''t'' ''k1'')) ''idempotency-key'')"
proof -
  have "header_map_documented (http sample_libs)"
    using list_http_documented by (simp add: sample_libs_def)
  from upstream_request_is_the_clients [OF this sample_plain_run]
  have "\<forall>name. hm_get_all (http sample_libs) (up_headers (sample_up ''t'')) name =
      (if name \<in> {''host'', ''forwarded'', ''proxy-authorization'', ''x-forwarded-for'',
           ''x-forwarded-host'', ''x-forwarded-proto''} then []
       else map (substitute_var (http sample_libs) (header_vars sample_app))
         (hm_get_all (http sample_libs) (req_headers (sample_request ''t'' ''k1'')) name))" by blast
  from spec [OF this, of "''proxy-authorization''"] spec [OF this, of "''idempotency-key''"]
  show ?thesis by (simp add: sample_libs_def sample_app_def)
qed

text \<open>
  Only a free key is forwarded: when a run sends a request upstream, no live entry (a lock of another
run or a stored response) was under its key when it took it, and it has taken it.
\<close>

theorem forwarded_only_when_key_is_free:
  assumes "redis_documented (redis L) view" and "proxy L app env req h = (r, h', Some up)"
  shows "\<exists>adm g. admit L app req (now_verify env) = Ok adm \<and>
    hybrid_live view h (now_obtain env) (adm_key adm) = None \<and>
    hybrid_obtain (redis L) h (now_obtain env) (adm_key adm) (cache_ttl h) = (Ok True, g)"
  by (rule proxy_forwards_free [OF assms]) blast

theorem forwarded_only_when_key_is_free_witness:
  "\<exists>adm g. admit sample_libs sample_app (sample_request ''t'' ''k1'') 1000 = Ok adm \<and>
    hybrid_live ref_view sample_cache 1000 (adm_key adm) = None \<and>
    hybrid_obtain ref_redis sample_cache 1000 (adm_key adm) (cache_ttl sample_cache) = (Ok True, g)"
proof -
  have "redis_documented (redis sample_libs) ref_view"
    using ref_redis_documented by (simp add: sample_libs_def)
  from forwarded_only_when_key_is_free [OF this sample_plain_run] show ?thesis
    by (simp add: sample_env_def) (simp add: sample_libs_def)
qed

text \<open>
  C8: Idempotency: after a run that forwarded its request and got a response, every later run with the
same key, from storing the response until its lifetime is over, forwards nothing, and if it
answers at all it answers the same response, byte for byte; with the in-memory cache it always
does. (Its key must not have been lost before the response was stored.)
\<close>

theorem retry_replays_the_response:
  assumes "redis_documented (redis L) view" and "response_codec_documented (codec L)"
    and "proxy L app env req h = (Ok rd, h1, Some up)"
    and "admit L app req (now_verify env) = Ok adm"
    and "hybrid_obtain (redis L) h (now_obtain env) (adm_key adm) (cache_ttl h) = (Ok True, g)"
    and "hybrid_live view (g\<lparr>cache := meanwhile env (cache g)\<rparr>) (now_store env) (adm_key adm) \<noteq> None"
    and "no_overflow (now_store env) (cache_ttl h)"
    and "poll_interval h \<noteq> 0" and "poll_interval h \<le> cache_ttl h"
    and "admit L app' req' (now_verify env') = Ok adm'" and "adm_key adm' = adm_key adm"
    and "now_store env \<le> now_obtain env'" and "now_obtain env' < now_store env + cache_ttl h"
    and "now_obtain env' \<le> poll_clock env' (unat (cache_ttl h div poll_interval h))"
    and "poll_clock env' (unat (cache_ttl h div poll_interval h)) < now_store env + cache_ttl h"
  shows "snd (snd (proxy L app' env' req' h1)) = None \<and>
    (fst (proxy L app' env' req' h1) = Ok rd \<or>
     (\<forall>rd'. fst (proxy L app' env' req' h1) \<noteq> Ok rd') \<and> (\<nexists>m. cache h1 = Memory m))"
proof -
  note C = hybrid_is_cacher [OF assms(1)]
  let ?k = "adm_key adm" and ?u = "now_store env + cache_ttl h"
  have l: "lead L app env req adm g = (Ok rd, h1, Some up)"
    using assms(3) proxy_lead [OF assms(4,5)] by simp
  have c: "cache_ttl g = cache_ttl h" "poll_interval g = poll_interval h"
    using hybrid_config(1) [OF assms(5)] by simp_all
  from lead_answers [OF assms(1,2) l assms(6)] c assms(7) obtain bs where
      e: "response_encode (codec L) rd = Ok bs"
      and a: "cacher.answers (hybrid_live view) h1 (now_store env) ?k bs ?u"
      and c1: "cache_ttl h1 = cache_ttl h" "poll_interval h1 = poll_interval h"
    by auto
  from cacher.answers_later [OF C a assms(12)]
  have a1: "cacher.answers (hybrid_live view) h1 (now_obtain env') ?k bs ?u" .
  then have live: "hybrid_live view h1 (now_obtain env') ?k = Some (Ready bs)"
    using assms(13) by (simp add: cacher.answers_def [OF C])
  from proxy_live_not_forwarded [OF assms(1,10)] live assms(11)
  have nf: "snd (snd (proxy L app' env' req' h1)) = None" by simp
  obtain o2 g2 where o2: "hybrid_obtain (redis L) h1 (now_obtain env') ?k (cache_ttl h1) = (o2, g2)"
    by fastforce
  from cacher.obt_Ok [OF C] o2 live have nt: "o2 \<noteq> Ok True" by fastforce
  from cacher.answers_obt [OF C a1 o2]
  have "hybrid_live view g2 (poll_clock env' (unat (cache_ttl h div poll_interval h))) ?k = Some (Ready bs)"
    using assms(14,15) by (simp add: cacher.answers_def [OF C])
  moreover have c2: "cache_ttl g2 = cache_ttl h" "poll_interval g2 = poll_interval h"
    using hybrid_config(1) [OF o2] c1 by simp_all
  ultimately have f: "fst (follow L env' ?k g2) = Ok rd \<or> (\<forall>rd'. fst (follow L env' ?k g2) \<noteq> Ok rd')"
      and fm: "\<And>m. cache g2 = Memory m \<Longrightarrow> fst (follow L env' ?k g2) = Ok rd"
    using follow_answer [OF assms(1,2) e, of g2 env' ?k] assms(8,9) by auto
  have pr: "fst (proxy L app' env' req' h1) = (case o2 of Ok b \<Rightarrow> fst (follow L env' ?k g2)
      | Err x \<Rightarrow> Err (bad_gateway x) | Panic m \<Rightarrow> Panic m)"
    using assms(10,11) o2 nt by (cases o2) (auto simp: proxy_def split: bool.splits)
  have mem: "\<exists>b m'. o2 = Ok b \<and> cache g2 = Memory m'" if "cache h1 = Memory m" for m
    using that o2 by (auto simp: hybrid_obtain_def mem_obtain_alt split: prod.splits if_splits)
  show ?thesis
  proof (cases "\<exists>m. cache h1 = Memory m")
    case True
    with mem obtain b m' where "o2 = Ok b" "cache g2 = Memory m'" by blast
    with fm nf pr show ?thesis by simp
  next
    case False
    with f nf pr show ?thesis by (cases o2) auto
  qed
qed

theorem retry_replays_the_response_witness:
  "snd (snd (proxy sample_libs sample_app (sample_env 200\<lparr>now_obtain := 1300\<rparr>) (sample_request ''u'' ''k1'')
      (sample_done ''ANON:GET:k1''))) = None \<and>
   fst (proxy sample_libs sample_app (sample_env 200\<lparr>now_obtain := 1300\<rparr>) (sample_request ''u'' ''k1'')
      (sample_done ''ANON:GET:k1'')) = Ok sample_rd"
proof -
  let ?e = "sample_env 200" and ?e' = "sample_env 200\<lparr>now_obtain := 1300\<rparr>"
  let ?adm = "\<lparr>adm_agent = ''ANON'', adm_url = ''https://a'', adm_key = ''ANON:GET:k1''\<rparr>"
  have R: "redis_documented (redis sample_libs) ref_view" and C: "response_codec_documented (codec sample_libs)"
    using ref_redis_documented sample_codec_documented by (simp_all add: sample_libs_def)
  have a: "admit sample_libs sample_app (sample_request t ''k1'') now = Ok ?adm" for t now
    using sample_admit [OF sample_access(1)] by (simp add: cache_key_def)
  have o: "hybrid_obtain (redis sample_libs) sample_cache (now_obtain ?e) (adm_key ?adm) (cache_ttl sample_cache) =
      (Ok True, sample_locked ''ANON:GET:k1'')"
    using sample_obtain by (simp add: sample_env_def)
  have l: "hybrid_live ref_view ((sample_locked ''ANON:GET:k1'')\<lparr>cache := meanwhile ?e (cache (sample_locked ''ANON:GET:k1''))\<rparr>)
      (now_store ?e) (adm_key ?adm) \<noteq> None"
    by (simp add: sample_locked_def sample_env_def mem_obtain_alt mem_default_def effect_simps)
  have c: "cache_ttl sample_cache = 10000" "poll_interval sample_cache = 100"
    "now_store ?e = 1200" "now_obtain ?e' = 1300" "poll_clock ?e n = 1500" for n
    by (simp_all add: sample_cache_def hybrid_new_def sample_env_def)
  have "\<exists>m. cache (sample_done ''ANON:GET:k1'') = Memory m" by (simp add: sample_done_def)
  with retry_replays_the_response [OF R C sample_plain_run a o l _ _ _ a [of "''u''" "now_verify ?e'"]]
  show ?thesis by (simp add: c no_overflow_def)
qed

text \<open>
  C17: A failed call of the upstream leaves the key locked: the client gets a 502, but the lock stays
until its lifetime is over, and a retry with the same key within it is not forwarded. (Only an
upstream that answers with an unusual status releases the key.)
\<close>

theorem transport_failure_keeps_the_lock:
  assumes "redis_documented (redis L) view"
    and "admit L app req (now_verify env) = Ok adm"
    and "hybrid_obtain (redis L) h (now_obtain env) (adm_key adm) (cache_ttl h) = (Ok True, g)"
    and "no_overflow (now_obtain env) (cache_ttl h)"
    and "build_upstream L app req (adm_url adm) = Ok up"
    and "http_client env up = Err e" and "meanwhile env (cache g) = cache g"
    and "admit L app' req' (now_verify env') = Ok adm'" and "adm_key adm' = adm_key adm"
    and "now_obtain env \<le> now_obtain env'" and "now_obtain env' < now_obtain env + cache_ttl h"
  shows "proxy L app env req h = (Err (502, e), g, Some up) \<and>
    hybrid_live view g (now_obtain env') (adm_key adm) = Some Pending \<and>
    snd (snd (proxy L app' env' req' g)) = None"
proof (intro conjI)
  show "proxy L app env req h = (Err (502, e), g, Some up)"
    using assms(5-7) by (simp add: proxy_lead [OF assms(2,3)] lead_upstream bad_gateway_def)
  from cacher.obt_True [OF hybrid_is_cacher [OF assms(1)] assms(3,4,10)] assms(11)
  show p: "hybrid_live view g (now_obtain env') (adm_key adm) = Some Pending" by simp
  show "snd (snd (proxy L app' env' req' g)) = None"
    by (rule proxy_live_not_forwarded [OF assms(1,8)]) (simp add: p assms(9))
qed

theorem transport_failure_keeps_the_lock_witness:
  "proxy sample_libs sample_app (sample_env 200\<lparr>http_client := \<lambda>up. Err ''timeout''\<rparr>) (sample_request ''t'' ''k1'') sample_cache =
     (Err (502, ''timeout''), sample_locked ''ANON:GET:k1'', Some (sample_up ''t'')) \<and>
   snd (snd (proxy sample_libs sample_app (sample_env 200\<lparr>now_obtain := 9000\<rparr>) (sample_request ''u'' ''k1'')
     (sample_locked ''ANON:GET:k1''))) = None"
proof -
  let ?e = "sample_env 200\<lparr>http_client := \<lambda>up. Err ''timeout''\<rparr>" and ?e' = "sample_env 200\<lparr>now_obtain := 9000\<rparr>"
  let ?adm = "\<lparr>adm_agent = ''ANON'', adm_url = ''https://a'', adm_key = ''ANON:GET:k1''\<rparr>"
  have R: "redis_documented (redis sample_libs) ref_view"
    using ref_redis_documented by (simp add: sample_libs_def)
  have a: "admit sample_libs sample_app (sample_request t ''k1'') now = Ok ?adm" for t now
    using sample_admit [OF sample_access(1)] by (simp add: cache_key_def)
  have o: "hybrid_obtain (redis sample_libs) sample_cache (now_obtain ?e) (adm_key ?adm) (cache_ttl sample_cache) =
      (Ok True, sample_locked ''ANON:GET:k1'')"
    using sample_obtain by (simp add: sample_env_def)
  have c: "cache_ttl sample_cache = 10000" "now_obtain (sample_env 200) = 1000" "meanwhile (sample_env 200) x = x" for x
    by (simp_all add: sample_cache_def hybrid_new_def sample_env_def)
  have b: "build_upstream sample_libs sample_app (sample_request ''t'' ''k1'') (adm_url ?adm) = Ok (sample_up ''t'')"
    by (simp add: sample_build)
  from transport_failure_keeps_the_lock [OF R a o _ b _ _ a [of "''u''" "now_verify ?e'"]]
  show ?thesis by (simp add: c no_overflow_def)
qed

text \<open>
  An answer that is not a server's response is passed on and not kept: for a status below 200 or
above 500 the client gets the status and the text of the body, and when the key is deleted (the
in-memory cache never fails to) the next request with this key can be forwarded.
\<close>

theorem other_statuses_are_not_kept:
  assumes "redis_documented (redis L) view"
    and "admit L app req (now_verify env) = Ok adm"
    and "hybrid_obtain (redis L) h (now_obtain env) (adm_key adm) (cache_ttl h) = (Ok True, g)"
    and "build_upstream L app req (adm_url adm) = Ok up"
    and "http_client env up = Ok rres" and "ur_bytes rres = Ok body"
    and "ur_status rres < 200 \<or> 500 < ur_status rres"
    and "hybrid_del (redis L) (g\<lparr>cache := meanwhile env (cache g)\<rparr>) (now_store env) (adm_key adm) = (Ok (), h')"
    and "now_store env \<le> t"
  shows "proxy L app env req h = (Err (ur_status rres, from_utf8_lossy body), h', Some up) \<and>
    hybrid_live view h' t (adm_key adm) = None"
proof
  from assms(7) have "\<not> (200 \<le> ur_status rres \<and> ur_status rres \<le> 500)" by auto
  with assms(6) have "handle_response L req rres = Ok (Discard (ur_status rres) (from_utf8_lossy body))"
    by (simp add: handle_response_def)
  with assms(4,5,8) show "proxy L app env req h = (Err (ur_status rres, from_utf8_lossy body), h', Some up)"
    by (simp add: proxy_lead [OF assms(2,3)] lead_upstream conclude_def Let_def)
  show "hybrid_live view h' t (adm_key adm) = None"
    by (rule cacher.del_Ok [OF hybrid_is_cacher [OF assms(1)] assms(8,9)])
qed

theorem other_statuses_are_not_kept_witness:
  "\<exists>h'. proxy sample_libs sample_app (sample_env 503) (sample_request ''t'' ''k1'') sample_cache =
     (Err (503, ''hi''), h', Some (sample_up ''t'')) \<and> hybrid_live ref_view h' 1300 ''ANON:GET:k1'' = None"
proof -
  let ?e = "sample_env 503"
  let ?adm = "\<lparr>adm_agent = ''ANON'', adm_url = ''https://a'', adm_key = ''ANON:GET:k1''\<rparr>"
  let ?g = "sample_locked ''ANON:GET:k1''"
  have R: "redis_documented (redis sample_libs) ref_view"
    using ref_redis_documented by (simp add: sample_libs_def)
  have a: "admit sample_libs sample_app (sample_request ''t'' ''k1'') (now_verify ?e) = Ok ?adm"
    using sample_admit [OF sample_access(1)] by (simp add: cache_key_def)
  have o: "hybrid_obtain (redis sample_libs) sample_cache (now_obtain ?e) (adm_key ?adm) (cache_ttl sample_cache) = (Ok True, ?g)"
    using sample_obtain by (simp add: sample_env_def)
  have b: "build_upstream sample_libs sample_app (sample_request ''t'' ''k1'') (adm_url ?adm) = Ok (sample_up ''t'')"
    by (simp add: sample_build)
  have u: "http_client ?e (sample_up ''t'') =
      Ok \<lparr>ur_status = 503, ur_headers = [(''content-type'', ''text/html'')], ur_bytes = Ok ''hi''\<rparr>"
    by (simp add: sample_env_def)
  have d: "hybrid_del (redis sample_libs) (?g\<lparr>cache := meanwhile ?e (cache ?g)\<rparr>) (now_store ?e) (adm_key ?adm) =
      (Ok (), ?g\<lparr>cache := Memory (snd (mem_del (snd (mem_obtain mem_default 1000 ''ANON:GET:k1'' 10000)) ''ANON:GET:k1''))\<rparr>)"
    by (simp add: hybrid_del_def sample_locked_def sample_env_def mem_del_alt)
  have f: "from_utf8_lossy ''hi'' = ''hi''" by simp
  from other_statuses_are_not_kept [OF R a o b u _ _ d, of "''hi''" 1300]
  show ?thesis unfolding f by (simp add: sample_env_def)
qed

text \<open>
  C18: No request can crash the server: on the in-memory cache, with a polling interval that is not zero,
the handler reports every failure as an error value, as long as the libraries do.
\<close>

theorem proxy_never_panics:
  assumes "libs_report_errors L" and "cache h = Memory m" and "poll_interval h \<noteq> 0"
    and "\<forall>c. \<exists>m'. meanwhile env (Memory c) = Memory m'"
    and "\<forall>up. \<not> is_panic (http_client env up)"
    and "\<forall>up rres. http_client env up = Ok rres \<longrightarrow> \<not> is_panic (ur_bytes rres)"
  shows "\<not> is_panic (fst (proxy L app env req h))"
proof (cases "admit L app req (now_verify env)")
  case (Ok adm)
  obtain o1 g where o: "hybrid_obtain (redis L) h (now_obtain env) (adm_key adm) (cache_ttl h) = (o1, g)"
    by fastforce
  from o assms(2) have "\<not> is_panic o1" and "\<exists>m'. cache g = Memory m'"
    using mem_no_panic(1) [of m "now_obtain env" "adm_key adm" "cache_ttl h"]
    by (auto simp: hybrid_obtain_def split: prod.splits)
  then obtain m' where m': "cache g = Memory m'" by blast
  with assms(4) obtain m'' where "meanwhile env (cache g) = Memory m''" by auto
  then have l: "\<not> is_panic (fst (lead L app env req adm g))"
    using assms(5,6) by (intro lead_no_panic [OF assms(1)]) auto
  have "poll_interval g \<noteq> 0" using hybrid_config(1) [OF o] assms(3) by simp
  from follow_no_panic [OF assms(1) m' this] l \<open>\<not> is_panic o1\<close> Ok o show ?thesis
    by (cases o1) (auto simp: proxy_def split: bool.splits)
qed (use admit_no_panic [OF assms(1), of app req "now_verify env"] in \<open>auto simp: proxy_def\<close>)

theorem proxy_never_panics_witness:
  "\<not> is_panic (fst (proxy sample_libs sample_app (sample_env 200) (sample_request ''t'' ''k1'') sample_cache))"
proof (rule proxy_never_panics)
  have "\<not> is_panic (body_to_bytes sample_net b n)" for b n by (simp add: sample_net_def)
  then show "libs_report_errors sample_libs"
    by (simp add: libs_report_errors_def sample_libs_def sample_tokens_def sample_codec_def)
      (simp add: sample_net_def)
qed (simp_all add: sample_cache_def hybrid_new_def sample_env_def)

text \<open>
  With ECDSA keys configured the Ed25519 keys are not consulted at all: which Ed25519 keys are
configured makes no difference to any run, so a client that only has an Ed25519 key is refused.
\<close>

theorem ed25519_keys_are_ignored_next_to_ecdsa_keys:
  assumes "ecdsa_pub_keys app \<noteq> []"
  shows "proxy L (app\<lparr>ed25519_pub_keys := keys\<rparr>) env req h = proxy L app env req h"
proof -
  have "verify_token L (app\<lparr>ed25519_pub_keys := keys\<rparr>) = verify_token L app"
    using assms by (simp add: verify_token_def fun_eq_iff split: option.splits)
  then have "access_control L (app\<lparr>ed25519_pub_keys := keys\<rparr>) = access_control L app"
    using assms by (simp add: access_control_def fun_eq_iff)
  moreover have "target_url L (app\<lparr>ed25519_pub_keys := keys\<rparr>) = target_url L app"
    by (simp add: target_url_def fun_eq_iff Let_def cong: option.case_cong)
  ultimately have "admit L (app\<lparr>ed25519_pub_keys := keys\<rparr>) = admit L app"
    by (simp add: admit_def fun_eq_iff)
  moreover have "lead L (app\<lparr>ed25519_pub_keys := keys\<rparr>) = lead L app"
  proof -
    have "alter_headers (http L) (app\<lparr>ed25519_pub_keys := keys\<rparr>) hs = alter_headers (http L) app hs" for hs
      by (simp add: alter_headers_def Let_def)
    then have "build_upstream L (app\<lparr>ed25519_pub_keys := keys\<rparr>) = build_upstream L app"
      by (simp add: build_upstream_def fun_eq_iff)
    then show ?thesis by (simp add: lead_def fun_eq_iff)
  qed
  ultimately show ?thesis by (simp add: proxy_def split: outcome.split prod.split bool.split)
qed

theorem ed25519_keys_are_ignored_next_to_ecdsa_keys_witness:
  "proxy sample_libs (sample_keys_app\<lparr>ed25519_pub_keys := [CHR ''e'']\<rparr>) (sample_env 200) (sample_request ''t'' ''k1'') sample_cache =
   proxy sample_libs sample_keys_app (sample_env 200) (sample_request ''t'' ''k1'') sample_cache"
  by (rule ed25519_keys_are_ignored_next_to_ecdsa_keys) (simp add: sample_keys_app_def)

text \<open>
  Cache keys keep agents, methods and idempotency keys apart as long as no agent and no method has a
colon in it: then two requests share a key only when they agree in all three.
\<close>

theorem cache_key_is_injective:
  assumes "CHR '':'' \<notin> set a" and "CHR '':'' \<notin> set a'" and "CHR '':'' \<notin> set m" and "CHR '':'' \<notin> set m'"
  shows "cache_key a m k = cache_key a' m' k' \<longleftrightarrow> a = a' \<and> m = m' \<and> k = k'"
proof -
  have "x = y \<and> r = s" if "x @ '':'' @ r = y @ '':'' @ s" "CHR '':'' \<notin> set x" "CHR '':'' \<notin> set y" for x y r s
  proof -
    from that have "split_char CHR '':'' (x @ CHR '':'' # r) = split_char CHR '':'' (y @ CHR '':'' # s)" by simp
    from this that(2,3) have "x = y" by (simp add: split_char_append)
    with that(1) show ?thesis by simp
  qed
  from this [of a "m @ '':'' @ k" a' "m' @ '':'' @ k'"] this [of m k m' k'] assms
  show ?thesis by (auto simp: cache_key_def)
qed

theorem cache_key_is_injective_witness:
  "cache_key ''bob'' ''GET'' ''a:b'' \<noteq> cache_key ''bob'' ''POST'' ''a:b''"
  using cache_key_is_injective [of "''bob''" "''bob''" "''GET''" "''POST''" "''a:b''" "''a:b''"] by simp

text \<open>
  Without that, an agent's name with a colon breaks the separation: the agent \<open>a:m\<close> asking with
method \<open>m'\<close> and key \<open>k\<close> has the cache key of the agent \<open>a\<close> asking with method \<open>m\<close> and key \<open>m':k\<close>,
so while the one's entry is live the other's request is not forwarded but answered from it.
\<close>

theorem agents_with_colons_share_entries:
  assumes "redis_documented (redis L) view"
    and "admit L app req (now_verify env) = Ok adm" and "admit L app req' (now_verify env') = Ok adm'"
    and "adm_agent adm' = adm_agent adm @ '':'' @ req_method req"
    and "extract_header (http L) (req_headers req) HEADER_IDEMPOTENCY_KEY [] =
      req_method req' @ '':'' @ extract_header (http L) (req_headers req') HEADER_IDEMPOTENCY_KEY []"
    and "hybrid_live view h (now_obtain env') (adm_key adm) \<noteq> None"
  shows "adm_agent adm' \<noteq> adm_agent adm \<and> adm_key adm' = adm_key adm \<and>
    snd (snd (proxy L app env' req' h)) = None"
proof -
  have k: "adm_key adm' = adm_key adm"
    by (rule admit_cases [OF assms(2)], rule admit_cases [OF assms(3)]) (simp add: cache_key_def assms(4,5))
  then have "snd (snd (proxy L app env' req' h)) = None"
    using assms(6) by (intro proxy_live_not_forwarded [OF assms(1,3)]) simp
  with k assms(4) show ?thesis by simp
qed

theorem agents_with_colons_share_entries_witness:
  "snd (snd (proxy sample_libs sample_keys_app (sample_env 200) (sample_request (sample_token ''bob:GET'') ''k1'')
     (sample_locked ''bob:GET:GET:k1''))) = None"
proof -
  let ?e = "sample_env 200"
  have R: "redis_documented (redis sample_libs) ref_view"
    using ref_redis_documented by (simp add: sample_libs_def)
  have u: "url_vars sample_keys_app = url_vars sample_app" "now_verify ?e = 1000"
    by (simp_all add: sample_keys_app_def sample_env_def)
  have a: "admit sample_libs sample_keys_app (sample_request (sample_token ''bob'') ''GET:k1'') (now_verify ?e) =
      Ok \<lparr>adm_agent = ''bob'', adm_url = ''https://a'', adm_key = ''bob:GET:GET:k1''\<rparr>"
    using sample_admit [OF sample_access(2) u(1), of "''bob''" "''GET:k1''"] u(2) by (simp add: cache_key_def)
  have a': "admit sample_libs sample_keys_app (sample_request (sample_token ''bob:GET'') ''k1'') (now_verify ?e) =
      Ok \<lparr>adm_agent = ''bob:GET'', adm_url = ''https://a'', adm_key = ''bob:GET:GET:k1''\<rparr>"
    using sample_admit [OF sample_access(2) u(1), of "''bob:GET''" "''k1''"] u(2) by (simp add: cache_key_def)
  have l: "hybrid_live ref_view (sample_locked ''bob:GET:GET:k1'') (now_obtain ?e)
      (adm_key \<lparr>adm_agent = ''bob'', adm_url = ''https://a'', adm_key = ''bob:GET:GET:k1''\<rparr>) \<noteq> None"
    by (simp add: sample_locked_def sample_env_def mem_obtain_alt mem_default_def effect_simps)
  have k: "extract_header (http sample_libs) (req_headers (sample_request t k)) HEADER_IDEMPOTENCY_KEY [] = k"
      "req_method (sample_request t k) = ''GET''" for t k
    by (simp_all add: extract_header_def sample_defs HEADER_IDEMPOTENCY_KEY_def)
  from agents_with_colons_share_entries [OF R a a' _ _ l] show ?thesis by (simp add: k)
qed

end
