(* ===== verification/Proxy_System.thy ===== *)
theory Proxy_System
  imports Proxy_Properties
begin

text \<open>
  The server as a whole: any number of requests handled at once, all working on one shared cache,
  with the handler of \<open>Handler\<close> cut at its \<open>await\<close> points. A step is what one task does between
  two awaits, a clean-up of the cache, or the clock moving on; a task can also be dropped at any
  await (its client went away), also inside an operation of the cache. A clean-up reads the clock before it waits for its locks, so it may
  work with a time that has passed. The trace of a run records what the tasks did to a key and what
  they sent upstream.
\<close>

section \<open>Tasks and the shared state\<close>

datatype ('h, 'u) pc =
    Idle
  | Obtaining "'h request" "'u admitted"
  | Polling string nat
  | Sending "'h request" "'u admitted" "('h, 'u) upstream_request"
  | Waiting "'h request" string
  | Storing string response_data bytes
  | Deleting string u16 string
  | Finished "string option" "(response_data, proxy_error) outcome"
  | Dropped

record ('r, 'h, 'u) sys =
  shared :: "'r hybrid_cacher"
  clock :: u64
  tasks :: "nat \<Rightarrow> ('h, 'u) pc"

datatype label =
    Granted nat string
  | Refused nat string
  | Sent nat string
  | Answered nat string response_data
  | Stored nat string
  | StoreFailed nat string
  | Deleted nat string
  | DeleteCut nat string
  | Internal

section \<open>What a task does between two awaits\<close>

definition begin_task :: "('h, 'v, 'j, 'm, 'c, 'u, 'r, 'es, 'ek, 'ei, 'ds, 'dk, 'di) libs
    \<Rightarrow> ('v, 'ek, 'dk) app_state \<Rightarrow> 'h request \<Rightarrow> u64 \<Rightarrow> ('h, 'u) pc" where
  "begin_task L app req now =
     (case admit L app req now of
        Ok adm \<Rightarrow> Obtaining req adm
      | Err e \<Rightarrow> Finished None (Err e)
      | Panic m \<Rightarrow> Finished None (Panic m))"

definition after_obtain :: "('h, 'v, 'j, 'm, 'c, 'u, 'r, 'es, 'ek, 'ei, 'ds, 'dk, 'di) libs
    \<Rightarrow> ('v, 'ek, 'dk) app_state \<Rightarrow> 'h request \<Rightarrow> 'u admitted \<Rightarrow> 'r hybrid_cacher
    \<Rightarrow> (bool, string) outcome \<Rightarrow> ('h, 'u) pc" where
  "after_obtain L app req adm h r =
     (case r of
        Ok True \<Rightarrow> (case build_upstream L app req (adm_url adm) of
            Ok up \<Rightarrow> Sending req adm up
          | Err e \<Rightarrow> Finished (Some (adm_key adm)) (Err e)
          | Panic m \<Rightarrow> Finished (Some (adm_key adm)) (Panic m))
      | Ok False \<Rightarrow>
          (if poll_interval h = 0 then Finished (Some (adm_key adm)) (Panic ''attempt to divide by zero'')
           else case hybrid_poll_start (redis L) h of
             Ok _ \<Rightarrow> Polling (adm_key adm) (unat (cache_ttl h div poll_interval h))
           | Err e \<Rightarrow> Finished (Some (adm_key adm)) (Err (bad_gateway e))
           | Panic m \<Rightarrow> Finished (Some (adm_key adm)) (Panic m))
      | Err e \<Rightarrow> Finished (Some (adm_key adm)) (Err (bad_gateway e))
      | Panic m \<Rightarrow> Finished (Some (adm_key adm)) (Panic m))"

definition after_poll :: "('h, 'v, 'j, 'm, 'c, 'u, 'r, 'es, 'ek, 'ei, 'ds, 'dk, 'di) libs
    \<Rightarrow> string \<Rightarrow> nat \<Rightarrow> polled \<Rightarrow> ('h, 'u) pc" where
  "after_poll L key n p =
     (case p of
        PollAgain \<Rightarrow> Polling key n
      | PollDone r \<Rightarrow> Finished (Some key) (and_then (map_err bad_gateway r)
          (\<lambda>data. map_err bad_gateway (response_try_from (codec L) data))))"

definition after_reply :: "string \<Rightarrow> (verdict, proxy_error) outcome \<Rightarrow> ('h, 'u) pc" where
  "after_reply key v =
     (case v of
        Ok (Store rd data) \<Rightarrow> Storing key rd data
      | Ok (Discard status msg) \<Rightarrow> Deleting key status msg
      | Err e \<Rightarrow> Finished (Some key) (Err e)
      | Panic m \<Rightarrow> Finished (Some key) (Panic m))"

definition reply_label :: "nat \<Rightarrow> string \<Rightarrow> (verdict, proxy_error) outcome \<Rightarrow> label" where
  "reply_label i key v = (case v of Ok (Store rd data) \<Rightarrow> Answered i key rd | _ \<Rightarrow> Internal)"

definition after_store :: "string \<Rightarrow> response_data \<Rightarrow> (bool, string) outcome \<Rightarrow> ('h, 'u) pc" where
  "after_store key rd r = Finished (Some key) (and_then (map_err bad_gateway r) (\<lambda>_. Ok rd))"

definition after_delete :: "string \<Rightarrow> u16 \<Rightarrow> string \<Rightarrow> (unit, string) outcome \<Rightarrow> ('h, 'u) pc" where
  "after_delete key status msg d =
     Finished (Some key) (case d of Panic m \<Rightarrow> Panic m | _ \<Rightarrow> Err (status, msg))"

section \<open>Steps and runs\<close>

inductive sys_step :: "('h, 'v, 'j, 'm, 'c, 'u, 'r, 'es, 'ek, 'ei, 'ds, 'dk, 'di) libs
    \<Rightarrow> ('v, 'ek, 'dk) app_state \<Rightarrow> ('r, 'h, 'u) sys \<Rightarrow> label \<Rightarrow> ('r, 'h, 'u) sys \<Rightarrow> bool"
  for L app where
  arrive: "tasks s i = Idle \<Longrightarrow>
    sys_step L app s Internal (s\<lparr>tasks := (tasks s)(i := begin_task L app req (clock s))\<rparr>)"
| take: "tasks s i = Obtaining req adm \<Longrightarrow>
    hybrid_obtain (redis L) (shared s) (clock s) (adm_key adm) (cache_ttl (shared s)) = (r, h) \<Longrightarrow>
    sys_step L app s (if r = Ok True then Granted i (adm_key adm) else Refused i (adm_key adm))
      (s\<lparr>shared := h, tasks := (tasks s)(i := after_obtain L app req adm h r)\<rparr>)"
| give_up: "tasks s i = Polling key 0 \<Longrightarrow>
    sys_step L app s Internal (s\<lparr>tasks := (tasks s)(i :=
      Finished (Some key) (Err (bad_gateway ''polling get cache timeout'')))\<rparr>)"
| poll: "tasks s i = Polling key (Suc n) \<Longrightarrow> hybrid_poll (redis L) (shared s) (clock s) key = (p, h) \<Longrightarrow>
    sys_step L app s Internal (s\<lparr>shared := h, tasks := (tasks s)(i := after_poll L key n p)\<rparr>)"
| send: "tasks s i = Sending req adm up \<Longrightarrow>
    sys_step L app s (Sent i (adm_key adm)) (s\<lparr>tasks := (tasks s)(i := Waiting req (adm_key adm))\<rparr>)"
| reply: "tasks s i = Waiting req key \<Longrightarrow>
    v = and_then (map_err bad_gateway answer) (handle_response L req) \<Longrightarrow>
    sys_step L app s (reply_label i key v) (s\<lparr>tasks := (tasks s)(i := after_reply key v)\<rparr>)"
| store: "tasks s i = Storing key rd data \<Longrightarrow>
    hybrid_set (redis L) (shared s) (clock s) key data (cache_ttl (shared s)) = (r, h) \<Longrightarrow>
    sys_step L app s (if r = Ok True then Stored i key else StoreFailed i key)
      (s\<lparr>shared := h, tasks := (tasks s)(i := after_store key rd r)\<rparr>)"
| delete: "tasks s i = Deleting key status msg \<Longrightarrow>
    hybrid_del (redis L) (shared s) (clock s) key = (d, h) \<Longrightarrow>
    sys_step L app s (Deleted i key) (s\<lparr>shared := h, tasks := (tasks s)(i := after_delete key status msg d)\<rparr>)"
| cut_obtain: "tasks s i = Obtaining req adm \<Longrightarrow>
    hybrid_obtain_cut (shared s) (clock s) (adm_key adm) (cache_ttl (shared s)) = Some h \<Longrightarrow>
    sys_step L app s Internal (s\<lparr>shared := h, tasks := (tasks s)(i := Dropped)\<rparr>)"
| cut_delete: "tasks s i = Deleting key status msg \<Longrightarrow> hybrid_del_cut (shared s) key = Some h \<Longrightarrow>
    sys_step L app s (DeleteCut i key) (s\<lparr>shared := h, tasks := (tasks s)(i := Dropped)\<rparr>)"
| drop_task: "sys_step L app s Internal (s\<lparr>tasks := (tasks s)(i := Dropped)\<rparr>)"
| clean: "t \<le> clock s \<Longrightarrow> sys_step L app s Internal (s\<lparr>shared := hybrid_bg (shared s) t\<rparr>)"
| tick: "clock s \<le> t \<Longrightarrow> sys_step L app s Internal (s\<lparr>clock := t\<rparr>)"

inductive sys_run :: "('h, 'v, 'j, 'm, 'c, 'u, 'r, 'es, 'ek, 'ei, 'ds, 'dk, 'di) libs
    \<Rightarrow> ('v, 'ek, 'dk) app_state \<Rightarrow> ('r, 'h, 'u) sys \<Rightarrow> (u64 \<times> label) list \<Rightarrow> ('r, 'h, 'u) sys \<Rightarrow> bool"
  for L app s0 where
  run_start: "sys_run L app s0 [] s0"
| run_step: "sys_run L app s0 tr s \<Longrightarrow> sys_step L app s l s' \<Longrightarrow> sys_run L app s0 (tr @ [(clock s, l)]) s'"

definition sys_start :: "'r hybrid_cacher \<Rightarrow> u64 \<Rightarrow> ('r, 'h, 'u) sys" where
  "sys_start h now = \<lparr>shared = h, clock = now, tasks = (\<lambda>_. Idle)\<rparr>"

section \<open>Clock and configuration\<close>

lemma hybrid_bg_config [simp]: "cache_ttl (hybrid_bg h t) = cache_ttl h" "poll_interval (hybrid_bg h t) = poll_interval h"
  by (simp_all add: hybrid_bg_def split: cacher_entry.splits)

lemma hybrid_cut_config:
  "hybrid_obtain_cut h now k ttl = Some h' \<Longrightarrow> cache_ttl h' = cache_ttl h \<and> poll_interval h' = poll_interval h"
  "hybrid_del_cut h k = Some h' \<Longrightarrow> cache_ttl h' = cache_ttl h \<and> poll_interval h' = poll_interval h"
  by (auto simp: hybrid_obtain_cut_Some hybrid_del_cut_Some)

lemma sys_step_clock: "sys_step L app s l s' \<Longrightarrow> clock s \<le> clock s'"
  by (induction rule: sys_step.induct) auto

lemma sys_step_config:
  "sys_step L app s l s' \<Longrightarrow> cache_ttl (shared s') = cache_ttl (shared s) \<and>
     poll_interval (shared s') = poll_interval (shared s)"
  by (induction rule: sys_step.induct) (auto dest: hybrid_config hybrid_cut_config)

lemma sys_run_clock: "sys_run L app s0 tr s \<Longrightarrow> clock s0 \<le> clock s"
  by (induction rule: sys_run.induct) (auto dest: sys_step_clock)

lemma sys_run_config:
  "sys_run L app s0 tr s \<Longrightarrow> cache_ttl (shared s) = cache_ttl (shared s0) \<and>
     poll_interval (shared s) = poll_interval (shared s0)"
  by (induction rule: sys_run.induct) (auto dest: sys_step_config)

lemma sys_run_times: "sys_run L app s0 tr s \<Longrightarrow> (t, l) \<in> set tr \<Longrightarrow> clock s0 \<le> t \<and> t \<le> clock s"
proof (induction rule: sys_run.induct)
  case (run_step tr s l' s')
  then show ?case using sys_step_clock [OF run_step.hyps(2)] sys_run_clock [OF run_step.hyps(1)] by force
qed simp

section \<open>Leases\<close>

text \<open>
  Nothing spoilt the cache's invariant for the key: no \<open>set\<close> of the key failed, and no \<open>del\<close> of it was dropped
  half-way (either can leave an old entry in the queue). Other keys do not matter.
\<close>

definition unspoilt :: "string \<Rightarrow> (u64 \<times> label) list \<Rightarrow> bool" where
  "unspoilt k tr \<longleftrightarrow> (\<forall>t i. (t, StoreFailed i k) \<notin> set tr \<and> (t, DeleteCut i k) \<notin> set tr)"

definition never_deleted :: "string \<Rightarrow> (u64 \<times> label) list \<Rightarrow> bool" where
  "never_deleted k tr \<longleftrightarrow> (\<forall>t i. (t, Deleted i k) \<notin> set tr)"

definition deletions :: "string \<Rightarrow> (u64 \<times> label) list \<Rightarrow> nat" where
  "deletions k tr = length (filter (\<lambda>(t, l). \<exists>i. l = Deleted i k) tr)"

lemma unspoilt_simps [simp]:
  "unspoilt k []"
  "unspoilt k (xs @ ys) \<longleftrightarrow> unspoilt k xs \<and> unspoilt k ys"
  "unspoilt k [(t, l)] \<longleftrightarrow> (\<forall>i. l \<noteq> StoreFailed i k \<and> l \<noteq> DeleteCut i k)"
  by (auto simp: unspoilt_def)

lemma deletions_simps [simp]:
  "deletions k [] = 0"
  "deletions k (xs @ ys) = deletions k xs + deletions k ys"
  "deletions k [(t, l)] = (if \<exists>i. l = Deleted i k then 1 else 0)"
  by (simp_all add: deletions_def)

lemma never_deleted_simps [simp]:
  "never_deleted k []"
  "never_deleted k (xs @ ys) \<longleftrightarrow> never_deleted k xs \<and> never_deleted k ys"
  "never_deleted k [(t, l)] \<longleftrightarrow> (\<forall>i. l \<noteq> Deleted i k)"
  by (auto simp: never_deleted_def)

lemma sys_step_ok:
  assumes "redis_documented (redis L) view" and "sys_step L app s l s'"
    and "hybrid_ok k (shared s)" and "\<forall>i. l \<noteq> StoreFailed i k \<and> l \<noteq> DeleteCut i k"
  shows "hybrid_ok k (shared s')"
proof -
  note C = hybrid_is_cacher [OF assms(1)] and X = hybrid_is_cacher_cut [OF assms(1)]
  from assms(2-4) show ?thesis
  proof (induction rule: sys_step.induct)
    case (take s i req adm r h)
    then show ?case using cacher.invar_obt [OF C] by fastforce
  next
    case (poll s i key n p h)
    then show ?case using cacher.invar_pol [OF C] by fastforce
  next
    case (store s i key rd data r h)
    from store(2-4) show ?case
      using cacher.invar_put [OF C, of k "shared s" "clock s" key data "cache_ttl (shared s)" r h]
      by (auto split: if_splits)
  next
    case (delete s i key status msg d h)
    then show ?case using cacher.invar_del [OF C] by fastforce
  next
    case (cut_obtain s i req adm h)
    then show ?case using cacher_cut.obt_cut_invar [OF X cut_obtain(2)] by simp
  next
    case (cut_delete s i key status msg h)
    then show ?case using cacher_cut.del_cut_invar [OF X cut_delete(2), of k] by auto
  next
    case (clean t s)
    then show ?case using cacher.invar_bg [OF C] by simp
  qed auto
qed

lemma sys_run_ok:
  assumes "redis_documented (redis L) view" and "sys_run L app s0 tr s"
    and "hybrid_ok k (shared s0)" and "unspoilt k tr"
  shows "hybrid_ok k (shared s)"
  using assms(2-4)
  by (induction rule: sys_run.induct) (auto intro: sys_step_ok [OF assms(1)])

text \<open>A lease survives every step but the deletion of its key.\<close>

lemma sys_step_held:
  assumes "redis_documented (redis L) view" and "sys_step L app s l s'"
    and "cacher.held (hybrid_live view) (shared s) (clock s) k u"
    and "hybrid_ok k (shared s)" and "\<forall>i. l \<noteq> Deleted i k \<and> l \<noteq> DeleteCut i k"
    and "no_overflow (clock s) (cache_ttl (shared s))" and "u \<le> clock s + cache_ttl (shared s)"
  shows "cacher.held (hybrid_live view) (shared s') (clock s') k u"
proof -
  note C = hybrid_is_cacher [OF assms(1)]
  from assms(2-7) show ?thesis
  proof (induction rule: sys_step.induct)
    case (take s i req adm r h)
    then show ?case using cacher.held_obt [OF C] by fastforce
  next
    case (poll s i key n p h)
    then show ?case using cacher.held_pol [OF C] by fastforce
  next
    case (store s i key rd data r h)
    then show ?case using cacher.held_put [OF C] by fastforce
  next
    case (delete s i key status msg d h)
    then show ?case using cacher.held_del [OF C, of "shared s" "clock s" k u key d h] by auto
  next
    case (cut_obtain s i req adm h)
    then show ?case using cacher_cut.held_obt_cut [OF hybrid_is_cacher_cut [OF assms(1)]] by fastforce
  next
    case (cut_delete s i key status msg h)
    then show ?case
      using cacher_cut.held_del_cut [OF hybrid_is_cacher_cut [OF assms(1)], of "shared s" "clock s" k u key h] by auto
  next
    case (clean t s)
    then show ?case using cacher.held_bg [OF C] by simp
  next
    case (tick s t)
    then show ?case using cacher.held_later [OF C] by fastforce
  qed auto
qed

lemma sys_step_grant:
  assumes "redis_documented (redis L) view" and "sys_step L app s l s'" and "l = Granted i k"
    and "no_overflow (clock s) (cache_ttl (shared s))"
  shows "cacher.held (hybrid_live view) (shared s') (clock s') k (clock s + cache_ttl (shared s))"
  using assms(2-4)
proof (induction rule: sys_step.induct)
  case (take s j req adm r h)
  then show ?case
    using cacher.obt_grants [OF hybrid_is_cacher [OF assms(1)], of "shared s" "clock s" k "cache_ttl (shared s)" h]
    by (auto split: if_splits)
qed (auto simp: reply_label_def split: outcome.splits verdict.splits if_splits)

lemma sys_step_held_refuses:
  assumes "redis_documented (redis L) view" and "sys_step L app s l s'" and "l = Granted i k"
    and "cacher.held (hybrid_live view) (shared s) (clock s) k u"
  shows "u \<le> clock s"
  using assms(2-4)
proof (induction rule: sys_step.induct)
  case (take s j req adm r h)
  then have "r = Ok True" "adm_key adm = k" by (auto split: if_splits)
  with take cacher.held_refuses [OF hybrid_is_cacher [OF assms(1)] take(4), of "cache_ttl (shared s)" h]
  show ?case by (metis not_le)
qed (auto simp: reply_label_def split: outcome.splits verdict.splits if_splits)

text \<open>Every grant since the last deletion of the key still has its lease.\<close>

lemma sys_run_leases:
  assumes R: "redis_documented (redis L) view" and "sys_run L app s0 tr s"
    and "hybrid_ok k (shared s0)" and "unspoilt k tr" and "no_overflow (clock s) (cache_ttl (shared s0))"
    and "tr = xs @ (t, Granted i k) # ys" and "never_deleted k ys"
  shows "cacher.held (hybrid_live view) (shared s) (clock s) k (t + cache_ttl (shared s0))"
  using assms(2-7)
proof (induction arbitrary: xs ys rule: sys_run.induct)
  case run_start
  then show ?case by simp
next
  case (run_step tr s l s')
  have c: "cache_ttl (shared s) = cache_ttl (shared s0)" using sys_run_config [OF run_step.hyps(1)] by simp
  have no: "no_overflow (clock s) (cache_ttl (shared s0))"
    using run_step.prems(3) sys_step_clock [OF run_step.hyps(2)] no_overflow_mono by blast
  show ?case
  proof (cases ys rule: rev_cases)
    case Nil
    with run_step.prems(4) have "l = Granted i k" "t = clock s" by simp_all
    with sys_step_grant [OF R run_step.hyps(2)] no c show ?thesis by simp
  next
    case (snoc zs z)
    with run_step.prems(4) have tr: "tr = xs @ (t, Granted i k) # zs" "z = (clock s, l)" by simp_all
    from run_step.prems(2,5) snoc tr(2)
    have nd: "never_deleted k zs" "\<forall>i. l \<noteq> Deleted i k \<and> l \<noteq> DeleteCut i k" by auto
    from run_step.prems(2) have nf: "unspoilt k tr" by simp
    have "t \<le> clock s" using sys_run_times [OF run_step.hyps(1), of t "Granted i k"] tr(1) by simp
    then have u: "t + cache_ttl (shared s0) \<le> clock s + cache_ttl (shared s)"
      using no c by (simp add: add_mono_no_overflow)
    from run_step.IH [OF run_step.prems(1) nf no tr(1) nd(1)]
    have "cacher.held (hybrid_live view) (shared s) (clock s) k (t + cache_ttl (shared s0))" .
    from sys_step_held [OF R run_step.hyps(2) this sys_run_ok [OF R run_step.hyps(1) run_step.prems(1) nf] nd(2) _ u]
    show ?thesis using no c by simp
  qed
qed

lemma sys_run_prefix:
  assumes "sys_run L app s0 (xs @ (t, l) # ys) s"
  shows "\<exists>r r'. sys_run L app s0 xs r \<and> t = clock r \<and> sys_step L app r l r' \<and> clock r \<le> clock s"
  using assms
proof (induction "xs @ (t, l) # ys" s arbitrary: ys rule: sys_run.induct)
  case (run_step tr s l' s')
  show ?case
  proof (cases ys rule: rev_cases)
    case Nil
    with run_step show ?thesis using sys_step_clock [OF run_step.hyps(3)] by auto
  next
    case (snoc zs z)
    with run_step.hyps(4) have "tr = xs @ (t, l) # zs" by simp
    from run_step.hyps(2) [OF this] obtain r r' where
      "sys_run L app s0 xs r" "t = clock r" "sys_step L app r l r'" "clock r \<le> clock s" by blast
    moreover from this(4) sys_step_clock [OF run_step.hyps(3)] have "clock r \<le> clock s'" by simp
    ultimately show ?thesis by blast
  qed
qed simp

section \<open>Who is granted, sends and answers\<close>

fun granted_of :: "string \<Rightarrow> u64 \<times> label \<Rightarrow> nat option" where
  "granted_of k (t, Granted i k') = (if k' = k then Some i else None)"
| "granted_of k x = None"

fun sent_of :: "string \<Rightarrow> u64 \<times> label \<Rightarrow> nat option" where
  "sent_of k (t, Sent i k') = (if k' = k then Some i else None)"
| "sent_of k x = None"

text \<open>The tasks that were granted a key, and those that sent a request for it, in order.\<close>

definition granted_ids :: "string \<Rightarrow> (u64 \<times> label) list \<Rightarrow> nat list" where
  "granted_ids k tr = List.map_filter (granted_of k) tr"

definition sent_ids :: "string \<Rightarrow> (u64 \<times> label) list \<Rightarrow> nat list" where
  "sent_ids k tr = List.map_filter (sent_of k) tr"

lemma granted_ids_simps [simp]:
  "granted_ids k [] = []"
  "granted_ids k (xs @ ys) = granted_ids k xs @ granted_ids k ys"
  "granted_ids k ((t, l) # xs) = (case l of Granted i k' \<Rightarrow> if k' = k then [i] else [] | _ \<Rightarrow> []) @ granted_ids k xs"
  by (simp_all add: granted_ids_def map_filter_def split: label.splits)

lemma sent_ids_simps [simp]:
  "sent_ids k [] = []"
  "sent_ids k (xs @ ys) = sent_ids k xs @ sent_ids k ys"
  "sent_ids k ((t, l) # xs) = (case l of Sent i k' \<Rightarrow> if k' = k then [i] else [] | _ \<Rightarrow> []) @ sent_ids k xs"
  by (simp_all add: sent_ids_def map_filter_def split: label.splits)

text \<open>
  What a task's place says about the trace: a task about to send was granted its key, one that
  waits for the answer has sent, one that stores has an answer; and each does so once.
\<close>

definition before_sending :: "('h, 'u) pc \<Rightarrow> bool" where
  "before_sending p = (case p of Idle \<Rightarrow> True | Obtaining _ _ \<Rightarrow> True | Sending _ _ _ \<Rightarrow> True | _ \<Rightarrow> False)"

definition before_answer :: "('h, 'u) pc \<Rightarrow> bool" where
  "before_answer p = (before_sending p \<or> (case p of Waiting _ _ \<Rightarrow> True | _ \<Rightarrow> False))"

lemmas pc_defs = begin_task_def after_obtain_def after_poll_def after_reply_def after_store_def
  after_delete_def reply_label_def

definition answers_of :: "nat \<Rightarrow> (u64 \<times> label) list \<Rightarrow> (string \<times> response_data) set" where
  "answers_of i tr = {(k, rd). \<exists>t. (t, Answered i k rd) \<in> set tr}"

lemma answers_of_simps [simp]:
  "answers_of i [] = {}"
  "answers_of i (xs @ ys) = answers_of i xs \<union> answers_of i ys"
  "answers_of i [(t, l)] = (case l of Answered j k rd \<Rightarrow> if j = i then {(k, rd)} else {} | _ \<Rightarrow> {})"
  by (auto simp: answers_of_def split: label.splits)

definition orderly :: "(u64 \<times> label) list \<Rightarrow> nat \<Rightarrow> ('h, 'u) pc \<Rightarrow> bool" where
  "orderly tr i p \<longleftrightarrow>
     (case p of Sending _ adm _ \<Rightarrow> i \<in> set (granted_ids (adm_key adm) tr)
        | Waiting _ k \<Rightarrow> i \<in> set (sent_ids k tr) | _ \<Rightarrow> True) \<and>
     (\<forall>k. i \<in> set (sent_ids k tr) \<longrightarrow> i \<in> set (granted_ids k tr) \<and> count_list (sent_ids k tr) i = 1) \<and>
     (before_sending p \<longrightarrow> (\<forall>k. i \<notin> set (sent_ids k tr))) \<and>
     (\<forall>k rd. (k, rd) \<in> answers_of i tr \<longrightarrow> i \<in> set (sent_ids k tr)) \<and>
     (before_answer p \<longrightarrow> answers_of i tr = {}) \<and> (\<exists>x. answers_of i tr \<subseteq> {x})"

fun label_task :: "label \<Rightarrow> nat option" where
  "label_task (Granted i k) = Some i"
| "label_task (Refused i k) = Some i"
| "label_task (Sent i k) = Some i"
| "label_task (Answered i k rd) = Some i"
| "label_task (Stored i k) = Some i"
| "label_task (StoreFailed i k) = Some i"
| "label_task (Deleted i k) = Some i"
| "label_task (DeleteCut i k) = Some i"
| "label_task Internal = None"

lemma orderly_start: "orderly [] i Idle"
  by (simp add: orderly_def)

lemma orderly_other: "label_task l \<noteq> Some i \<Longrightarrow> orderly tr i p \<Longrightarrow> orderly (tr @ [(t, l)]) i p"
  by (cases l) (auto simp: orderly_def split: pc.splits)

text \<open>A step that neither sends nor answers, and leaves its task past those points.\<close>

lemma orderly_quiet:
  assumes "orderly tr i p" and "\<forall>j k. l \<noteq> Sent j k" and "\<forall>j k rd. l \<noteq> Answered j k rd"
    and "before_answer p' \<Longrightarrow> before_answer p" and "before_sending p' \<Longrightarrow> before_sending p"
    and "\<And>req adm up. p' = Sending req adm up \<Longrightarrow> l = Granted i (adm_key adm)" and "\<And>req k. p' \<noteq> Waiting req k"
  shows "orderly (tr @ [(t, l)]) i p'"
proof -
  have n: "sent_ids k [(t, l)] = []" "answers_of i [(t, l)] = {}" for k
    using assms(2,3) by (cases l; simp)+
  have g: "case p' of Sending _ adm _ \<Rightarrow> i \<in> set (granted_ids (adm_key adm) (tr @ [(t, l)]))
        | Waiting _ k \<Rightarrow> i \<in> set (sent_ids k tr @ []) | _ \<Rightarrow> True"
  proof (cases p')
    case (Sending req adm up)
    with assms(6) [OF Sending] show ?thesis by simp
  qed (use assms(7) in simp_all)
  show ?thesis
    unfolding orderly_def sent_ids_simps(2) answers_of_simps(2) n
    using g assms(1,4,5) by (simp add: orderly_def n del: sent_ids_simps(3) answers_of_simps(3))
qed

lemma orderly_upd:
  assumes "\<forall>j. orderly tr j (ts j)" and "label_task l = None \<or> label_task l = Some i"
    and "orderly (tr @ [(t, l)]) i p"
  shows "\<forall>j. orderly (tr @ [(t, l)]) j ((ts(i := p)) j)"
proof
  fix j
  show "orderly (tr @ [(t, l)]) j ((ts(i := p)) j)"
    using assms(1) [rule_format, of j] assms(2,3) orderly_other [of l j tr "ts j" t] by auto
qed

lemma orderly_same:
  assumes "\<forall>j. orderly tr j (ts j)" shows "\<forall>j. orderly (tr @ [(t, Internal)]) j (ts j)"
proof
  fix j
  show "orderly (tr @ [(t, Internal)]) j (ts j)"
    using assms [rule_format, of j] orderly_other [of Internal j tr "ts j" t] by simp
qed

text \<open>Where the steps leave a task.\<close>

lemmas place_defs = before_sending_def before_answer_def

lemma begin_task_place:
  "begin_task L app req now \<noteq> Sending r a u" "begin_task L app req now \<noteq> Waiting r k"
  by (simp_all add: begin_task_def split: outcome.splits)

lemma after_obtain_place:
  "after_obtain L app req adm h r = Sending r' a u \<Longrightarrow> r = Ok True \<and> a = adm" "after_obtain L app req adm h r \<noteq> Waiting r' k"
  by (simp_all add: after_obtain_def split: outcome.splits bool.splits if_splits)

lemma after_poll_place:
  "after_poll L key n p \<noteq> Sending r a u" "after_poll L key n p \<noteq> Waiting r k"
  "\<not> before_sending (after_poll L key n p)" "\<not> before_answer (after_poll L key n p)"
  by (simp_all add: after_poll_def place_defs split: polled.splits)

lemma after_reply_place:
  "after_reply key v \<noteq> Sending r a u" "after_reply key v \<noteq> Waiting r k"
  "\<not> before_sending (after_reply key v)" "\<not> before_answer (after_reply key v)"
  by (simp_all add: after_reply_def place_defs split: outcome.splits verdict.splits)

lemma sys_step_orderly:
  assumes "sys_step L app s l s'" and "\<forall>i. orderly tr i (tasks s i)"
  shows "\<forall>i. orderly (tr @ [(clock s, l)]) i (tasks s' i)"
  using assms
proof (induction rule: sys_step.induct)
  case (arrive s i req)
  have "orderly (tr @ [(clock s, Internal)]) i (begin_task L app req (clock s))"
    by (rule orderly_quiet [OF arrive(2) [rule_format, of i]])
      (simp_all add: arrive(1) place_defs begin_task_place)
  from orderly_upd [OF arrive(2) _ this] show ?case by simp
next
  case (take s i req adm r h)
  let ?l = "if r = Ok True then Granted i (adm_key adm) else Refused i (adm_key adm)"
  have "orderly (tr @ [(clock s, ?l)]) i (after_obtain L app req adm h r)"
    by (rule orderly_quiet [OF take(3) [rule_format, of i]])
      (auto simp: take(1) place_defs after_obtain_place dest: after_obtain_place(1))
  from orderly_upd [OF take(3) _ this] show ?case by simp
next
  case (give_up s i key)
  have "orderly (tr @ [(clock s, Internal)]) i (Finished (Some key) (Err (bad_gateway ''polling get cache timeout'')))"
    by (rule orderly_quiet [OF give_up(2) [rule_format, of i]]) (simp_all add: place_defs)
  from orderly_upd [OF give_up(2) _ this] show ?case by simp
next
  case (poll s i key n p h)
  have "orderly (tr @ [(clock s, Internal)]) i (after_poll L key n p)"
    by (rule orderly_quiet [OF poll(3) [rule_format, of i]]) (simp_all add: after_poll_place)
  from orderly_upd [OF poll(3) _ this] show ?case by simp
next
  case (send s i req adm up)
  have "orderly (tr @ [(clock s, Sent i (adm_key adm))]) i (Waiting req (adm_key adm))"
    using send(2) [rule_format, of i] by (auto simp: send(1) orderly_def place_defs count_list_0_iff)
  from orderly_upd [OF send(2) _ this] show ?case by simp
next
  case (reply s i req key v answer)
  have "orderly (tr @ [(clock s, reply_label i key v)]) i (after_reply key v)"
  proof (cases "\<exists>rd data. v = Ok (Store rd data)")
    case True
    with reply(3) [rule_format, of i] show ?thesis
      by (auto simp: reply(1) orderly_def place_defs reply_label_def after_reply_def)
  next
    case False
    then have "reply_label i key v = Internal"
      by (auto simp: reply_label_def split: outcome.splits verdict.splits)
    then show ?thesis
      by (intro orderly_quiet [OF reply(3) [rule_format, of i]]) (simp_all add: after_reply_place)
  qed
  from orderly_upd [OF reply(3) _ this] show ?case
    by (simp add: reply_label_def split: outcome.splits verdict.splits)
next
  case (store s i key rd data r h)
  let ?l = "if r = Ok True then Stored i key else StoreFailed i key"
  have "orderly (tr @ [(clock s, ?l)]) i (after_store key rd r)"
    by (rule orderly_quiet [OF store(3) [rule_format, of i]]) (simp_all add: place_defs after_store_def)
  from orderly_upd [OF store(3) _ this] show ?case by simp
next
  case (delete s i key status msg d h)
  have "orderly (tr @ [(clock s, Deleted i key)]) i (after_delete key status msg d)"
    by (rule orderly_quiet [OF delete(3) [rule_format, of i]]) (simp_all add: place_defs after_delete_def)
  from orderly_upd [OF delete(3) _ this] show ?case by simp
next
  case (cut_obtain s i req adm h)
  have "orderly (tr @ [(clock s, Internal)]) i Dropped"
    by (rule orderly_quiet [OF cut_obtain(3) [rule_format, of i]]) (simp_all add: place_defs)
  from orderly_upd [OF cut_obtain(3) _ this] show ?case by simp
next
  case (cut_delete s i key status msg h)
  have "orderly (tr @ [(clock s, DeleteCut i key)]) i Dropped"
    by (rule orderly_quiet [OF cut_delete(3) [rule_format, of i]]) (simp_all add: place_defs)
  from orderly_upd [OF cut_delete(3) _ this] show ?case by simp
next
  case (drop_task s i)
  have "orderly (tr @ [(clock s, Internal)]) i Dropped"
    by (rule orderly_quiet [OF drop_task(1) [rule_format, of i]]) (simp_all add: place_defs)
  from orderly_upd [OF drop_task(1) _ this] show ?case by simp
qed (auto dest: orderly_same)

lemma sys_run_orderly:
  "sys_run L app s0 tr s \<Longrightarrow> tasks s0 = (\<lambda>_. Idle) \<Longrightarrow> orderly tr i (tasks s i)"
proof -
  assume "sys_run L app s0 tr s" "tasks s0 = (\<lambda>_. Idle)"
  then have "\<forall>i. orderly tr i (tasks s i)"
    by (induction rule: sys_run.induct) (simp add: orderly_start, metis sys_step_orderly)
  then show ?thesis ..
qed

section \<open>Counting\<close>

lemma distinct_by_count: "\<forall>x\<in>set xs. count_list xs x = 1 \<Longrightarrow> distinct xs"
proof (induction xs)
  case (Cons a xs)
  then have n: "a \<notin> set xs" by (auto simp: count_list_0_iff [symmetric])
  have "\<forall>x\<in>set xs. count_list xs x = 1"
  proof
    fix x
    assume "x \<in> set xs"
    with n have "x \<noteq> a" by auto
    with Cons.prems \<open>x \<in> set xs\<close> show "count_list xs x = 1" by (metis count_list.simps(2) list.set_intros(2))
  qed
  with Cons.IH n show ?case by simp
qed simp

text \<open>Every task that sends was granted its key, and sends once.\<close>

lemma sys_run_sent_granted:
  assumes "sys_run L app s0 tr s" and "tasks s0 = (\<lambda>_. Idle)"
  shows "distinct (sent_ids k tr)" and "set (sent_ids k tr) \<subseteq> set (granted_ids k tr)"
    and "length (sent_ids k tr) \<le> length (granted_ids k tr)"
proof -
  have o: "orderly tr i (tasks s i)" for i by (rule sys_run_orderly [OF assms])
  show d: "distinct (sent_ids k tr)"
    by (rule distinct_by_count) (use o in \<open>auto simp: orderly_def\<close>)
  show sub: "set (sent_ids k tr) \<subseteq> set (granted_ids k tr)"
    using o by (auto simp: orderly_def)
  have "length (sent_ids k tr) = card (set (sent_ids k tr))" using d by (simp add: distinct_card)
  also have "\<dots> \<le> card (set (granted_ids k tr))" using sub by (simp add: card_mono)
  also have "\<dots> \<le> length (granted_ids k tr)" by (rule card_length)
  finally show "length (sent_ids k tr) \<le> length (granted_ids k tr)" .
qed

lemma granted_ids_step: "granted_ids k [(t, l)] \<noteq> [] \<longleftrightarrow> (\<exists>i. l = Granted i k)"
  by (cases l) auto

lemma length_granted_step: "length (granted_ids k [(t, l)]) \<le> 1"
  by (cases l) auto

text \<open>
  Every grant of a key but the first takes a deletion of the key or a lifetime: either the key is free, or
  the last grant, made at \<open>t\<close>, still has its lease.
\<close>

lemma sys_run_grant_count:
  assumes R: "redis_documented (redis L) view" and "sys_run L app s0 tr s"
    and "hybrid_ok k (shared s0)" and "unspoilt k tr" and "no_overflow (clock s) (cache_ttl (shared s0))"
  shows "unat (clock s0) + (length (granted_ids k tr) - deletions k tr) * unat (cache_ttl (shared s0)) \<le> unat (clock s) \<or>
    (\<exists>t. t \<le> clock s \<and>
      unat (clock s0) + (length (granted_ids k tr) - 1 - deletions k tr) * unat (cache_ttl (shared s0)) \<le> unat t \<and>
      cacher.held (hybrid_live view) (shared s) (clock s) k (t + cache_ttl (shared s0)))"
  using assms(2-5)
proof (induction rule: sys_run.induct)
  case run_start
  then show ?case by simp
next
  case (run_step tr s l s')
  let ?ttl = "cache_ttl (shared s0)" and ?n = "length (granted_ids k tr)" and ?d = "deletions k tr"
  let ?free = "unat (clock s0) + (?n - ?d) * unat ?ttl \<le> unat (clock s)"
  let ?taken = "\<lambda>t. t \<le> clock s \<and> unat (clock s0) + (?n - 1 - ?d) * unat ?ttl \<le> unat t \<and>
      cacher.held (hybrid_live view) (shared s) (clock s) k (t + ?ttl)"
  have c: "cache_ttl (shared s) = ?ttl" using sys_run_config [OF run_step.hyps(1)] by simp
  have le: "clock s \<le> clock s'" by (rule sys_step_clock [OF run_step.hyps(2)])
  then have lu: "unat (clock s) \<le> unat (clock s')" by (simp add: word_le_nat_alt)
  have no: "no_overflow (clock s) ?ttl" using run_step.prems(3) le no_overflow_mono by blast
  from run_step.prems(2) have nf: "unspoilt k tr" and nl: "\<forall>i. l \<noteq> DeleteCut i k" by auto
  have ok: "hybrid_ok k (shared s)" by (rule sys_run_ok [OF R run_step.hyps(1) run_step.prems(1) nf])
  from run_step.IH [OF run_step.prems(1) nf no] have IH: "?free \<or> (\<exists>t. ?taken t)" .
  consider (grant) i where "l = Granted i k" | (deletion) i where "l = Deleted i k"
    | (other) "\<forall>i. l \<noteq> Granted i k" "\<forall>i. l \<noteq> Deleted i k" by blast
  then show ?case
  proof cases
    case grant
    have "unat (clock s0) + (?n - ?d) * unat ?ttl \<le> unat (clock s)"
      using IH
    proof
      assume "\<exists>t. ?taken t"
      then obtain t where t: "?taken t" by blast
      then have "t + ?ttl \<le> clock s" using sys_step_held_refuses [OF R run_step.hyps(2) grant] by blast
      then have "unat t + unat ?ttl \<le> unat (clock s)"
        using no_overflow_mono [OF no, of t] t by (simp add: word_le_nat_alt unat_add_no_overflow)
      moreover have "(?n - ?d) * unat ?ttl \<le> Suc (?n - 1 - ?d) * unat ?ttl" by (rule mult_le_mono1) linarith
      then have "(?n - ?d) * unat ?ttl \<le> unat ?ttl + (?n - 1 - ?d) * unat ?ttl" by simp
      ultimately show ?thesis using t by linarith
    qed
    moreover have "cacher.held (hybrid_live view) (shared s') (clock s') k (clock s + ?ttl)"
      using sys_step_grant [OF R run_step.hyps(2) grant] no c by simp
    ultimately show ?thesis using le by (auto simp: grant)
  next
    case deletion
    have n: "length (granted_ids k (tr @ [(clock s, l)])) = ?n" "deletions k (tr @ [(clock s, l)]) = Suc ?d"
      by (simp_all add: deletion)
    from IH have "unat (clock s0) + (?n - Suc ?d) * unat ?ttl \<le> unat (clock s')"
    proof
      assume ?free
      moreover have "(?n - Suc ?d) * unat ?ttl \<le> (?n - ?d) * unat ?ttl" by (rule mult_le_mono1) linarith
      ultimately show ?thesis using lu by linarith
    next
      assume "\<exists>t. ?taken t"
      then obtain t where t: "?taken t" by blast
      then have "unat t \<le> unat (clock s)" by (simp add: word_le_nat_alt)
      moreover have e: "?n - Suc ?d = ?n - 1 - ?d" by simp
      ultimately show ?thesis using t lu unfolding e by linarith
    qed
    then show ?thesis unfolding n ..
  next
    case other
    have n: "length (granted_ids k (tr @ [(clock s, l)])) = ?n" "deletions k (tr @ [(clock s, l)]) = ?d"
      using other by (auto split: label.splits)
    from IH show ?thesis
    proof
      assume ?free
      then show ?thesis unfolding n using lu by linarith
    next
      assume "\<exists>t. ?taken t"
      then obtain t where t: "?taken t" by blast
      have "t + ?ttl \<le> clock s + cache_ttl (shared s)" using t no c by (simp add: add_mono_no_overflow)
      with sys_step_held [OF R run_step.hyps(2) _ ok, of "t + ?ttl"] t other(2) nl no c
      have "cacher.held (hybrid_live view) (shared s') (clock s') k (t + ?ttl)" by simp
      moreover have "t \<le> clock s'" using t le order.trans by blast
      ultimately show ?thesis unfolding n using t by blast
    qed
  qed
qed

lemma sys_run_sent_count:
  assumes "redis_documented (redis L) view" and "sys_run L app s0 tr s" and "tasks s0 = (\<lambda>_. Idle)"
    and "hybrid_ok k (shared s0)" and "unspoilt k tr"
    and "0 < cache_ttl (shared s0)" and "no_overflow (clock s) (cache_ttl (shared s0))"
  shows "length (sent_ids k tr) \<le>
    1 + deletions k tr + (unat (clock s) - unat (clock s0)) div unat (cache_ttl (shared s0))"
proof -
  let ?ttl = "unat (cache_ttl (shared s0))" and ?n = "length (granted_ids k tr)" and ?d = "deletions k tr"
  have "unat (clock s0) + (?n - 1 - ?d) * ?ttl \<le> unat (clock s)"
    using sys_run_grant_count [OF assms(1,2,4,5,7)]
  proof
    assume "unat (clock s0) + (?n - ?d) * ?ttl \<le> unat (clock s)"
    moreover have "(?n - 1 - ?d) * ?ttl \<le> (?n - ?d) * ?ttl" by (rule mult_le_mono1) linarith
    ultimately show ?thesis by linarith
  qed (auto simp: word_le_nat_alt)
  then have "(?n - 1 - ?d) * ?ttl \<le> unat (clock s) - unat (clock s0)" by linarith
  moreover have "0 < ?ttl" using assms(6) by (simp add: word_less_nat_alt)
  ultimately have "?n - 1 - ?d \<le> (unat (clock s) - unat (clock s0)) div ?ttl"
    by (simp add: less_eq_div_iff_mult_less_eq)
  with sys_run_sent_granted(3) [OF assms(2,3), of k] show ?thesis by linarith
qed

section \<open>Where answers come from\<close>

definition answered_values :: "('j, 'm, 'c) codec_lib \<Rightarrow> (u64 \<times> label) list \<Rightarrow> (string \<times> bytes) set" where
  "answered_values C tr = {(k, w). \<exists>i t rd. (t, Answered i k rd) \<in> set tr \<and> response_encode C rd = Ok w}"

text \<open>
  Everything polls could return, everything about to be stored and everything that was returned to
  a client is a response some task got from upstream for that key.
\<close>

definition task_sourced :: "('j, 'm, 'c) codec_lib \<Rightarrow> (u64 \<times> label) list \<Rightarrow> ('h, 'u) pc \<Rightarrow> bool" where
  "task_sourced C tr p = (case p of
     Storing k rd data \<Rightarrow> (\<exists>i t. (t, Answered i k rd) \<in> set tr) \<and> response_encode C rd = Ok data
   | Finished (Some k) (Ok rd) \<Rightarrow> (\<exists>i t. (t, Answered i k rd) \<in> set tr)
   | Finished None (Ok rd) \<Rightarrow> False
   | _ \<Rightarrow> True)"

lemma answered_values_mono: "answered_values C tr \<subseteq> answered_values C (tr @ xs)"
  by (auto simp: answered_values_def)

lemma task_sourced_mono: "task_sourced C tr p \<Longrightarrow> task_sourced C (tr @ xs) p"
  by (auto simp: task_sourced_def split: pc.splits option.splits outcome.splits)

definition sys_sourced where
  "sys_sourced view C tr s \<longleftrightarrow>
     cacher_source.sourced (hybrid_source view) (shared s) (clock s) (answered_values C tr) \<and>
     (\<forall>i. task_sourced C tr (tasks s i))"

lemma task_sourced_upd:
  assumes "\<forall>j. task_sourced C tr (ts j)" and "task_sourced C (tr @ xs) p"
  shows "\<forall>j. task_sourced C (tr @ xs) ((ts(i := p)) j)"
proof
  fix j
  show "task_sourced C (tr @ xs) ((ts(i := p)) j)"
    using assms(1) [rule_format, of j] assms(2) task_sourced_mono [of C tr "ts j" xs] by simp
qed

lemma task_sourced_place:
  "task_sourced C tr (begin_task L app req now)" "task_sourced C tr (after_obtain L app req adm h r)"
  "task_sourced C tr (after_delete key status msg d)" "task_sourced C tr Dropped"
  "task_sourced C tr (Finished x (Err e))" "task_sourced C tr (Waiting req key)"
  by (auto simp: task_sourced_def pc_defs split: outcome.splits bool.splits option.splits)

text \<open>A round that returns a value returns a response the trace has; so does a stored one.\<close>

lemma task_sourced_poll:
  assumes "response_codec_documented (codec L)"
    and "\<And>w. p = PollDone (Ok w) \<Longrightarrow> (key, w) \<in> answered_values (codec L) tr"
  shows "task_sourced (codec L) tr (after_poll L key n p)"
proof (cases p)
  case (PollDone r)
  show ?thesis
  proof (cases r)
    case (Ok w)
    with assms(2) PollDone obtain i t rd where a: "(t, Answered i key rd) \<in> set tr" "response_encode (codec L) rd = Ok w"
      by (auto simp: answered_values_def)
    with assms(1) have "response_decode (codec L) w = Ok rd" by (auto simp: response_codec_documented_def)
    with a(1) PollDone Ok show ?thesis
      by (auto simp: task_sourced_def after_poll_def response_try_from_def)
  qed (simp_all add: PollDone task_sourced_def after_poll_def)
qed (simp add: task_sourced_def after_poll_def)

lemma task_sourced_reply:
  assumes "v = and_then (map_err bad_gateway answer) (handle_response L req)"
  shows "task_sourced (codec L) (tr @ [(now, reply_label i key v)]) (after_reply key v)"
proof (cases v)
  case (Ok x)
  show ?thesis
  proof (cases x)
    case (Store rd data)
    with assms Ok have "response_encode (codec L) rd = Ok data"
      by (cases answer) (auto intro: handle_response_Store)
    with Ok Store show ?thesis by (auto simp: task_sourced_def after_reply_def reply_label_def)
  qed (simp add: Ok task_sourced_def after_reply_def)
qed (simp_all add: task_sourced_def after_reply_def)

lemma task_sourced_store:
  assumes "\<exists>i t. (t, Answered i key rd) \<in> set tr"
  shows "task_sourced C tr (after_store key rd r)"
  using assms by (cases r) (simp_all add: task_sourced_def after_store_def)

lemma sys_step_sourced:
  assumes R: "redis_documented (redis L) view" and codec: "response_codec_documented (codec L)"
    and "sys_step L app s l s'" and "sys_sourced view (codec L) tr s"
    and "no_overflow (clock s) (cache_ttl (shared s))"
  shows "sys_sourced view (codec L) (tr @ [(clock s, l)]) s'"
proof -
  note S = hybrid_is_cacher_source [OF R]
  let ?V = "answered_values (codec L) tr" and ?src = "cacher_source.sourced (hybrid_source view)"
  have more: "?src c now ?V \<Longrightarrow> ?src c now (answered_values (codec L) (tr @ xs))" for c now xs
    by (rule cacher_source.sourced_more [OF S _ answered_values_mono])
  from assms(3-5) show ?thesis
  proof (induction rule: sys_step.induct)
    case (arrive s i req)
    then show ?case using task_sourced_upd [of "codec L" tr "tasks s"] by (simp add: sys_sourced_def more task_sourced_place)
  next
    case (take s i req adm r h)
    from take(3) have v: "?src (shared s) (clock s) ?V" "\<forall>i. task_sourced (codec L) tr (tasks s i)"
      by (simp_all add: sys_sourced_def)
    from cacher_source.sourced_obt [OF S v(1) take(2,4)] task_sourced_upd [OF v(2)]
    show ?case by (simp add: sys_sourced_def more task_sourced_place)
  next
    case (give_up s i key)
    then show ?case using task_sourced_upd [of "codec L" tr "tasks s"] by (simp add: sys_sourced_def more task_sourced_place)
  next
    case (poll s i key n p h)
    from poll(3) have v: "?src (shared s) (clock s) ?V" "\<forall>i. task_sourced (codec L) tr (tasks s i)"
      by (simp_all add: sys_sourced_def)
    have "task_sourced (codec L) tr (after_poll L key n p)"
      by (rule task_sourced_poll [OF codec]) (use cacher_source.sourced_answer [OF S v(1)] poll(2) in blast)
    with cacher_source.sourced_pol [OF S v(1) poll(2)] task_sourced_upd [OF v(2)]
    show ?case by (simp add: sys_sourced_def more task_sourced_mono)
  next
    case (send s i req adm up)
    then show ?case using task_sourced_upd [of "codec L" tr "tasks s"] by (simp add: sys_sourced_def more task_sourced_place)
  next
    case (reply s i req key v answer)
    then show ?case using task_sourced_upd [of "codec L" tr "tasks s"]
      by (simp add: sys_sourced_def more task_sourced_reply)
  next
    case (store s i key rd data r h)
    from store(3) have v: "?src (shared s) (clock s) ?V" "\<forall>i. task_sourced (codec L) tr (tasks s i)"
      by (simp_all add: sys_sourced_def)
    with store(1) v(2) [rule_format, of i] have t: "\<exists>i t. (t, Answered i key rd) \<in> set tr"
      and e: "response_encode (codec L) rd = Ok data" by (simp_all add: task_sourced_def)
    then have "(key, data) \<in> ?V" by (auto simp: answered_values_def)
    from cacher_source.sourced_put [OF S v(1) store(2,4) this] v(2)
    show ?case by (simp add: sys_sourced_def more task_sourced_mono task_sourced_store [OF t])
  next
    case (delete s i key status msg d h)
    from delete(3) have v: "?src (shared s) (clock s) ?V" "\<forall>i. task_sourced (codec L) tr (tasks s i)"
      by (simp_all add: sys_sourced_def)
    from cacher_source.sourced_del [OF S v(1) delete(2)] task_sourced_upd [OF v(2)]
    show ?case by (simp add: sys_sourced_def more task_sourced_place)
  next
    case (cut_obtain s i req adm h)
    from cut_obtain(3) have v: "?src (shared s) (clock s) ?V" "\<forall>i. task_sourced (codec L) tr (tasks s i)"
      by (simp_all add: sys_sourced_def)
    from cacher_cut.sourced_obt_cut [OF hybrid_is_cacher_cut [OF R] v(1) cut_obtain(2)] task_sourced_upd [OF v(2)]
    show ?case by (simp add: sys_sourced_def more task_sourced_place)
  next
    case (cut_delete s i key status msg h)
    from cut_delete(3) have v: "?src (shared s) (clock s) ?V" "\<forall>i. task_sourced (codec L) tr (tasks s i)"
      by (simp_all add: sys_sourced_def)
    from cacher_cut.sourced_del_cut [OF hybrid_is_cacher_cut [OF R] v(1) cut_delete(2)] task_sourced_upd [OF v(2)]
    show ?case by (simp add: sys_sourced_def more task_sourced_place)
  next
    case (drop_task s i)
    then show ?case using task_sourced_upd [of "codec L" tr "tasks s"] by (simp add: sys_sourced_def more task_sourced_place)
  next
    case (clean t s)
    then show ?case by (simp add: sys_sourced_def more cacher_source.sourced_bg [OF S] task_sourced_mono)
  next
    case (tick s t)
    then have "?src (shared s) t ?V" using cacher_source.sourced_later [OF S] by (auto simp: sys_sourced_def)
    with tick show ?case by (simp add: sys_sourced_def more task_sourced_mono)
  qed
qed

lemma sys_run_sourced:
  assumes R: "redis_documented (redis L) view" and codec: "response_codec_documented (codec L)"
    and "sys_run L app s0 tr s" and "tasks s0 = (\<lambda>_. Idle)"
    and "\<forall>k w. \<not> hybrid_source view (shared s0) (clock s0) k w"
    and "no_overflow (clock s) (cache_ttl (shared s0))"
  shows "sys_sourced view (codec L) tr s"
  using assms(3-6)
proof (induction rule: sys_run.induct)
  case run_start
  then show ?case
    by (simp add: sys_sourced_def cacher_source.sourced_def [OF hybrid_is_cacher_source [OF R]] task_sourced_def)
next
  case (run_step tr s l s')
  have no: "no_overflow (clock s) (cache_ttl (shared s0))"
    using run_step.prems(3) sys_step_clock [OF run_step.hyps(2)] no_overflow_mono by blast
  have "sys_sourced view (codec L) tr s" by (rule run_step.IH [OF run_step.prems(1,2) no])
  from sys_step_sourced [OF R codec run_step.hyps(2) this] no sys_run_config [OF run_step.hyps(1)]
  show ?case by simp
qed

section \<open>The handler in the system\<close>

text \<open>
  Running one task with nothing in between is running the handler: the steps compose to \<open>proxy\<close>.
\<close>

lemma sys_run_trans: "sys_run L app s1 tr' s2 \<Longrightarrow> sys_run L app s0 tr s1 \<Longrightarrow> sys_run L app s0 (tr @ tr') s2"
proof (induction rule: sys_run.induct)
  case run_start
  then show ?case by simp
next
  case (run_step tr' s l s')
  from sys_run.run_step [OF run_step.IH [OF run_step.prems] run_step.hyps(2)] show ?case by simp
qed

lemma sys_run_one: "sys_step L app s l s' \<Longrightarrow> sys_run L app s [(clock s, l)] s'"
  using sys_run.run_step [OF sys_run.run_start] by fastforce

lemma sys_run_tick: "clock s \<le> t \<Longrightarrow> sys_run L app s [(clock s, Internal)] (s\<lparr>clock := t\<rparr>)"
  by (rule sys_run_one [OF sys_step.tick])

definition undisturbed :: "('r, 'h, 'u) proxy_env \<Rightarrow> bool" where
  "undisturbed env \<longleftrightarrow> (\<forall>c. meanwhile env c = c) \<and>
     (\<forall>n m. others_mem (poll_others env) n m = m) \<and> (\<forall>n r. others_redis (poll_others env) n r = r)"

definition clocks_run :: "('r, 'h, 'u) proxy_env \<Rightarrow> bool" where
  "clocks_run env \<longleftrightarrow> now_verify env \<le> now_obtain env \<and> now_obtain env \<le> now_store env \<and>
     (\<forall>n. now_obtain env \<le> poll_clock env n) \<and> (\<forall>m n. m \<le> n \<longrightarrow> poll_clock env n \<le> poll_clock env m)"

lemma hybrid_others_undisturbed: "undisturbed env \<Longrightarrow> hybrid_others (poll_others env) n h = h"
  by (cases "cache h") (simp_all add: undisturbed_def hybrid_others_def)

definition answer_of :: "('h, 'v, 'j, 'm, 'c, 'u, 'r, 'es, 'ek, 'ei, 'ds, 'dk, 'di) libs
    \<Rightarrow> (bytes, string) outcome \<Rightarrow> (response_data, proxy_error) outcome" where
  "answer_of L r = and_then (map_err bad_gateway r) (\<lambda>data. map_err bad_gateway (response_try_from (codec L) data))"

lemma rounds_run:
  assumes "undisturbed env" and "clocks_run env"
    and "tasks s i = Polling key n" and "clock s \<le> poll_clock env n"
    and "hybrid_rounds (redis L) (poll_clock env) (poll_others env) (shared s) key n = (r, h)"
  shows "\<exists>tr s' x. sys_run L app s tr s' \<and> tasks s' i = Finished x (answer_of L r) \<and> shared s' = h \<and>
    (\<forall>k. sent_ids k tr = [])"
  using assms(3-5)
proof (induction n arbitrary: s)
  case 0
  let ?s' = "s\<lparr>tasks := (tasks s)(i := Finished (Some key) (Err (bad_gateway ''polling get cache timeout'')))\<rparr>"
  have "sys_run L app s [(clock s, Internal)] ?s'" by (rule sys_run_one [OF sys_step.give_up [OF 0(1)]])
  with 0(3) show ?case
    by (intro exI [of _ "[(clock s, Internal)]"] exI [of _ ?s'] exI [of _ "Some key"]) (auto simp: answer_of_def)
next
  case (Suc n)
  let ?t = "s\<lparr>clock := poll_clock env (Suc n)\<rparr>"
  obtain p g where p: "hybrid_poll (redis L) (shared s) (poll_clock env (Suc n)) key = (p, g)" by fastforce
  let ?u = "?t\<lparr>shared := g, tasks := (tasks ?t)(i := after_poll L key n p)\<rparr>"
  let ?tr = "[(clock s, Internal)] @ [(clock ?t, Internal)]"
  have "sys_step L app ?t Internal ?u"
    by (rule sys_step.poll) (use Suc.prems(1) p in simp_all)
  from sys_run_trans [OF sys_run_one [OF this] sys_run_tick [OF Suc.prems(2)]]
  have run: "sys_run L app s ?tr ?u" .
  show ?case
  proof (cases p)
    case PollAgain
    have "tasks ?u i = Polling key n" by (simp add: PollAgain after_poll_def)
    moreover have "clock ?u \<le> poll_clock env n" using assms(2) by (simp add: clocks_run_def)
    moreover have "hybrid_rounds (redis L) (poll_clock env) (poll_others env) (shared ?u) key n = (r, h)"
      using Suc.prems(3) p PollAgain by (simp add: hybrid_others_undisturbed [OF assms(1)])
    ultimately obtain tr s' x where "sys_run L app ?u tr s'" "tasks s' i = Finished x (answer_of L r)"
        "shared s' = h" "\<forall>k. sent_ids k tr = []"
      using Suc.IH [of ?u] by blast
    with sys_run_trans [OF this(1) run] show ?thesis
      by (intro exI [of _ "?tr @ tr"] exI [of _ s'] exI [of _ x]) simp
  next
    case (PollDone r')
    with Suc.prems(3) p have "r' = r" "g = h" by simp_all
    with run PollDone show ?thesis
      by (intro exI [of _ ?tr] exI [of _ ?u] exI [of _ "Some key"]) (simp add: after_poll_def answer_of_def)
  qed
qed

lemma follow_run:
  assumes "undisturbed env" and "clocks_run env" and "clock s = now_obtain env"
    and "tasks s i = after_obtain L app req adm (shared s) (Ok False)"
  shows "\<exists>tr s' x. sys_run L app s tr s' \<and> tasks s' i = Finished x (fst (follow L env (adm_key adm) (shared s))) \<and>
    shared s' = fst (snd (follow L env (adm_key adm) (shared s))) \<and> (\<forall>k. sent_ids k tr = [])"
proof (cases "poll_interval (shared s) = 0 \<or> (\<forall>u. hybrid_poll_start (redis L) (shared s) \<noteq> Ok u)")
  case True
  then show ?thesis using assms(4)
    by (intro exI [of _ "[]"] exI [of _ s] exI [of _ "Some (adm_key adm)"])
      (auto simp: sys_run.run_start after_obtain_def follow_def hybrid_polling_rounds split: outcome.splits)
next
  case False
  then obtain u where u: "poll_interval (shared s) \<noteq> 0" "hybrid_poll_start (redis L) (shared s) = Ok u" by blast
  let ?n = "unat (cache_ttl (shared s) div poll_interval (shared s))"
  obtain r h where r: "hybrid_rounds (redis L) (poll_clock env) (poll_others env) (shared s) (adm_key adm) ?n = (r, h)"
    by fastforce
  have f: "follow L env (adm_key adm) (shared s) = (answer_of L r, h, None)"
    using u r by (simp add: follow_def hybrid_polling_rounds answer_of_def)
  have "tasks s i = Polling (adm_key adm) ?n" using assms(4) u by (simp add: after_obtain_def)
  moreover have "clock s \<le> poll_clock env ?n" using assms(2,3) by (simp add: clocks_run_def)
  ultimately show ?thesis using rounds_run [OF assms(1,2) _ _ r] by (simp add: f)
qed

lemma lead_run:
  assumes "undisturbed env" and "clocks_run env" and "clock s = now_obtain env"
    and "tasks s i = after_obtain L app req adm (shared s) (Ok True)"
  shows "\<exists>tr s' x. sys_run L app s tr s' \<and> tasks s' i = Finished x (fst (lead L app env req adm (shared s))) \<and>
    shared s' = fst (snd (lead L app env req adm (shared s))) \<and>
    sent_ids (adm_key adm) tr = (if snd (snd (lead L app env req adm (shared s))) = None then [] else [i]) \<and>
    (\<forall>k. k \<noteq> adm_key adm \<longrightarrow> sent_ids k tr = [])"
proof (cases "build_upstream L app req (adm_url adm)")
  case (Ok up)
  let ?h = "shared s" and ?k = "adm_key adm"
  let ?v = "and_then (map_err bad_gateway (http_client env up)) (handle_response L req)"
  let ?s1 = "s\<lparr>tasks := (tasks s)(i := Waiting req ?k)\<rparr>"
  let ?s2 = "?s1\<lparr>tasks := (tasks ?s1)(i := after_reply ?k ?v)\<rparr>"
  let ?s3 = "?s2\<lparr>clock := now_store env\<rparr>"
  let ?tr2 = "[(clock s, Sent i ?k)] @ [(clock ?s1, reply_label i ?k ?v)]"
  have "tasks s i = Sending req adm up" using assms(4) Ok by (simp add: after_obtain_def)
  from sys_run_one [OF sys_step.send [OF this]] have r1: "sys_run L app s [(clock s, Sent i ?k)] ?s1" .
  have "sys_step L app ?s1 (reply_label i ?k ?v) ?s2"
    by (rule sys_step.reply [where answer = "http_client env up"]) simp_all
  from sys_run_trans [OF sys_run_one [OF this] r1] have r2: "sys_run L app s ?tr2 ?s2" .
  have "clock ?s2 \<le> now_store env" using assms(2,3) by (simp add: clocks_run_def)
  from sys_run_trans [OF sys_run_tick [OF this] r2]
  have r3: "sys_run L app s (?tr2 @ [(clock ?s2, Internal)]) ?s3" .
  have m: "?h\<lparr>cache := meanwhile env (cache ?h)\<rparr> = ?h" using assms(1) by (simp add: undisturbed_def)
  note l = lead_upstream [OF Ok, of env ?h, unfolded Let_def m]
  have fin: ?thesis
    if "sys_run L app s tr s'" "tasks s' i = Finished x r" "shared s' = h"
      "\<And>k. sent_ids k tr = (if k = ?k then [i] else [])" "lead L app env req adm ?h = (r, h, Some up)" for tr s' x r h
    using that by (intro exI [of _ tr] exI [of _ s'] exI [of _ x]) simp
  show ?thesis
  proof (cases ?v)
    case v: (Ok v)
    show ?thesis
    proof (cases v)
      case (Store rd data)
      obtain r h where s: "hybrid_set (redis L) ?h (now_store env) ?k data (cache_ttl ?h) = (r, h)" by fastforce
      let ?l = "if r = Ok True then Stored i ?k else StoreFailed i ?k"
      have "sys_step L app ?s3 ?l (?s3\<lparr>shared := h, tasks := (tasks ?s3)(i := after_store ?k rd r)\<rparr>)"
        by (rule sys_step.store [where data = data]) (simp_all add: v Store after_reply_def s)
      note r4 = sys_run_trans [OF sys_run_one [OF this] r3]
      show ?thesis
        by (rule fin [OF r4]) (simp_all add: after_store_def reply_label_def l v Store conclude_def s)
    next
      case (Discard status msg)
      obtain d h where s: "hybrid_del (redis L) ?h (now_store env) ?k = (d, h)" by fastforce
      have "sys_step L app ?s3 (Deleted i ?k) (?s3\<lparr>shared := h, tasks := (tasks ?s3)(i := after_delete ?k status msg d)\<rparr>)"
        by (rule sys_step.delete) (simp_all add: v Discard after_reply_def s)
      note r4 = sys_run_trans [OF sys_run_one [OF this] r3]
      have c: "conclude (redis L) (now_store env) ?k v ?h = (case d of Panic m \<Rightarrow> Panic m | _ \<Rightarrow> Err (status, msg), h)"
        by (cases d) (simp_all add: Discard conclude_def s)
      show ?thesis
        by (rule fin [OF r4]) (simp_all add: after_delete_def reply_label_def l v Discard c [unfolded Discard])
    qed
  next
    case (Err e)
    show ?thesis by (rule fin [OF r2]) (simp_all add: l Err after_reply_def reply_label_def)
  next
    case (Panic e)
    show ?thesis by (rule fin [OF r2]) (simp_all add: l Panic after_reply_def reply_label_def)
  qed
next
  case (Err e)
  with assms(4) show ?thesis
    by (intro exI [of _ "[]"] exI [of _ s] exI [of _ "Some (adm_key adm)"])
      (simp add: sys_run.run_start after_obtain_def lead_def)
next
  case (Panic e)
  with assms(4) show ?thesis
    by (intro exI [of _ "[]"] exI [of _ s] exI [of _ "Some (adm_key adm)"])
      (simp add: sys_run.run_start after_obtain_def lead_def)
qed

lemma proxy_run:
  fixes L :: "('h, 'v, 'j, 'm, 'c, 'u, 'r, 'es, 'ek, 'ei, 'ds, 'dk, 'di) libs"
  assumes "undisturbed env" and "clocks_run env"
  shows "\<exists>tr s x. sys_run L app (sys_start h (now_verify env)) tr s \<and>
    tasks s i = Finished x (fst (proxy L app env req h)) \<and> shared s = fst (snd (proxy L app env req h)) \<and>
    (snd (snd (proxy L app env req h)) = None \<longleftrightarrow> (\<forall>k. sent_ids k tr = []))"
proof -
  let ?s0 = "sys_start h (now_verify env) :: ('r, 'h, 'u) sys"
  let ?s1 = "?s0\<lparr>tasks := (tasks ?s0)(i := begin_task L app req (clock ?s0))\<rparr>"
  have "tasks ?s0 i = Idle" by (simp add: sys_start_def)
  from sys_run_one [OF sys_step.arrive [OF this]]
  have r1: "sys_run L app ?s0 [(clock ?s0, Internal)] ?s1" .
  have fin: ?thesis
    if "sys_run L app ?s0 tr s" "tasks s i = Finished x r" "shared s = g" "proxy L app env req h = (r, g, u)"
      "u = None \<longleftrightarrow> (\<forall>k. sent_ids k tr = [])" for tr s x r g u
    using that by (intro exI [of _ tr] exI [of _ s] exI [of _ x]) simp
  show ?thesis
  proof (cases "admit L app req (now_verify env)")
    case (Ok adm)
    obtain r g where o: "hybrid_obtain (redis L) h (now_obtain env) (adm_key adm) (cache_ttl h) = (r, g)" by fastforce
    let ?s2 = "?s1\<lparr>clock := now_obtain env\<rparr>"
    let ?s3 = "?s2\<lparr>shared := g, tasks := (tasks ?s2)(i := after_obtain L app req adm g r)\<rparr>"
    let ?l = "if r = Ok True then Granted i (adm_key adm) else Refused i (adm_key adm)"
    have "clock ?s1 \<le> now_obtain env" using assms(2) by (simp add: sys_start_def clocks_run_def)
    from sys_run_trans [OF sys_run_tick [OF this] r1]
    have r2: "sys_run L app ?s0 ([(clock ?s0, Internal)] @ [(clock ?s1, Internal)]) ?s2" .
    have "sys_step L app ?s2 ?l ?s3"
      by (rule sys_step.take) (simp_all add: sys_start_def begin_task_def Ok o)
    from sys_run_trans [OF sys_run_one [OF this] r2]
    have r3: "sys_run L app ?s0 (([(clock ?s0, Internal)] @ [(clock ?s1, Internal)]) @ [(clock ?s2, ?l)]) ?s3" .
    have c: "clock ?s3 = now_obtain env" "shared ?s3 = g" by simp_all
    show ?thesis
    proof (cases "\<exists>b. r = Ok b")
      case True
      then obtain b where b: "r = Ok b" by blast
      show ?thesis
      proof (cases b)
        case True
        have t: "tasks ?s3 i = after_obtain L app req adm (shared ?s3) (Ok True)" by (simp add: b True)
        from lead_run [OF assms c(1) t, unfolded c(2)] obtain tr s' x where l: "sys_run L app ?s3 tr s'"
          "tasks s' i = Finished x (fst (lead L app env req adm g))" "shared s' = fst (snd (lead L app env req adm g))"
          "sent_ids (adm_key adm) tr = (if snd (snd (lead L app env req adm g)) = None then [] else [i])"
          "\<forall>k. k \<noteq> adm_key adm \<longrightarrow> sent_ids k tr = []"
          by blast
        obtain a1 a2 a3 where a: "lead L app env req adm g = (a1, a2, a3)" by (metis prod.collapse)
        then have p: "proxy L app env req h = (a1, a2, a3)" using Ok o b True by (simp add: proxy_def)
        have "a3 = None \<longleftrightarrow> (\<forall>k. sent_ids k tr = [])" 
        proof (cases a3)
          case None
          then have "sent_ids k tr = []" for k using l(4,5) a by (cases "k = adm_key adm") simp_all
          with None show ?thesis by simp
        next
          case (Some up)
          with l(4) a have "sent_ids (adm_key adm) tr \<noteq> []" by simp
          with Some show ?thesis by auto
        qed
        then show ?thesis
          by (intro fin [OF sys_run_trans [OF l(1) r3] l(2) [unfolded a fst_conv] l(3) [unfolded a fst_conv snd_conv] p]) (simp add: b)
      next
        case False
        have t: "tasks ?s3 i = after_obtain L app req adm (shared ?s3) (Ok False)" by (simp add: b False)
        from follow_run [OF assms c(1) t, unfolded c(2)] obtain tr s' x where l: "sys_run L app ?s3 tr s'"
          "tasks s' i = Finished x (fst (follow L env (adm_key adm) g))"
          "shared s' = fst (snd (follow L env (adm_key adm) g))" "\<forall>k. sent_ids k tr = []"
          by blast
        obtain a1 a2 a3 where a: "follow L env (adm_key adm) g = (a1, a2, a3)" by (metis prod.collapse)
        then have p: "proxy L app env req h = (a1, a2, a3)" using Ok o b False by (simp add: proxy_def)
        have "a3 = None" using follow_never_forwards [of L env "adm_key adm" g] a by simp
        then show ?thesis
          by (intro fin [OF sys_run_trans [OF l(1) r3] l(2) [unfolded a fst_conv] l(3) [unfolded a fst_conv snd_conv] p])
            (simp add: b l(4))
      qed
    next
      case False
      then obtain y where y: "after_obtain L app req adm g r = Finished (Some (adm_key adm)) y"
        and p: "proxy L app env req h = (y, g, None)"
        using Ok o by (cases r) (simp_all add: proxy_def after_obtain_def)
      show ?thesis by (rule fin [OF r3 _ _ p]) (use False in \<open>auto simp: y\<close>)
    qed
  next
    case (Err e)
    then have p: "proxy L app env req h = (Err e, h, None)" by (simp add: proxy_def)
    show ?thesis by (rule fin [OF r1 _ _ p]) (simp_all add: begin_task_def sys_start_def Err)
  next
    case (Panic m)
    then have p: "proxy L app env req h = (Panic m, h, None)" by (simp add: proxy_def)
    show ?thesis by (rule fin [OF r1 _ _ p]) (simp_all add: begin_task_def sys_start_def Panic)
  qed
qed

text \<open>Two grants of a key with no deletion of it in between are a lifetime apart.\<close>

lemma sys_run_grants_apart:
  assumes "redis_documented (redis L) view"
    and "sys_run L app s0 (xs @ (t1, Granted i k) # ys @ (t2, Granted j k) # zs) s"
    and "hybrid_ok k (shared s0)" and "unspoilt k (xs @ (t1, Granted i k) # ys)" and "never_deleted k ys"
    and "no_overflow (clock s) (cache_ttl (shared s0))"
  shows "t1 + cache_ttl (shared s0) \<le> t2"
proof -
  from sys_run_prefix [of L app s0 "xs @ (t1, Granted i k) # ys" t2 "Granted j k" zs s] assms(2)
  obtain r r' where r: "sys_run L app s0 (xs @ (t1, Granted i k) # ys) r" "t2 = clock r"
      "sys_step L app r (Granted j k) r'" "clock r \<le> clock s" by auto
  have "no_overflow (clock r) (cache_ttl (shared s0))" using assms(6) r(4) by (rule no_overflow_mono)
  from sys_run_leases [OF assms(1) r(1) assms(3,4) this refl assms(5)]
  have "cacher.held (hybrid_live view) (shared r) (clock r) k (t1 + cache_ttl (shared s0))" .
  from sys_step_held_refuses [OF assms(1) r(3) refl this] r(2) show ?thesis by simp
qed

lemma granted_first: "granted_ids k tr \<noteq> [] \<Longrightarrow> \<exists>xs t i ys. tr = xs @ (t, Granted i k) # ys \<and> granted_ids k xs = []"
proof (induction tr)
  case (Cons x tr)
  obtain t l where x: "x = (t, l)" by (cases x)
  show ?case
  proof (cases "granted_ids k [x] = []")
    case True
    then have "granted_ids k tr \<noteq> []" using Cons.prems granted_ids_simps(2) [of k "[x]" tr] by simp
    with Cons.IH obtain xs u i ys where "tr = xs @ (u, Granted i k) # ys" "granted_ids k xs = []" by blast
    with True granted_ids_simps(2) [of k "[x]" xs] show ?thesis
      by (intro exI [of _ "x # xs"] exI [of _ u] exI [of _ i] exI [of _ ys]) simp
  next
    case False
    then obtain i where "x = (t, Granted i k)" unfolding x granted_ids_step by blast
    then show ?thesis by (intro exI [of _ "[]"] exI [of _ t] exI [of _ i] exI [of _ tr]) simp
  qed
qed simp

text \<open>As long as no lifetime of a grant of the key is over, the key is sent at most once.\<close>

definition within_lifetime :: "string \<Rightarrow> u64 \<Rightarrow> u64 \<Rightarrow> (u64 \<times> label) list \<Rightarrow> bool" where
  "within_lifetime k ttl now tr \<longleftrightarrow> (\<forall>t i. (t, Granted i k) \<in> set tr \<longrightarrow> now < t + ttl)"

lemma sys_run_sent_once:
  assumes "redis_documented (redis L) view" and "sys_run L app s0 tr s" and "tasks s0 = (\<lambda>_. Idle)"
    and "hybrid_ok k (shared s0)" and "unspoilt k tr" and "never_deleted k tr"
    and "no_overflow (clock s) (cache_ttl (shared s0))" and "within_lifetime k (cache_ttl (shared s0)) (clock s) tr"
  shows "length (sent_ids k tr) \<le> 1"
proof -
  have "length (granted_ids k tr) \<le> 1"
  proof (rule ccontr)
    assume "\<not> length (granted_ids k tr) \<le> 1"
    then have two: "2 \<le> length (granted_ids k tr)" by simp
    then have "granted_ids k tr \<noteq> []" by auto
    from granted_first [OF this] obtain xs t1 i rest where
      tr: "tr = xs @ (t1, Granted i k) # rest" and xs: "granted_ids k xs = []" by blast
    have "granted_ids k rest \<noteq> []" using two by (auto simp: tr xs)
    from granted_first [OF this] obtain ys t2 j zs where rest: "rest = ys @ (t2, Granted j k) # zs" by blast
    from sys_run_grants_apart [OF assms(1) assms(2) [unfolded tr rest] assms(4)] assms(5-7)
    have "t1 + cache_ttl (shared s0) \<le> t2" unfolding tr rest by (auto simp: unspoilt_def never_deleted_def)
    moreover have "t2 \<le> clock s" using sys_run_times [OF assms(2), of t2 "Granted j k"] by (simp add: tr rest)
    moreover have "clock s < t1 + cache_ttl (shared s0)" using assms(8) by (auto simp: within_lifetime_def tr)
    ultimately show False by (metis order.trans not_le)
  qed
  with sys_run_sent_granted(3) [OF assms(2,3), of k] show ?thesis by linarith
qed

text \<open>Clients who got different responses for one key got those of different requests.\<close>

lemma sys_run_differ:
  assumes "redis_documented (redis L) view" and "response_codec_documented (codec L)"
    and "sys_run L app s0 tr s" and "tasks s0 = (\<lambda>_. Idle)"
    and "\<forall>k w. \<not> hybrid_source view (shared s0) (clock s0) k w"
    and "no_overflow (clock s) (cache_ttl (shared s0))"
    and "tasks s i = Finished (Some k) (Ok rd)" and "tasks s j = Finished (Some k) (Ok rd')" and "rd \<noteq> rd'"
  shows "2 \<le> length (sent_ids k tr)"
proof -
  have so: "task_sourced (codec L) tr (tasks s n)" for n
    using sys_run_sourced [OF assms(1-6)] by (simp add: sys_sourced_def)
  from so [of i] so [of j] assms(7,8)
  obtain a t b t' where ans: "(t, Answered a k rd) \<in> set tr" "(t', Answered b k rd') \<in> set tr"
    by (auto simp: task_sourced_def)
  have o: "orderly tr n (tasks s n)" for n by (rule sys_run_orderly [OF assms(3,4)])
  have "(k, rd) \<in> answers_of a tr" "(k, rd') \<in> answers_of b tr" using ans by (auto simp: answers_of_def)
  with o have sent: "a \<in> set (sent_ids k tr)" "b \<in> set (sent_ids k tr)" by (auto simp: orderly_def)
  have "a \<noteq> b"
    using o [of a] \<open>(k, rd) \<in> answers_of a tr\<close> \<open>(k, rd') \<in> answers_of b tr\<close> assms(9) by (auto simp: orderly_def)
  with sent have "card {a, b} \<le> card (set (sent_ids k tr))" by (intro card_mono) auto
  with \<open>a \<noteq> b\<close> card_length [of "sent_ids k tr"] show ?thesis by simp
qed

lemma sys_run_agree:
  assumes "redis_documented (redis L) view" and "response_codec_documented (codec L)"
    and "sys_run L app s0 tr s" and "tasks s0 = (\<lambda>_. Idle)"
    and "\<forall>k w. \<not> hybrid_source view (shared s0) (clock s0) k w" and "hybrid_ok k (shared s0)"
    and "unspoilt k tr" and "never_deleted k tr"
    and "no_overflow (clock s) (cache_ttl (shared s0))" and "within_lifetime k (cache_ttl (shared s0)) (clock s) tr"
    and "tasks s i = Finished (Some k) (Ok rd)" and "tasks s j = Finished (Some k) (Ok rd')"
  shows "rd = rd'"
  using sys_run_differ [OF assms(1-5,9,11,12)] sys_run_sent_once [OF assms(1,3,4,6-10)] by fastforce

section \<open>Sample runs\<close>

text \<open>
  One task fetches and stores, and a second one with the same key is answered from the cache; and
  a run in which a second task takes the key of a first one when its lifetime is over.
\<close>

definition sample_req :: "(string \<times> string) list request" where
  "sample_req = sample_request ''t'' ''k1''"

definition sample_adm :: "string admitted" where
  "sample_adm = \<lparr>adm_agent = ''ANON'', adm_url = ''https://a'', adm_key = ''ANON:GET:k1''\<rparr>"

definition sample_at :: "u64 \<Rightarrow> (string \<rightharpoonup> bytes \<times> u64) hybrid_cacher
    \<Rightarrow> ((string \<times> string) list, string) pc \<Rightarrow> ((string \<times> string) list, string) pc
    \<Rightarrow> (string \<rightharpoonup> bytes \<times> u64, (string \<times> string) list, string) sys" where
  "sample_at now h p q = \<lparr>shared = h, clock = now, tasks = (\<lambda>_. Idle)(0 := p, 1 := q)\<rparr>"

lemma sample_at_simps [simp]:
  "shared (sample_at now h p q) = h" "clock (sample_at now h p q) = now"
  "tasks (sample_at now h p q) 0 = p" "tasks (sample_at now h p q) (Suc 0) = q"
  "(sample_at now h x y)\<lparr>tasks := (tasks (sample_at now' h' p q))(0 := p')\<rparr> = sample_at now h p' q"
  "(sample_at now h x y)\<lparr>tasks := (tasks (sample_at now' h' p q))(Suc 0 := q')\<rparr> = sample_at now h p q'"
  "(sample_at now h p q)\<lparr>shared := h'\<rparr> = sample_at now h' p q"
  "(sample_at now h p q)\<lparr>clock := now'\<rparr> = sample_at now' h p q"
  by (auto simp: sample_at_def fun_eq_iff)

lemma sample_at_start: "sys_start h now = sample_at now h Idle Idle"
  by (auto simp: sys_start_def sample_at_def fun_eq_iff)

lemma sample_admitted: "admit sample_libs sample_app sample_req now = Ok sample_adm"
  using sample_admit [OF sample_access(1)] by (simp add: sample_req_def sample_adm_def cache_key_def)

lemma sample_begin: "begin_task sample_libs sample_app sample_req now = Obtaining sample_req sample_adm"
  by (simp add: begin_task_def sample_admitted)

lemma sample_granted:
  "hybrid_obtain (redis sample_libs) sample_cache 1000 (adm_key sample_adm) (cache_ttl sample_cache) =
     (Ok True, sample_locked ''ANON:GET:k1'')"
  using sample_obtain by (simp add: sample_adm_def)

lemma sample_after_obtain:
  "after_obtain sample_libs sample_app sample_req sample_adm h (Ok True) =
     Sending sample_req sample_adm (sample_up ''t'')"
  by (simp add: after_obtain_def sample_build sample_adm_def sample_req_def)

lemma sample_step_take:
  "sys_run sample_libs sample_app (sample_at 1000 sample_cache Idle Idle)
     [(1000, Internal), (1000, Granted 0 ''ANON:GET:k1'')]
     (sample_at 1000 (sample_locked ''ANON:GET:k1'') (Sending sample_req sample_adm (sample_up ''t'')) Idle)"
proof -
  have a: "sys_step sample_libs sample_app (sample_at 1000 sample_cache Idle Idle) Internal
      (sample_at 1000 sample_cache (Obtaining sample_req sample_adm) Idle)"
    using sys_step.arrive [of "sample_at 1000 sample_cache Idle Idle" 0 sample_libs sample_app sample_req]
    by (simp add: sample_begin)
  have t: "sys_step sample_libs sample_app (sample_at 1000 sample_cache (Obtaining sample_req sample_adm) Idle)
      (Granted 0 ''ANON:GET:k1'')
      (sample_at 1000 (sample_locked ''ANON:GET:k1'') (Sending sample_req sample_adm (sample_up ''t'')) Idle)"
    using sys_step.take [of "sample_at 1000 sample_cache (Obtaining sample_req sample_adm) Idle" 0 sample_req
        sample_adm sample_libs "Ok True" "sample_locked ''ANON:GET:k1''" sample_app] sample_granted
    by (simp add: sample_after_obtain) (simp add: sample_adm_def)
  from sys_run_trans [OF sys_run_one [OF t] sys_run_one [OF a]] show ?thesis by simp
qed

definition sample_full :: "(u64 \<times> label) list" where
  "sample_full = [(1000, Internal), (1000, Granted 0 ''ANON:GET:k1''), (1000, Sent 0 ''ANON:GET:k1''),
     (1000, Answered 0 ''ANON:GET:k1'' sample_rd), (1000, Internal), (1200, Stored 0 ''ANON:GET:k1''),
     (1200, Internal), (1200, Refused 1 ''ANON:GET:k1''), (1200, Internal)]"

lemma sample_full_run:
  "\<exists>h. sys_run sample_libs sample_app (sample_at 1000 sample_cache Idle Idle) sample_full
     (sample_at 1200 h (Finished (Some ''ANON:GET:k1'') (Ok sample_rd)) (Finished (Some ''ANON:GET:k1'') (Ok sample_rd)))"
proof -
  let ?k = "''ANON:GET:k1''" and ?L = sample_libs and ?A = sample_app
  let ?h1 = "sample_locked ?k" and ?h2 = "sample_done ?k"
  let ?p1 = "Sending sample_req sample_adm (sample_up ''t'')"
  let ?p2 = "Waiting sample_req ?k :: ((string \<times> string) list, string) pc"
  let ?p3 = "Storing ?k sample_rd (sample_encode sample_rd) :: ((string \<times> string) list, string) pc"
  let ?p4 = "Finished (Some ?k) (Ok sample_rd) :: ((string \<times> string) list, string) pc"
  let ?q1 = "Obtaining sample_req sample_adm" and ?q2 = "Polling ?k 100 :: ((string \<times> string) list, string) pc"
  have key: "adm_key sample_adm = ?k" by (simp add: sample_adm_def)
  have s3: "sys_step ?L ?A (sample_at 1000 ?h1 ?p1 Idle) (Sent 0 ?k) (sample_at 1000 ?h1 ?p2 Idle)"
    using sys_step.send [of "sample_at 1000 ?h1 ?p1 Idle" 0 sample_req sample_adm "sample_up ''t''" ?L ?A] by (simp add: key)
  have v: "and_then (map_err bad_gateway (Ok \<lparr>ur_status = 200,
      ur_headers = [(''content-type'', ''text/html'')], ur_bytes = Ok ''hi''\<rparr>)) (handle_response ?L sample_req) =
      Ok (Store sample_rd (sample_encode sample_rd))"
    by (simp add: sample_handle sample_req_def)
  have s4: "sys_step ?L ?A (sample_at 1000 ?h1 ?p2 Idle) (Answered 0 ?k sample_rd) (sample_at 1000 ?h1 ?p3 Idle)"
    using sys_step.reply [of "sample_at 1000 ?h1 ?p2 Idle" 0 sample_req ?k, OF _ v [symmetric], of ?A]
    by (simp add: reply_label_def after_reply_def)
  have s5: "sys_step ?L ?A (sample_at 1000 ?h1 ?p3 Idle) Internal (sample_at 1200 ?h1 ?p3 Idle)"
    using sys_step.tick [of "sample_at 1000 ?h1 ?p3 Idle" 1200 ?L ?A] by simp
  have set: "hybrid_set (redis ?L) ?h1 1200 ?k (sample_encode sample_rd) (cache_ttl ?h1) = (Ok True, ?h2)"
    by (simp add: hybrid_set_def sample_locked_def sample_done_def sample_cache_def hybrid_new_def
        mem_obtain_alt mem_set_alt mem_default_def mem_store_def)
  have s6: "sys_step ?L ?A (sample_at 1200 ?h1 ?p3 Idle) (Stored 0 ?k) (sample_at 1200 ?h2 ?p4 Idle)"
    using sys_step.store [of "sample_at 1200 ?h1 ?p3 Idle" 0 ?k sample_rd "sample_encode sample_rd" ?L "Ok True" ?h2 ?A] set
    by (simp add: after_store_def)
  have s7: "sys_step ?L ?A (sample_at 1200 ?h2 ?p4 Idle) Internal (sample_at 1200 ?h2 ?p4 ?q1)"
    using sys_step.arrive [of "sample_at 1200 ?h2 ?p4 Idle" "Suc 0" ?L ?A sample_req] by (simp add: sample_begin)
  have obt: "hybrid_obtain (redis ?L) ?h2 1200 ?k (cache_ttl ?h2) = (Ok False, ?h2)"
    by (simp add: hybrid_obtain_def sample_done_def sample_cache_def hybrid_new_def
        mem_obtain_alt mem_set_alt mem_default_def mem_store_def)
  have q2: "after_obtain ?L ?A sample_req sample_adm ?h2 (Ok False) = ?q2"
    by (simp add: after_obtain_def sample_done_def sample_cache_def hybrid_new_def hybrid_poll_start_def key)
  have s8: "sys_step ?L ?A (sample_at 1200 ?h2 ?p4 ?q1) (Refused 1 ?k) (sample_at 1200 ?h2 ?p4 ?q2)"
  proof -
    let ?s = "sample_at 1200 ?h2 ?p4 ?q1"
    have o: "hybrid_obtain (redis ?L) (shared ?s) (clock ?s) (adm_key sample_adm) (cache_ttl (shared ?s)) = (Ok False, ?h2)"
      unfolding key sample_at_simps by (rule obt)
    have t: "tasks ?s (Suc 0) = ?q1" by simp
    from sys_step.take [OF t o, of ?A] show ?thesis unfolding q2 key by simp
  qed
  have pl: "hybrid_poll (redis ?L) ?h2 1200 ?k = (PollDone (Ok (sample_encode sample_rd)), ?h2)"
  proof -
    have "enc_str x \<noteq> []" for x by (cases x) simp_all
    then have "sample_encode sample_rd \<noteq> []" by (simp add: sample_encode_def)
    then show ?thesis
      by (simp add: hybrid_poll_def sample_done_def sample_cache_def hybrid_new_def mem_poll_def
        mem_obtain_alt mem_set_alt mem_default_def mem_store_def)
  qed
  have "response_try_from (codec ?L) (sample_encode sample_rd) = Ok sample_rd"
    by (simp add: response_try_from_def sample_libs_def sample_codec_def sample_roundtrip)
  then have ap: "after_poll ?L ?k 99 (PollDone (Ok (sample_encode sample_rd))) = ?p4"
    by (simp add: after_poll_def)
  have s9: "sys_step ?L ?A (sample_at 1200 ?h2 ?p4 ?q2) Internal (sample_at 1200 ?h2 ?p4 ?p4)"
  proof -
    let ?s = "sample_at 1200 ?h2 ?p4 ?q2"
    have o: "hybrid_poll (redis ?L) (shared ?s) (clock ?s) ?k = (PollDone (Ok (sample_encode sample_rd)), ?h2)"
      unfolding sample_at_simps by (rule pl)
    have t: "tasks ?s (Suc 0) = Polling ?k (Suc 99)" by simp
    from sys_step.poll [OF t o, of ?A] show ?thesis unfolding ap by simp
  qed
  note r = sample_step_take
  note r = sys_run_trans [OF sys_run_one [OF s3] r]
  note r = sys_run_trans [OF sys_run_one [OF s4] r]
  note r = sys_run_trans [OF sys_run_one [OF s5] r]
  note r = sys_run_trans [OF sys_run_one [OF s6] r]
  note r = sys_run_trans [OF sys_run_one [OF s7] r]
  note r = sys_run_trans [OF sys_run_one [OF s8] r]
  note r = sys_run_trans [OF sys_run_one [OF s9] r]
  from r show ?thesis by (auto simp: sample_full_def)
qed

lemma sample_full_facts:
  "sent_ids ''ANON:GET:k1'' sample_full = [0]" "never_deleted ''ANON:GET:k1'' sample_full"
  "unspoilt k sample_full" "hybrid_ok k sample_cache"
  "deletions ''ANON:GET:k1'' sample_full = 0" "within_lifetime ''ANON:GET:k1'' 10000 1200 sample_full"
  by (simp_all add: sample_full_def never_deleted_def deletions_def unspoilt_def within_lifetime_def sample_cache_def
      hybrid_new_def mem_tidy_default)

lemma sample_empty: "\<not> hybrid_source view sample_cache t k w"
  by (simp add: sample_cache_def hybrid_new_def hybrid_source_def mem_source_def mem_default_def)

lemma sample_config: "cache_ttl sample_cache = 10000" "tasks (sample_at t h Idle Idle) = (\<lambda>_. Idle)"
  by (auto simp: sample_cache_def hybrid_new_def sample_at_def fun_eq_iff)

text \<open>The second run: the lifetime passes, and another task gets the key.\<close>

definition sample_again :: "(u64 \<times> label) list" where
  "sample_again = [(1000, Internal), (1000, Granted 0 ''ANON:GET:k1''), (1000, Internal), (11000, Internal),
     (11000, Granted 1 ''ANON:GET:k1'')]"

lemma sample_again_run:
  "\<exists>s. sys_run sample_libs sample_app (sample_at 1000 sample_cache Idle Idle) sample_again s \<and> clock s = 11000"
proof -
  let ?L = sample_libs and ?A = sample_app and ?h = "sample_locked ''ANON:GET:k1''"
  let ?p = "Sending sample_req sample_adm (sample_up ''t'')"
  let ?q = "Obtaining sample_req sample_adm"
  have a: "sys_step ?L ?A (sample_at 1000 ?h ?p Idle) Internal (sample_at 11000 ?h ?p Idle)"
    using sys_step.tick [of "sample_at 1000 ?h ?p Idle" 11000 ?L ?A] by simp
  have b: "sys_step ?L ?A (sample_at 11000 ?h ?p Idle) Internal (sample_at 11000 ?h ?p ?q)"
    using sys_step.arrive [of "sample_at 11000 ?h ?p Idle" "Suc 0" ?L ?A sample_req] by (simp add: sample_begin)
  obtain g where g: "hybrid_obtain (redis ?L) ?h 11000 ''ANON:GET:k1'' (cache_ttl ?h) = (Ok True, g)"
    by (simp add: hybrid_obtain_def sample_locked_def sample_cache_def hybrid_new_def mem_obtain_alt
        mem_default_def mem_store_def)
  let ?s = "sample_at 11000 ?h ?p ?q"
  have o: "hybrid_obtain (redis ?L) (shared ?s) (clock ?s) (adm_key sample_adm) (cache_ttl (shared ?s)) = (Ok True, g)"
    using g by (simp add: sample_adm_def)
  have t: "tasks ?s (Suc 0) = ?q" by simp
  have key: "adm_key sample_adm = ''ANON:GET:k1''" by (simp add: sample_adm_def)
  note c = sys_step.take [OF t o, of ?A]
  from sys_run_trans [OF sys_run_one [OF c] sys_run_trans [OF sys_run_one [OF b] sys_run_trans [OF sys_run_one [OF a] sample_step_take]]]
  show ?thesis by (force simp: sample_again_def key)
qed

section \<open>Properties\<close>

text \<open>
  C1: The proxy is idempotent. In every run of the server from a state without requests, however they
interleave, with clean-ups of the cache and tasks dropped at any await, the number of requests sent
upstream for a key is at most one, and one more for every full \<open>cache_ttl\<close> that has passed and for every
time the key was deleted (the answer to a request was not kept). The one condition on the run is that no
\<open>set\<close> of this key failed and no \<open>del\<close> of it was dropped between its two locks.
\<close>

theorem at_most_one_upstream_request_per_lifetime:
  assumes "redis_documented (redis L) view" and "sys_run L app s0 tr s" and "tasks s0 = (\<lambda>_. Idle)"
    and "hybrid_ok k (shared s0)" and "unspoilt k tr"
    and "0 < cache_ttl (shared s0)" and "no_overflow (clock s) (cache_ttl (shared s0))"
  shows "length (sent_ids k tr) \<le>
    1 + deletions k tr + (unat (clock s) - unat (clock s0)) div unat (cache_ttl (shared s0))"
  by (rule sys_run_sent_count [OF assms])

theorem at_most_one_upstream_request_per_lifetime_witness:
  "length (sent_ids ''ANON:GET:k1'' sample_full) \<le> 1"
proof -
  have R: "redis_documented (redis sample_libs) ref_view"
    using ref_redis_documented by (simp add: sample_libs_def)
  from sample_full_run obtain h where r: "sys_run sample_libs sample_app (sample_at 1000 sample_cache Idle Idle) sample_full
     (sample_at 1200 h (Finished (Some ''ANON:GET:k1'') (Ok sample_rd)) (Finished (Some ''ANON:GET:k1'') (Ok sample_rd)))" ..
  from at_most_one_upstream_request_per_lifetime [OF R r sample_config(2) _ sample_full_facts(3), of "''ANON:GET:k1''"]
  show ?thesis by (simp add: sample_full_facts(4,5) sample_config(1) no_overflow_def)
qed

text \<open>
  A key changes hands only when it is free: between two grants of a key in any run of the server
lies a deletion of the key, or at least the lifetime of the first grant has passed.
\<close>

theorem grants_are_a_lifetime_apart:
  assumes "redis_documented (redis L) view"
    and "sys_run L app s0 (xs @ (t1, Granted i k) # ys @ (t2, Granted j k) # zs) s"
    and "hybrid_ok k (shared s0)" and "unspoilt k (xs @ (t1, Granted i k) # ys)" and "never_deleted k ys"
    and "no_overflow (clock s) (cache_ttl (shared s0))"
  shows "t1 + cache_ttl (shared s0) \<le> t2"
  by (rule sys_run_grants_apart [OF assms])

theorem grants_are_a_lifetime_apart_witness: "(1000 :: u64) + 10000 \<le> 11000 \<and>
  (\<exists>s. sys_run sample_libs sample_app (sample_at 1000 sample_cache Idle Idle) sample_again s)"
proof -
  have R: "redis_documented (redis sample_libs) ref_view"
    using ref_redis_documented by (simp add: sample_libs_def)
  have e: "sample_again = [(1000, Internal)] @ (1000, Granted 0 ''ANON:GET:k1'') # [(1000, Internal), (11000, Internal)] @
      (11000, Granted 1 ''ANON:GET:k1'') # []"
    by (simp add: sample_again_def)
  from sample_again_run obtain s where r: "sys_run sample_libs sample_app (sample_at 1000 sample_cache Idle Idle) sample_again s"
    and c: "clock s = 11000" by blast
  from grants_are_a_lifetime_apart [OF R r [unfolded e]] r show ?thesis
    by (auto simp: sample_full_facts(4) sample_config(1) no_overflow_def c unspoilt_def never_deleted_def)
qed

text \<open>
  C2: No response is invented, mixed up between keys or changed on the way: every response a client gets,
from the leader or from the cache, in any run that starts without responses in the cache, is one
that some task got from upstream for the same key.
\<close>

theorem answers_come_from_upstream:
  assumes "redis_documented (redis L) view" and "response_codec_documented (codec L)"
    and "sys_run L app s0 tr s" and "tasks s0 = (\<lambda>_. Idle)"
    and "\<forall>k w. \<not> hybrid_source view (shared s0) (clock s0) k w"
    and "no_overflow (clock s) (cache_ttl (shared s0))"
    and "tasks s i = Finished x (Ok rd)"
  shows "\<exists>k j t. x = Some k \<and> (t, Answered j k rd) \<in> set tr"
proof -
  have "task_sourced (codec L) tr (tasks s i)"
    using sys_run_sourced [OF assms(1-6)] by (simp add: sys_sourced_def)
  with assms(7) show ?thesis by (cases x) (auto simp: task_sourced_def)
qed

theorem answers_come_from_upstream_witness:
  "\<exists>k j t. Some ''ANON:GET:k1'' = Some k \<and> (t, Answered j k sample_rd) \<in> set sample_full"
proof -
  have R: "redis_documented (redis sample_libs) ref_view" and C: "response_codec_documented (codec sample_libs)"
    using ref_redis_documented sample_codec_documented by (simp_all add: sample_libs_def)
  from sample_full_run obtain h where r: "sys_run sample_libs sample_app (sample_at 1000 sample_cache Idle Idle) sample_full
     (sample_at 1200 h (Finished (Some ''ANON:GET:k1'') (Ok sample_rd)) (Finished (Some ''ANON:GET:k1'') (Ok sample_rd)))" ..
  show ?thesis
    by (rule answers_come_from_upstream [OF R C r sample_config(2), of "Suc 0"])
      (simp_all add: sample_config(1) no_overflow_def sample_empty)
qed

text \<open>
  C3: All clients with one key agree. In every run of the server that starts without responses in the cache,
two clients with the same key that got different responses got those of two different requests that
were sent upstream. So all agree while the lifetime of the key's first grant lasts, if the key was not
deleted, no \<open>set\<close> of it failed and no \<open>del\<close> of it was dropped between its two locks. (Afterwards the key
can be granted and sent again, and they may differ.)
\<close>

theorem clients_of_a_key_agree:
  assumes "redis_documented (redis L) view" and "response_codec_documented (codec L)"
    and "sys_run L app s0 tr s" and "tasks s0 = (\<lambda>_. Idle)"
    and "\<forall>k w. \<not> hybrid_source view (shared s0) (clock s0) k w"
    and "no_overflow (clock s) (cache_ttl (shared s0))"
    and "tasks s i = Finished (Some k) (Ok rd)" and "tasks s j = Finished (Some k) (Ok rd')"
  shows "(rd \<noteq> rd' \<longrightarrow> 2 \<le> length (sent_ids k tr)) \<and>
    (hybrid_ok k (shared s0) \<and> unspoilt k tr \<and> never_deleted k tr \<and>
       (\<forall>t n. (t, Granted n k) \<in> set tr \<longrightarrow> clock s < t + cache_ttl (shared s0)) \<longrightarrow> rd = rd')"
  using sys_run_differ [OF assms] sys_run_agree [OF assms(1-5) _ _ _ assms(6) _ assms(7,8)]
  unfolding within_lifetime_def by blast

theorem clients_of_a_key_agree_witness:
  "\<exists>s. sys_run sample_libs sample_app (sample_at 1000 sample_cache Idle Idle) sample_full s \<and>
     tasks s 0 = Finished (Some ''ANON:GET:k1'') (Ok sample_rd) \<and>
     (\<forall>rd. tasks s 1 = Finished (Some ''ANON:GET:k1'') (Ok rd) \<longrightarrow> sample_rd = rd)"
proof -
  let ?k = "''ANON:GET:k1''" and ?s0 = "sample_at 1000 sample_cache Idle Idle"
  have R: "redis_documented (redis sample_libs) ref_view" and C: "response_codec_documented (codec sample_libs)"
    using ref_redis_documented sample_codec_documented by (simp_all add: sample_libs_def)
  from sample_full_run obtain h where r: "sys_run sample_libs sample_app ?s0 sample_full
     (sample_at 1200 h (Finished (Some ?k) (Ok sample_rd)) (Finished (Some ?k) (Ok sample_rd)))" ..
  define s where "s = sample_at 1200 h (Finished (Some ?k) (Ok sample_rd)) (Finished (Some ?k) (Ok sample_rd))"
  have t: "tasks s 0 = Finished (Some ?k) (Ok sample_rd)" and c: "clock s = 1200" by (simp_all add: s_def)
  have e: "\<forall>k w. \<not> hybrid_source ref_view (shared ?s0) (clock ?s0) k w" by (simp add: sample_empty)
  have ok: "hybrid_ok ?k (shared ?s0)" by (simp add: sample_full_facts(4))
  have no: "no_overflow (clock s) (cache_ttl (shared ?s0))" by (simp add: c sample_config(1) no_overflow_def)
  have lt: "\<forall>t n. (t, Granted n ?k) \<in> set sample_full \<longrightarrow> clock s < t + cache_ttl (shared ?s0)"
    using sample_full_facts(6) by (simp add: within_lifetime_def c sample_config(1))
  note run = r [folded s_def]
  have "sample_rd = rd" if "tasks s 1 = Finished (Some ?k) (Ok rd)" for rd
    using clients_of_a_key_agree [OF R C run sample_config(2) e no t that] ok sample_full_facts(2,3) lt by blast
  with run t show ?thesis by blast
qed

text \<open>
  C4: The steps are the handler's: running one task of the server with nothing in between, at the times
the clock shows, is running \<open>proxy\<close>: the task finishes with its result, leaves its cache, and
sends a request upstream exactly when \<open>proxy\<close> does.
\<close>

theorem the_system_runs_the_handler:
  assumes "undisturbed env" and "clocks_run env"
  shows "\<exists>tr s x. sys_run L app (sys_start h (now_verify env)) tr s \<and>
    tasks s i = Finished x (fst (proxy L app env req h)) \<and> shared s = fst (snd (proxy L app env req h)) \<and>
    (snd (snd (proxy L app env req h)) = None \<longleftrightarrow> (\<forall>k. sent_ids k tr = []))"
  by (rule proxy_run [OF assms])

theorem the_system_runs_the_handler_witness:
  "\<exists>tr s x. sys_run sample_libs sample_app (sys_start sample_cache 1000) tr s \<and>
    tasks s 0 = Finished x (Ok sample_rd) \<and> shared s = sample_done ''ANON:GET:k1''"
proof -
  have "undisturbed (sample_env 200)" "clocks_run (sample_env 200)"
    by (simp_all add: undisturbed_def clocks_run_def sample_env_def sample_others_def)
  from the_system_runs_the_handler [OF this, of sample_libs sample_app sample_cache 0 "sample_request ''t'' ''k1''"]
  show ?thesis unfolding sample_plain_run by (force simp: sample_env_def)
qed

end
