(* ===== verification/Proxy_Progress.thy ===== *)
theory Proxy_Progress
  imports Proxy_System
begin

text \<open>
  Every request comes to an end, and with a response that can be sent: the steps of a task of the
  interleaved server (\<open>Proxy_System\<close>) decrease a measure, an unfinished task always has a step, and what
  a finished task holds is a well-formed response.
\<close>

section \<open>The steps a task has left\<close>

text \<open>The rounds of polling that the configuration allows; then the steps left, at most, at each point.\<close>

definition poll_rounds :: "('r, 'h, 'u) sys \<Rightarrow> nat" where
  "poll_rounds s = unat (cache_ttl (shared s) div poll_interval (shared s))"

fun steps_left :: "nat \<Rightarrow> ('h, 'u) pc \<Rightarrow> nat" where
  "steps_left n Idle = n + 6"
| "steps_left n (Obtaining req adm) = n + 5"
| "steps_left n (Polling key m) = m + 2"
| "steps_left n (Sending req adm up) = 4"
| "steps_left n (Waiting req key) = 3"
| "steps_left n (Storing key rd data) = 2"
| "steps_left n (Deleting key status msg) = 2"
| "steps_left n (Finished k r) = 1"
| "steps_left n Dropped = 0"

fun unfinished :: "('h, 'u) pc \<Rightarrow> bool" where
  "unfinished (Finished k r) = False"
| "unfinished Dropped = False"
| "unfinished p = True"

lemma steps_after:
  "steps_left n (begin_task L app req now) < n + 6"
  "steps_left n (after_obtain L app req adm h r) \<le> max (unat (cache_ttl h div poll_interval h) + 2) 4"
  "steps_left n (after_poll L key m p) < m + 3"
  by (auto simp: begin_task_def after_obtain_def after_poll_def
      split: outcome.splits bool.splits polled.splits)

lemma sys_step_decreases:
  assumes "sys_step L app s l s'"
  shows "tasks s' i = tasks s i \<or> steps_left (poll_rounds s) (tasks s' i) < steps_left (poll_rounds s) (tasks s i)"
  using assms
proof (induction rule: sys_step.induct)
  case (arrive s j req)
  then show ?case using steps_after(1) [of "poll_rounds s" L app req "clock s"] by auto
next
  case (take s j req adm r h)
  have c: "cache_ttl h = cache_ttl (shared s)" "poll_interval h = poll_interval (shared s)"
    using hybrid_config(1) [OF take(2)] by simp_all
  have "steps_left (poll_rounds s) (after_obtain L app req adm h r) < poll_rounds s + 5"
    using steps_after(2) [of "poll_rounds s" L app req adm h r] by (simp add: poll_rounds_def c)
  with take(1) show ?case by simp
next
  case (poll s j key n p h)
  then show ?case using steps_after(3) [of "poll_rounds s" L key n p] by auto
next
  case (reply s j req key v answer)
  then show ?case by (auto simp: after_reply_def split: outcome.splits verdict.splits)
next
  case (store s j key rd data r h)
  then show ?case by (auto simp: after_store_def)
next
  case (delete s j key status msg d h)
  then show ?case by (auto simp: after_delete_def)
next
  case (drop_task s j)
  show ?case by (cases "tasks s j") auto
qed auto

lemma sys_step_rounds: "sys_step L app s l s' \<Longrightarrow> poll_rounds s' = poll_rounds s"
  using sys_step_config [of L app s l s'] by (simp add: poll_rounds_def)

text \<open>
  A task that has not finished has a step of its own: to begin, the next statement of the handler, or, once
  it has asked, the upstream's answer (here a failed one).
\<close>

lemma own_step:
  "sys_step L app s l s' \<Longrightarrow> tasks s' i \<noteq> tasks s i \<Longrightarrow> tasks s' i \<noteq> Dropped \<Longrightarrow>
     \<exists>l s'. sys_step L app s l s' \<and> tasks s' i \<noteq> tasks s i \<and> tasks s' i \<noteq> Dropped"
  by blast

lemma unfinished_step:
  assumes "unfinished (tasks s i)"
  shows "\<exists>l s'. sys_step L app s l s' \<and> tasks s' i \<noteq> tasks s i \<and> tasks s' i \<noteq> Dropped"
proof (cases "tasks s i")
  case Idle
  have "begin_task L app req (clock s) \<noteq> Idle" "begin_task L app req (clock s) \<noteq> Dropped" for req
    by (auto simp: begin_task_def split: outcome.splits)
  then show ?thesis by (intro own_step [OF sys_step.arrive [OF Idle, of L app]]) (simp_all add: Idle)
next
  case (Obtaining req adm)
  obtain r h where o: "hybrid_obtain (redis L) (shared s) (clock s) (adm_key adm) (cache_ttl (shared s)) = (r, h)"
    by (rule prod.exhaust)
  have "after_obtain L app req adm h r \<noteq> Obtaining req adm" "after_obtain L app req adm h r \<noteq> Dropped"
    by (auto simp: after_obtain_def split: outcome.splits bool.splits)
  then show ?thesis by (intro own_step [OF sys_step.take [OF Obtaining o, of app]]) (simp_all add: Obtaining)
next
  case (Polling key m)
  show ?thesis
  proof (cases m)
    case 0
    show ?thesis by (rule own_step [OF sys_step.give_up [OF Polling [unfolded 0], of L app]]) (simp_all add: Polling)
  next
    case (Suc n)
    obtain p h where o: "hybrid_poll (redis L) (shared s) (clock s) key = (p, h)" by (rule prod.exhaust)
    have "after_poll L key n p \<noteq> Polling key (Suc n)" "after_poll L key n p \<noteq> Dropped"
      by (auto simp: after_poll_def split: polled.splits)
    then show ?thesis
      by (intro own_step [OF sys_step.poll [OF Polling [unfolded Suc] o, of app]]) (simp_all add: Polling Suc)
  qed
next
  case (Sending req adm up)
  show ?thesis by (rule own_step [OF sys_step.send [OF Sending, of L app]]) (simp_all add: Sending)
next
  case (Waiting req key)
  let ?v = "and_then (map_err bad_gateway (Err [])) (handle_response L req)"
  have "after_reply key ?v \<noteq> Waiting req key" "after_reply key ?v \<noteq> Dropped" by (simp_all add: after_reply_def)
  then show ?thesis by (intro own_step [OF sys_step.reply [OF Waiting refl, where L = L and answer = "Err []" and app = app]]) (simp_all add: Waiting)
next
  case (Storing key rd data)
  obtain r h where o: "hybrid_set (redis L) (shared s) (clock s) key data (cache_ttl (shared s)) = (r, h)"
    by (rule prod.exhaust)
  show ?thesis
    by (rule own_step [OF sys_step.store [OF Storing o, of app]]) (simp_all add: Storing after_store_def)
next
  case (Deleting key st msg)
  obtain d h where o: "hybrid_del (redis L) (shared s) (clock s) key = (d, h)" by (rule prod.exhaust)
  show ?thesis
    by (rule own_step [OF sys_step.delete [OF Deleting o, of app]]) (simp_all add: Deleting after_delete_def)
qed (use assms in simp_all)

section \<open>Counting the steps of a run\<close>

text \<open>A run as the sequence of its states, finite or infinite, and the moves of a task in its first \<open>n\<close> steps.\<close>

definition sys_path :: "('h, 'v, 'j, 'm, 'c, 'u, 'r, 'es, 'ek, 'ei, 'ds, 'dk, 'di) libs
    \<Rightarrow> ('v, 'ek, 'dk) app_state \<Rightarrow> (nat \<Rightarrow> ('r, 'h, 'u) sys) \<Rightarrow> nat \<Rightarrow> bool" where
  "sys_path L app p n \<longleftrightarrow> (\<forall>j<n. \<exists>l. sys_step L app (p j) l (p (Suc j)))"

fun moves :: "nat \<Rightarrow> (nat \<Rightarrow> ('r, 'h, 'u) sys) \<Rightarrow> nat \<Rightarrow> nat" where
  "moves i p 0 = 0"
| "moves i p (Suc n) = moves i p n + (if tasks (p (Suc n)) i = tasks (p n) i then 0 else 1)"

lemma moves_bounded:
  "sys_path L app p n \<Longrightarrow>
     poll_rounds (p n) = poll_rounds (p 0) \<and>
     moves i p n + steps_left (poll_rounds (p 0)) (tasks (p n) i) \<le> steps_left (poll_rounds (p 0)) (tasks (p 0) i)"
proof (induction n)
  case (Suc n)
  then obtain l where step: "sys_step L app (p n) l (p (Suc n))" and path: "sys_path L app p n"
    by (auto simp: sys_path_def)
  from Suc.IH [OF path] sys_step_rounds [OF step] sys_step_decreases [OF step, of i] show ?case by auto
qed simp

lemma moves_le:
  assumes "sys_path L app p n" and "tasks (p 0) i = Idle"
  shows "moves i p n \<le> poll_rounds (p 0) + 6"
proof -
  have "moves i p n + steps_left (poll_rounds (p 0)) (tasks (p n) i) \<le> steps_left (poll_rounds (p 0)) (tasks (p 0) i)"
    using moves_bounded [OF assms(1)] by blast
  with assms(2) show ?thesis by simp
qed

lemma moves_mono: "n \<le> m \<Longrightarrow> moves i p n \<le> moves i p m"
  by (induction m) (auto simp: le_Suc_eq)

lemma moves_less: "n \<le> m \<Longrightarrow> tasks (p m) i \<noteq> tasks (p n) i \<Longrightarrow> moves i p n < moves i p m"
proof (induction m)
  case (Suc m)
  then have nm: "n \<le> m" by (metis le_Suc_eq)
  show ?case
  proof (cases "tasks (p (Suc m)) i = tasks (p m) i")
    case True
    with Suc.IH [OF nm] Suc.prems(2) show ?thesis by simp
  qed (use moves_mono [OF nm, of i p] in simp)
qed simp

text \<open>The task gets its turn: whenever it has not finished, it moves later.\<close>

definition gets_turns :: "nat \<Rightarrow> (nat \<Rightarrow> ('r, 'h, 'u) sys) \<Rightarrow> bool" where
  "gets_turns i p \<longleftrightarrow> (\<forall>n. unfinished (tasks (p n) i) \<longrightarrow> (\<exists>m>n. tasks (p m) i \<noteq> tasks (p n) i))"

lemma turns_moves:
  assumes "gets_turns i p" and "\<forall>n. unfinished (tasks (p n) i)"
  shows "\<exists>n. k \<le> moves i p n"
proof (induction k)
  case (Suc k)
  then obtain n where n: "k \<le> moves i p n" ..
  from assms obtain m where "n < m" "tasks (p m) i \<noteq> tasks (p n) i" by (auto simp: gets_turns_def)
  with moves_less [of n m p i] n show ?case by (intro exI [of _ m]) simp
qed simp

lemma task_ends:
  assumes "\<forall>n. sys_path L app p n" and "tasks (p 0) i = Idle" and "gets_turns i p"
  shows "\<exists>n. \<not> unfinished (tasks (p n) i)"
proof (rule ccontr)
  assume "\<not> ?thesis"
  then obtain n where "Suc (poll_rounds (p 0) + 6) \<le> moves i p n" using turns_moves [OF assms(3)] by blast
  with moves_le [OF spec [OF assms(1)] assms(2), of n] show False by simp
qed

text \<open>Every run is the beginning of an infinite path, in which the clock stands still afterwards.\<close>

lemma sys_step_idle: "sys_step L app s Internal s"
  using sys_step.tick [of s "clock s" L app] by simp

lemma sys_run_path:
  "sys_run L app s0 tr s \<Longrightarrow>
     \<exists>p. p 0 = s0 \<and> (\<forall>n\<ge>length tr. p n = s) \<and> (\<forall>n. sys_path L app p n)"
proof (induction rule: sys_run.induct)
  case run_start
  show ?case using sys_step_idle [of L app s0] by (intro exI [of _ "\<lambda>_. s0"]) (auto simp: sys_path_def)
next
  case (run_step tr s l s')
  then obtain p where p: "p 0 = s0" "\<forall>n\<ge>length tr. p n = s" "\<forall>n. sys_path L app p n" by blast
  let ?q = "\<lambda>n. if n \<le> length tr then p n else s'"
  have "\<exists>l. sys_step L app (?q j) l (?q (Suc j))" for j
  proof -
    consider "j < length tr" | "j = length tr" | "length tr < j" by linarith
    then show ?thesis
    proof cases
      case 1
      moreover have "\<exists>l. sys_step L app (p j) l (p (Suc j))" using p(3) by (auto simp: sys_path_def)
      ultimately show ?thesis by simp
    next
      case 2
      with p(2) run_step.hyps(2) show ?thesis by auto
    next
      case 3
      with sys_step_idle [of L app s'] show ?thesis by auto
    qed
  qed
  with p(1) show ?case by (intro exI [of _ ?q]) (simp add: sys_path_def)
qed

lemma ended_gets_turns:
  assumes "\<forall>n\<ge>N. p n = s" and "\<not> unfinished (tasks s i)"
  shows "gets_turns i p"
  unfolding gets_turns_def
proof (intro allI impI)
  fix n
  assume u: "unfinished (tasks (p n) i)"
  have "p (max N (Suc n)) = s" using assms(1) by simp
  with u assms(2) show "\<exists>m>n. tasks (p m) i \<noteq> tasks (p n) i" by (intro exI [of _ "max N (Suc n)"]) auto
qed

section \<open>Responses that can be sent\<close>

text \<open>A response as \<open>IntoResponse\<close> needs it, with a status of those that are kept.\<close>

definition sendable :: "('h, 'v) http_lib \<Rightarrow> response_data \<Rightarrow> bool" where
  "sendable H rd \<longleftrightarrow> 200 \<le> rd_status rd \<and> rd_status rd \<le> 500 \<and>
     (\<exists>r. into_response H rd = Ok r \<and> resp_status r = rd_status rd \<and> resp_body r = rd_body rd)"

definition status_documented :: "('h, 'v) http_lib \<Rightarrow> bool" where
  "status_documented H \<longleftrightarrow> (\<forall>c. 100 \<le> c \<longrightarrow> c < 1000 \<longrightarrow> status_from_u16 H c = Some c)"

lemma handle_response_sendable:
  assumes "header_text_documented (http L)" and "status_documented (http L)"
    and "handle_response L req rres = Ok (Store rd data)"
  shows "sendable (http L) rd"
proof -
  from assms(3) obtain b where st: "200 \<le> ur_status rres" "ur_status rres \<le> 500" and
    w: "with_body (codec L) (with_headers (http L) (response_new (ur_status rres)) (ur_headers rres)
      (extract_header (http L) (req_headers req) HEADER_RESPONSE_HEADERS [])) b
      (extract_header (http L) (req_headers req) HEADER_X_JSON_MASK []) = Ok rd"
    by (auto simp: handle_response_def Let_def split: if_splits)
  have s: "rd_status rd = ur_status rres"
    using with_body_frame [OF w] by (simp add: with_headers_eq response_new_def)
  have "status_from_u16 (http L) (ur_status rres) = Some (ur_status rres)"
    using assms(2) st by (auto simp: status_documented_def word_le_nat_alt word_less_nat_alt)
  with proxied_response_sendable [OF assms(1) w] st s show ?thesis by (auto simp: sendable_def)
qed

lemma sys_run_answered:
  assumes "header_text_documented (http L)" and "status_documented (http L)" and "sys_run L app s0 tr s"
  shows "(t, Answered j k rd) \<in> set tr \<Longrightarrow> sendable (http L) rd"
  using assms(3)
proof (induction rule: sys_run.induct)
  case (run_step tr s l s')
  show ?case
  proof (cases "(t, Answered j k rd) \<in> set tr")
    case False
    with run_step.prems have "l = Answered j k rd" by simp
    with run_step.hyps(2) obtain req answer d where
      "and_then (map_err bad_gateway answer) (handle_response L req) = Ok (Store rd d)"
      by (cases rule: sys_step.cases) (auto simp: reply_label_def split: outcome.splits verdict.splits if_splits)
    then obtain rres where "handle_response L req rres = Ok (Store rd d)"
      by (cases answer) simp_all
    then show ?thesis by (rule handle_response_sendable [OF assms(1,2)])
  qed (use run_step.IH in blast)
qed simp

section \<open>Properties\<close>

text \<open>
  C5: Every request comes to an end: whatever the other tasks, the clean-ups and the clock do, a request moves
at most a bounded number of times (the rounds of polling that \<open>cache_ttl\<close> and \<open>poll_interval\<close>
allow, and six more), and in every infinite execution in which it gets its turns it finishes.
\<close>

theorem every_request_terminates:
  assumes "\<forall>n. sys_path L app p n" and "tasks (p 0) i = Idle" and "gets_turns i p"
  shows "(\<forall>n. moves i p n \<le> poll_rounds (p 0) + 6) \<and> (\<exists>n. \<not> unfinished (tasks (p n) i))"
  using moves_le [OF spec [OF assms(1)] assms(2)] task_ends [OF assms] by blast

theorem every_request_terminates_witness:
  "\<exists>p. p 0 = sample_at 1000 sample_cache Idle Idle \<and> (\<forall>n. moves 0 p n \<le> 106) \<and>
     (\<exists>n. \<not> unfinished (tasks (p n) 0))"
proof -
  from sample_full_run obtain h where r: "sys_run sample_libs sample_app (sample_at 1000 sample_cache Idle Idle) sample_full
     (sample_at 1200 h (Finished (Some ''ANON:GET:k1'') (Ok sample_rd)) (Finished (Some ''ANON:GET:k1'') (Ok sample_rd)))" ..
  from sys_run_path [OF r] obtain p where p: "p 0 = sample_at 1000 sample_cache Idle Idle"
    "\<forall>n\<ge>length sample_full. p n =
      sample_at 1200 h (Finished (Some ''ANON:GET:k1'') (Ok sample_rd)) (Finished (Some ''ANON:GET:k1'') (Ok sample_rd))"
    "\<forall>n. sys_path sample_libs sample_app p n" by blast
  have t: "gets_turns 0 p" by (rule ended_gets_turns [OF p(2)]) simp
  have i: "tasks (p 0) 0 = Idle" by (simp add: p(1))
  have "poll_rounds (p 0) = 100" by (simp add: p(1) poll_rounds_def sample_cache_def hybrid_new_def)
  with every_request_terminates [OF p(3) i t] p(1) show ?thesis by auto
qed

text \<open>
  C6: Every response of the proxy can be sent: in any run that starts without responses in the cache,
what a finished task answers with, from its own upstream request or from the cache, is well formed: a status
between 200 and 500, headers that \<open>into_response\<close> can build without a panic, and the stored body.
\<close>

theorem every_response_can_be_sent:
  assumes "redis_documented (redis L) view" and "response_codec_documented (codec L)"
    and "header_text_documented (http L)" and "status_documented (http L)"
    and "sys_run L app s0 tr s" and "tasks s0 = (\<lambda>_. Idle)"
    and "\<forall>k w. \<not> hybrid_source view (shared s0) (clock s0) k w"
    and "no_overflow (clock s) (cache_ttl (shared s0))"
    and "tasks s i = Finished x (Ok rd)"
  shows "sendable (http L) rd"
proof -
  have "task_sourced (codec L) tr (tasks s i)"
    using sys_run_sourced [OF assms(1,2,5-8)] by (simp add: sys_sourced_def)
  with assms(9) obtain k t j where "(t, Answered j k rd) \<in> set tr"
    by (cases x) (auto simp: task_sourced_def)
  then show ?thesis by (rule sys_run_answered [OF assms(3-5)])
qed

theorem every_response_can_be_sent_witness: "sendable list_http sample_rd"
proof -
  have R: "redis_documented (redis sample_libs) ref_view" and C: "response_codec_documented (codec sample_libs)"
    and H: "header_text_documented (http sample_libs)" and S: "status_documented (http sample_libs)"
    using ref_redis_documented sample_codec_documented list_http_text_documented
    by (simp_all add: sample_libs_def status_documented_def list_http_def)
  from sample_full_run obtain h where r: "sys_run sample_libs sample_app (sample_at 1000 sample_cache Idle Idle) sample_full
     (sample_at 1200 h (Finished (Some ''ANON:GET:k1'') (Ok sample_rd)) (Finished (Some ''ANON:GET:k1'') (Ok sample_rd)))" ..
  have "sendable (http sample_libs) sample_rd"
    by (rule every_response_can_be_sent [OF R C H S r sample_config(2), of "Suc 0"])
      (simp_all add: sample_config(1) no_overflow_def sample_empty)
  then show ?thesis by (simp add: sample_libs_def)
qed

end
