(* ===== verification/Server_Config.thy ===== *)
theory Server_Config
  imports Proxy_Properties
begin

text \<open>
  \<open>src/idempotent-proxy-server/src/main.rs\<close>: how the server's state is built from its environment
  variables, up to the point where it starts listening. What is outside the repository is the
  parameter \<open>config_lib\<close>: the \<open>.env\<close> file, the HTTP client, the Redis client, and the parsers of
  header values and public keys.
\<close>

section \<open>The libraries and the environment\<close>

type_synonym env_vars = "(string \<times> string) list"

record ('v, 'ek, 'dk, 'r) config_lib =
  client_build :: "u64 \<Rightarrow> (unit, string) outcome"
  redis_new :: "string \<Rightarrow> ('r, string) outcome"
  header_value_parse :: "string \<Rightarrow> 'v option"
  key_base64_decode :: "string \<Rightarrow> bytes option"
  ecdsa_from_sec1 :: "bytes \<Rightarrow> 'ek option"
  ed25519_from_bytes :: "bytes \<Rightarrow> 'dk option"

text \<open>\<open>std::env::var\<close>; collecting pairs into a \<open>HashMap\<close> (a later pair replaces an earlier one).\<close>

definition env_var :: "env_vars \<Rightarrow> string \<Rightarrow> string option" where
  "env_var vars name = map_of vars name"

definition collect_map :: "(string \<times> 'a) list \<Rightarrow> (string \<times> 'a) list" where
  "collect_map xs = rev xs"

text \<open>An iterator whose closure can panic.\<close>

fun collect_each :: "('a \<Rightarrow> ('b, 'e) outcome) \<Rightarrow> 'a list \<Rightarrow> ('b list, 'e) outcome" where
  "collect_each f [] = Ok []"
| "collect_each f (x # xs) = and_then (f x) (\<lambda>y. and_then (collect_each f xs) (\<lambda>ys. Ok (y # ys)))"

section \<open>The configuration\<close>

definition unwrap_msg :: string where
  "unwrap_msg = ''called `Result::unwrap()` on an `Err` value''"

definition env_u64 :: "env_vars \<Rightarrow> string \<Rightarrow> u64 \<Rightarrow> u64 \<Rightarrow> (u64, string) outcome" where
  "env_u64 vars name dflt least =
     (case env_var vars name of
        None \<Rightarrow> Ok (max dflt least)
      | Some n \<Rightarrow> and_then (expect unwrap_msg (ok_or unwrap_msg (parse_u64 n))) (\<lambda>v. Ok (max v least)))"

definition request_timeout :: "env_vars \<Rightarrow> (u64, string) outcome" where
  "request_timeout vars = env_u64 vars ''REQUEST_TIMEOUT'' 10000 1000"

definition poll_interval_ms :: "env_vars \<Rightarrow> (u64, string) outcome" where
  "poll_interval_ms vars = env_u64 vars ''POLL_INTERVAL'' 100 10"

definition allow_agents :: "env_vars \<Rightarrow> string list" where
  "allow_agents vars =
     filter (\<lambda>s. s \<noteq> []) (map trim (split_char CHR '',''
       (case env_var vars ''ALLOW_AGENTS'' of None \<Rightarrow> [] | Some s \<Rightarrow> s)))"

definition vars_with_prefix :: "env_vars \<Rightarrow> string \<Rightarrow> env_vars" where
  "vars_with_prefix vars p = filter (\<lambda>(k, v). starts_with k p) vars"

definition parse_header_vars :: "('v, 'ek, 'dk, 'r) config_lib \<Rightarrow> env_vars \<Rightarrow> ((string \<times> 'v) list, string) outcome" where
  "parse_header_vars G vars =
     map_ok collect_map (collect_each
       (\<lambda>(k, v). map_ok (Pair k) (expect ''invalid header value'' (ok_or ([] :: string) (header_value_parse G v))))
       (vars_with_prefix vars ''HEADER_''))"

definition parse_ecdsa_key :: "('v, 'ek, 'dk, 'r) config_lib \<Rightarrow> string \<Rightarrow> ('ek, string) outcome" where
  "parse_ecdsa_key G v =
     and_then (expect ''invalid base64'' (ok_or ([] :: string) (key_base64_decode G v))) (\<lambda>b.
       expect ''invalid ecdsa key'' (ok_or ([] :: string) (ecdsa_from_sec1 G b)))"

definition parse_ed25519_key :: "('v, 'ek, 'dk, 'r) config_lib \<Rightarrow> string \<Rightarrow> ('dk, string) outcome" where
  "parse_ed25519_key G v =
     and_then (expect ''invalid base64'' (ok_or ([] :: string) (key_base64_decode G v))) (\<lambda>b.
       if length b \<noteq> 32 then Panic ''invalid eddsa key''
       else expect ''invalid ecdsa key'' (ok_or ([] :: string) (ed25519_from_bytes G b)))"

definition make_cacher :: "('v, 'ek, 'dk, 'r) config_lib \<Rightarrow> env_vars \<Rightarrow> ('r cacher_entry, string) outcome" where
  "make_cacher G vars =
     (case env_var vars ''REDIS_URL'' of
        None \<Rightarrow> Ok (Memory mem_default)
      | Some url \<Rightarrow> map_ok Redis (expect unwrap_msg (redis_new G url)))"

text \<open>\<open>main\<close>, from reading the \<open>.env\<close> file (its result is the environment) to the \<open>AppState\<close>.\<close>

definition server_main :: "('v, 'ek, 'dk, 'r) config_lib \<Rightarrow> (env_vars, string) outcome
    \<Rightarrow> (('v, 'ek, 'dk) app_state \<times> 'r hybrid_cacher, string) outcome" where
  "server_main G dotenv =
     and_then (expect ''.env file not found'' dotenv) (\<lambda>vars.
     and_then (request_timeout vars) (\<lambda>req_timeout.
     and_then (poll_interval_ms vars) (\<lambda>interval.
     and_then (expect unwrap_msg (client_build G req_timeout)) (\<lambda>_.
     and_then (make_cacher G vars) (\<lambda>cacher_entry.
     and_then (parse_header_vars G vars) (\<lambda>hvars.
     and_then (collect_each (\<lambda>(_, v). parse_ecdsa_key G v) (vars_with_prefix vars ''ECDSA_PUB_KEY'')) (\<lambda>ecdsa.
     and_then (collect_each (\<lambda>(_, v). parse_ed25519_key G v) (vars_with_prefix vars ''ED25519_PUB_KEY'')) (\<lambda>ed25519.
       Ok (\<lparr>agents = allow_agents vars, url_vars = collect_map (vars_with_prefix vars ''URL_''),
            header_vars = hvars, ecdsa_pub_keys = ecdsa, ed25519_pub_keys = ed25519\<rparr>,
           hybrid_new interval req_timeout cacher_entry)))))))))"

section \<open>Lemmas\<close>

lemma env_u64_least: "env_u64 vars name dflt least = Ok v \<Longrightarrow> least \<le> v"
  by (auto simp: env_u64_def split: option.splits)

lemma collect_each_Ok: "collect_each f xs = Ok ys \<longleftrightarrow> map f xs = map Ok ys"
  by (induction xs arbitrary: ys) auto

lemma server_main_Ok:
  assumes "server_main G dotenv = Ok (app, h)"
  obtains vars where "dotenv = Ok vars" and "request_timeout vars = Ok (cache_ttl h)"
    and "poll_interval_ms vars = Ok (poll_interval h)" and "make_cacher G vars = Ok (cache h)"
    and "agents app = allow_agents vars" and "url_vars app = collect_map (vars_with_prefix vars ''URL_'')"
    and "parse_header_vars G vars = Ok (header_vars app)"
    and "map (\<lambda>(_, v). parse_ecdsa_key G v) (vars_with_prefix vars ''ECDSA_PUB_KEY'') = map Ok (ecdsa_pub_keys app)"
    and "map (\<lambda>(_, v). parse_ed25519_key G v) (vars_with_prefix vars ''ED25519_PUB_KEY'') = map Ok (ed25519_pub_keys app)"
  using assms by (auto simp: server_main_def hybrid_new_def collect_each_Ok)

lemma server_main_config:
  assumes "server_main G dotenv = Ok (app, h)"
  shows "10 \<le> poll_interval h \<and> 1000 \<le> cache_ttl h"
  using assms by (rule server_main_Ok) (auto simp: request_timeout_def poll_interval_ms_def dest: env_u64_least)

section \<open>An instance\<close>

definition sample_config_lib :: "(string, char, char, string \<rightharpoonup> bytes \<times> u64) config_lib" where
  "sample_config_lib = \<lparr>client_build = (\<lambda>t. Ok ()), redis_new = (\<lambda>url. Ok Map.empty),
     header_value_parse = Some, key_base64_decode = Some,
     ecdsa_from_sec1 = (\<lambda>b. case b of [] \<Rightarrow> None | c # cs \<Rightarrow> Some c),
     ed25519_from_bytes = (\<lambda>b. case b of [] \<Rightarrow> None | c # cs \<Rightarrow> Some c)\<rparr>"

definition sample_vars :: env_vars where
  "sample_vars = [(''POLL_INTERVAL'', ''5000''), (''REQUEST_TIMEOUT'', ''1000''), (''ALLOW_AGENTS'', ''bob, ''),
     (''ECDSA_PUB_KEY_1'', ''a''), (''ECDSA_PUB_KEY_2'', ''b''), (''URL_A'', ''https://a'')]"

lemma sample_trims: "trim '' '' = []" "trim ''bob'' = ''bob''"
proof -
  have "strip_any white_space '' '' = Some []" by (simp add: white_space_def)
  then have "trim_start_by white_space '' '' = []" by (simp add: trim_start_by.simps [of white_space "'' ''"])
  then show "trim '' '' = []" by (simp add: trim_def)
  show "trim ''bob'' = ''bob''" by (rule trim_id) (simp_all add: white_space_def)
qed

lemma sample_server:
  "server_main sample_config_lib (Ok sample_vars) =
     Ok (\<lparr>agents = [''bob''], url_vars = [(''URL_A'', ''https://a'')], header_vars = [],
          ecdsa_pub_keys = [CHR ''a'', CHR ''b''], ed25519_pub_keys = []\<rparr>,
         hybrid_new 5000 1000 (Memory mem_default))"
proof -
  have p: "parse_u64 ''5000'' = Some 5000" "parse_u64 ''1000'' = Some 1000"
    by (simp_all add: parse_u64_def strip_prefix_def starts_with_def digit_val_def Let_def)
  have a: "allow_agents sample_vars = [''bob'']"
    by (simp add: allow_agents_def sample_vars_def env_var_def sample_trims)
  have v: "vars_with_prefix sample_vars ''HEADER_'' = []" "vars_with_prefix sample_vars ''ED25519_PUB_KEY'' = []"
    "vars_with_prefix sample_vars ''ECDSA_PUB_KEY'' = [(''ECDSA_PUB_KEY_1'', ''a''), (''ECDSA_PUB_KEY_2'', ''b'')]"
    "vars_with_prefix sample_vars ''URL_'' = [(''URL_A'', ''https://a'')]"
    by (simp_all add: vars_with_prefix_def sample_vars_def starts_with_def)
  show ?thesis
    by (simp add: server_main_def a v parse_header_vars_def collect_map_def)
      (simp add: sample_vars_def env_var_def p request_timeout_def poll_interval_ms_def env_u64_def make_cacher_def
        sample_config_lib_def parse_ecdsa_key_def parse_ed25519_key_def max_def)
qed

section \<open>Properties\<close>

text \<open>
  C35: A server that starts can be relied on: its polling interval is at least 10 ms (so no request divides
by zero) and its lifetime of cache entries at least one second, a waiting request sleeps no longer
than that lifetime, and its cache satisfies the invariant the properties of the server start from, for every key.
\<close>

theorem started_server_is_well_configured:
  assumes "server_main G dotenv = Ok (app, h)"
  shows "10 \<le> poll_interval h \<and> 1000 \<le> cache_ttl h \<and> (\<forall>k. hybrid_ok k h) \<and>
    unat (cache_ttl h div poll_interval h) * unat (poll_interval h) \<le> unat (cache_ttl h)"
proof -
  from assms have "hybrid_ok k h" for k
    by (rule server_main_Ok) (auto simp: make_cacher_def hybrid_ok_def mem_tidy_default split: option.splits cacher_entry.splits)
  moreover have "unat (cache_ttl h div poll_interval h) * unat (poll_interval h) \<le> unat (cache_ttl h)"
    by (simp add: unat_div)
  ultimately show ?thesis using server_main_config [OF assms] by blast
qed

theorem started_server_is_well_configured_witness:
  "10 \<le> poll_interval (hybrid_new 5000 1000 (Memory mem_default) :: (string \<rightharpoonup> bytes \<times> u64) hybrid_cacher)"
  using started_server_is_well_configured [OF sample_server] by blast

text \<open>
  A polling interval above the request timeout is accepted and turns waiting off: then a request that
finds its key taken is answered with a 502 at once, without a look at the cache.
\<close>

theorem long_poll_interval_never_polls:
  assumes "server_main G dotenv = Ok (app, h)" and "cache h = Memory m" and "cache_ttl h < poll_interval h"
  shows "follow L env key h = (Err (502, ''polling get cache timeout''), h, None)"
proof -
  have "cache_ttl h div poll_interval h = 0"
    using assms(3) by (simp add: word_less_nat_alt word_unat_eq_iff unat_div)
  moreover have "poll_interval h \<noteq> 0" using server_main_config [OF assms(1)] by (auto simp: word_le_nat_alt)
  ultimately show ?thesis
    using assms(2) by (simp add: follow_def hybrid_polling_rounds hybrid_poll_start_def bad_gateway_def)
qed

theorem long_poll_interval_never_polls_witness:
  "follow sample_libs (sample_env 200) ''k'' (hybrid_new 5000 1000 (Memory mem_default)) =
     (Err (502, ''polling get cache timeout''), hybrid_new 5000 1000 (Memory mem_default), None)"
  by (rule long_poll_interval_never_polls [OF sample_server]) (simp_all add: hybrid_new_def)

text \<open>
  Every configured key counts: a server only starts when every variable whose name begins like a key's
holds a usable key, and then it accepts the signatures of all of them, in the order of the
environment; an unusable key stops the start instead of being skipped.
\<close>

theorem no_configured_key_is_skipped:
  assumes "server_main G (Ok vars) = Ok (app, h)"
  shows "map Some (ecdsa_pub_keys app) =
      map (\<lambda>(_, v). Option.bind (key_base64_decode G v) (ecdsa_from_sec1 G)) (vars_with_prefix vars ''ECDSA_PUB_KEY'') \<and>
    map Some (ed25519_pub_keys app) =
      map (\<lambda>(_, v). Option.bind (key_base64_decode G v) (\<lambda>b. if length b = 32 then ed25519_from_bytes G b else None))
        (vars_with_prefix vars ''ED25519_PUB_KEY'')"
proof -
  have e: "map Some ks = map (\<lambda>(_, v). Option.bind (key_base64_decode G v) (ecdsa_from_sec1 G)) vs"
    if "map (\<lambda>(_, v). parse_ecdsa_key G v) vs = map Ok ks" for ks and vs :: env_vars
    using that
    by (induction vs arbitrary: ks) (auto simp: parse_ecdsa_key_def Cons_eq_map_conv)
  have d: "map Some ks = map (\<lambda>(_, v). Option.bind (key_base64_decode G v)
      (\<lambda>b. if length b = 32 then ed25519_from_bytes G b else None)) vs"
    if "map (\<lambda>(_, v). parse_ed25519_key G v) vs = map Ok ks" for ks and vs :: env_vars
    using that
    by (induction vs arbitrary: ks) (auto simp: parse_ed25519_key_def Cons_eq_map_conv split: if_splits)
  from assms show ?thesis by (rule server_main_Ok) (auto intro: e d)
qed

theorem no_configured_key_is_skipped_witness:
  "map Some [CHR ''a'', CHR ''b''] =
    map (\<lambda>(_, v). Option.bind (key_base64_decode sample_config_lib v) (ecdsa_from_sec1 sample_config_lib))
      (vars_with_prefix sample_vars ''ECDSA_PUB_KEY'')"
  using no_configured_key_is_skipped [OF sample_server] by simp

end
