(* ===== verification/Server_Start.thy ===== *)
theory Server_Start
  imports Server_Config
begin

text \<open>
  \<open>src/idempotent-proxy-server/src/main.rs\<close>, from the address to the listener, and the construction of the
  Redis pool (\<open>cache/redis.rs\<close>, \<open>RedisClient::new\<close>): where the server listens, with or without TLS. The
  sockets, the PEM files and the pool are the parameter \<open>serve_lib\<close>. What a termination signal does after
  that is up to \<open>axum\<close>, \<open>axum_server\<close> and the operating system, and is not modelled.
\<close>

section \<open>The Redis pool\<close>

record ('p, 'r) pool_lib =
  pooled_manager :: "string \<Rightarrow> ('p, string) outcome"
  pool_build :: "'p \<Rightarrow> ('r, string) outcome"

definition redis_client_new :: "('p, 'r) pool_lib \<Rightarrow> string \<Rightarrow> ('r, string) outcome" where
  "redis_client_new B url = and_then (expect unwrap_msg (pooled_manager B url)) (pool_build B)"

section \<open>Where the server listens\<close>

record ('a, 't) serve_lib =
  socket_addr_parse :: "string \<Rightarrow> 'a option"
  tcp_bind :: "'a \<Rightarrow> (unit, string) outcome"
  from_pem_file :: "string \<Rightarrow> string \<Rightarrow> ('t, string) outcome"
  bind_rustls :: "'a \<Rightarrow> 't \<Rightarrow> (unit, string) outcome"

datatype ('a, 't) listening = Plain 'a | Tls 'a 't

definition env_or :: "env_vars \<Rightarrow> string \<Rightarrow> string \<Rightarrow> string" where
  "env_or vars name dflt = (case env_var vars name of None \<Rightarrow> dflt | Some v \<Rightarrow> v)"

definition server_addr :: "('a, 't) serve_lib \<Rightarrow> env_vars \<Rightarrow> ('a, string) outcome" where
  "server_addr B vars =
     expect unwrap_msg (ok_or unwrap_msg (socket_addr_parse B (env_or vars ''SERVER_ADDR'' ''127.0.0.1:8080'')))"

definition serve :: "('a, 't) serve_lib \<Rightarrow> env_vars \<Rightarrow> (('a, 't) listening, string) outcome" where
  "serve B vars =
     and_then (server_addr B vars) (\<lambda>addr.
     let cert_file = env_or vars ''TLS_CERT_FILE'' []; key_file = env_or vars ''TLS_KEY_FILE'' []
     in if key_file = [] then and_then (expect unwrap_msg (tcp_bind B addr)) (\<lambda>_. Ok (Plain addr))
        else and_then (case from_pem_file B cert_file key_file of
              Ok config \<Rightarrow> Ok config
            | Err _ \<Rightarrow> Panic (''read tls file failed: '' @ cert_file @ '', '' @ key_file)
            | Panic m \<Rightarrow> Panic m) (\<lambda>config.
          and_then (expect unwrap_msg (bind_rustls B addr config)) (\<lambda>_. Ok (Tls addr config))))"

text \<open>\<open>main\<close> as a whole: the state and the cache of \<open>server_main\<close>, then the listener.\<close>

definition main :: "('v, 'ek, 'dk, 'r) config_lib \<Rightarrow> ('a, 't) serve_lib \<Rightarrow> (env_vars, string) outcome
    \<Rightarrow> ((('v, 'ek, 'dk) app_state \<times> 'r hybrid_cacher) \<times> ('a, 't) listening, string) outcome" where
  "main G B dotenv =
     and_then (server_main G dotenv) (\<lambda>st.
     and_then (expect ''.env file not found'' dotenv) (\<lambda>vars.
     and_then (serve B vars) (\<lambda>l. Ok (st, l))))"

section \<open>Properties\<close>

text \<open>
  Half a TLS configuration is not an error: a certificate without \<open>TLS_KEY_FILE\<close> makes a server in
plain text.
\<close>

theorem certificate_without_key_serves_plain_text:
  assumes "env_or vars ''TLS_KEY_FILE'' [] = []" and "serve B vars = Ok l"
  shows "\<exists>addr. l = Plain addr"
  using assms by (auto simp: serve_def Let_def)

theorem certificate_without_key_serves_plain_text_witness:
  "\<exists>addr. serve \<lparr>socket_addr_parse = Some, tcp_bind = (\<lambda>_. Ok ()), from_pem_file = (\<lambda>c k. Ok ()), bind_rustls = (\<lambda>_ _. Ok ())\<rparr>
     [(''TLS_CERT_FILE'', ''cert.pem'')] = Ok (Plain addr)"
proof -
  let ?B = "\<lparr>socket_addr_parse = Some, tcp_bind = (\<lambda>_. Ok ()), from_pem_file = (\<lambda>c k. Ok ()), bind_rustls = (\<lambda>_ _. Ok ())\<rparr>"
  have s: "serve ?B [(''TLS_CERT_FILE'', ''cert.pem'')] = Ok (Plain ''127.0.0.1:8080'')"
    by (simp add: serve_def Let_def server_addr_def env_or_def env_var_def)
  have "env_or [(''TLS_CERT_FILE'', ''cert.pem'')] ''TLS_KEY_FILE'' [] = []" by (simp add: env_or_def env_var_def)
  from certificate_without_key_serves_plain_text [OF this s] s show ?thesis by blast
qed

text \<open>A bad Redis URL panics in \<open>RedisClient::new\<close>, past its own \<open>Result\<close>.\<close>

lemma redis_client_new_bad_url: "pooled_manager B url = Err e \<Longrightarrow> redis_client_new B url = Panic unwrap_msg"
  by (simp add: redis_client_new_def)

end
