(* ===== verification/Cycles.thy ===== *)
theory Cycles
  imports Prelude
begin

text \<open>
  \<open>src/idempotent-proxy-canister/src/cycles.rs\<close>: what the canister charges for an HTTP outcall, and
  the requests and responses of the management canister it counts. The canister is a 32-bit
  WebAssembly module, so \<open>usize\<close> has 32 bits; prices are computed on \<open>u64\<close> and then on \<open>u128\<close>,
  with the wrap-around of the release profile.
\<close>

section \<open>Requests and responses of an HTTP outcall\<close>

type_synonym usize = "32 word"

record http_header =
  hd_name :: string
  hd_value :: string

datatype http_method = GET | HEAD | POST

record outcall_request =
  oq_url :: string
  oq_max_response_bytes :: "u64 option"
  oq_method :: http_method
  oq_headers :: "http_header list"
  oq_body :: "bytes option"
  oq_transform :: "(string \<times> bytes) option"

record outcall_response =
  or_status :: nat
  or_headers :: "http_header list"
  or_body :: bytes

section \<open>The calculator\<close>

record calculator =
  subnet_size :: u64
  service_fee :: u64

definition INGRESS_MESSAGE_RECEIVED_COST :: u64 where
  "INGRESS_MESSAGE_RECEIVED_COST = 1200000"

definition INGRESS_MESSAGE_BYTE_RECEIVED_COST :: u64 where
  "INGRESS_MESSAGE_BYTE_RECEIVED_COST = 2000"

definition HTTP_OUTCALL_REQUEST_BASE_COST :: u64 where
  "HTTP_OUTCALL_REQUEST_BASE_COST = 3000000"

definition HTTP_OUTCALL_REQUEST_PER_NODE_COST :: u64 where
  "HTTP_OUTCALL_REQUEST_PER_NODE_COST = 60000"

definition HTTP_OUTCALL_REQUEST_COST_PER_BYTE :: u64 where
  "HTTP_OUTCALL_REQUEST_COST_PER_BYTE = 400"

definition HTTP_OUTCALL_RESPONSE_COST_PER_BYTE :: u64 where
  "HTTP_OUTCALL_RESPONSE_COST_PER_BYTE = 800"

definition HTTP_OUTCALL_REQUEST_OVERHEAD_BYTES :: u64 where
  "HTTP_OUTCALL_REQUEST_OVERHEAD_BYTES = 150"

definition CANISTER_OVERHEAD :: u64 where
  "CANISTER_OVERHEAD = 1000000"

definition usize_len :: "'a list \<Rightarrow> usize" where
  "usize_len xs = of_nat (length xs)"

definition header_bytes :: "http_header \<Rightarrow> usize" where
  "header_bytes h = usize_len (hd_name h) + usize_len (hd_value h) + 3"

definition count_request_bytes :: "calculator \<Rightarrow> outcall_request \<Rightarrow> usize" where
  "count_request_bytes c req =
     (if subnet_size c = 0 then 0
      else fold (\<lambda>h total. total + header_bytes h) (oq_headers req)
        (usize_len (oq_url req) + (case oq_body req of None \<Rightarrow> 0 | Some b \<Rightarrow> usize_len b)))"

definition count_response_bytes :: "calculator \<Rightarrow> outcall_response \<Rightarrow> usize" where
  "count_response_bytes c res =
     (if subnet_size c = 0 then 0
      else fold (\<lambda>h total. total + header_bytes h) (or_headers res) (4 + usize_len (or_body res)))"

definition ingress_cost :: "calculator \<Rightarrow> usize \<Rightarrow> u128" where
  "ingress_cost c ingress_bytes =
     (if subnet_size c = 0 then 0
      else (let cost_per_node = INGRESS_MESSAGE_RECEIVED_COST +
              INGRESS_MESSAGE_BYTE_RECEIVED_COST * ucast ingress_bytes
            in ucast cost_per_node * ucast (subnet_size c)))"

definition http_outcall_request_cost :: "calculator \<Rightarrow> usize \<Rightarrow> usize \<Rightarrow> u128" where
  "http_outcall_request_cost c request_bytes duplicates =
     (if subnet_size c = 0 then 0
      else (let cost_per_node = HTTP_OUTCALL_REQUEST_BASE_COST
              + HTTP_OUTCALL_REQUEST_PER_NODE_COST * subnet_size c
              + HTTP_OUTCALL_REQUEST_COST_PER_BYTE * (HTTP_OUTCALL_REQUEST_OVERHEAD_BYTES + ucast request_bytes)
              + CANISTER_OVERHEAD
            in ucast (service_fee c) + ucast cost_per_node * ucast (subnet_size c * ucast duplicates)))"

definition http_outcall_response_cost :: "calculator \<Rightarrow> usize \<Rightarrow> usize \<Rightarrow> u128" where
  "http_outcall_response_cost c response_bytes duplicates =
     (if subnet_size c = 0 then 0
      else (let cost_per_node = HTTP_OUTCALL_RESPONSE_COST_PER_BYTE * ucast response_bytes
            in ucast cost_per_node * ucast (subnet_size c * ucast duplicates)))"

section \<open>The price list on unbounded numbers\<close>

text \<open>The same prices without machine integers: what is meant to be charged.\<close>

definition spec_ingress :: "nat \<Rightarrow> nat \<Rightarrow> nat" where
  "spec_ingress n b = (if n = 0 then 0 else (1200000 + 2000 * b) * n)"

definition spec_request :: "nat \<Rightarrow> nat \<Rightarrow> nat \<Rightarrow> nat \<Rightarrow> nat" where
  "spec_request n fee b d =
     (if n = 0 then 0 else fee + (3000000 + 60000 * n + 400 * (150 + b) + 1000000) * (n * d))"

definition spec_response :: "nat \<Rightarrow> nat \<Rightarrow> nat \<Rightarrow> nat" where
  "spec_response n b d = (if n = 0 then 0 else 800 * b * (n * d))"

lemmas cost_constants = INGRESS_MESSAGE_RECEIVED_COST_def INGRESS_MESSAGE_BYTE_RECEIVED_COST_def
  HTTP_OUTCALL_REQUEST_BASE_COST_def HTTP_OUTCALL_REQUEST_PER_NODE_COST_def
  HTTP_OUTCALL_REQUEST_COST_PER_BYTE_def HTTP_OUTCALL_RESPONSE_COST_PER_BYTE_def
  HTTP_OUTCALL_REQUEST_OVERHEAD_BYTES_def CANISTER_OVERHEAD_def

lemma unat_mult_exact: "unat a * unat b < 2 ^ LENGTH('l) \<Longrightarrow> unat (a * b :: 'l::len word) = unat a * unat b"
  by (simp add: unat_word_ariths)

lemma unat_add_exact: "unat a + unat b < 2 ^ LENGTH('l) \<Longrightarrow> unat (a + b :: 'l::len word) = unat a + unat b"
  by (simp add: unat_word_ariths)

lemma unat_ucast_up:
  assumes "LENGTH('k) \<le> LENGTH('l)"
  shows "unat (ucast (a :: 'k::len word) :: 'l::len word) = unat a"
proof -
  have "unat a < 2 ^ LENGTH('k)" by simp
  also have "\<dots> \<le> 2 ^ LENGTH('l)" using assms by simp
  finally show ?thesis by (simp add: unsigned_ucast_eq take_bit_nat_eq_self)
qed

lemma usize_less: "unat (x :: usize) < 2 ^ 32"
  using unsigned_less [of x] by simp

lemma u64_less: "unat (x :: u64) < 2 ^ 64"
  using unsigned_less [of x] by simp

text \<open>The products of a price per node, a number of nodes and a number of duplicates.\<close>

lemma cost_product:
  fixes p n :: u64 and d :: usize
  assumes "unat n \<le> 2 ^ 20" and "unat p < 2 ^ 44"
  shows "unat (ucast p * ucast (n * ucast d) :: u128) = unat p * (unat n * unat d)"
    and "unat p * (unat n * unat d) < 2 ^ 96"
proof -
  have nd: "unat n * unat d \<le> 2 ^ 20 * 2 ^ 32" using assms(1) usize_less [of d] by (intro mult_mono) simp_all
  then have e: "unat (n * ucast d) = unat n * unat d"
    by (subst unat_mult_exact) (simp_all add: unat_ucast_up)
  have "unat p * (unat n * unat d) \<le> unat p * 2 ^ 52" using nd by (intro mult_le_mono2) simp
  also have "\<dots> < 2 ^ 44 * 2 ^ 52" using assms(2) by simp
  finally show l: "unat p * (unat n * unat d) < 2 ^ 96" by simp
  then show "unat (ucast p * ucast (n * ucast d) :: u128) = unat p * (unat n * unat d)"
    by (subst unat_mult_exact) (simp_all add: unat_ucast_up e)
qed

lemma ingress_cost_exact:
  assumes "unat (subnet_size c) \<le> 2 ^ 20"
  shows "unat (ingress_cost c b) = spec_ingress (unat (subnet_size c)) (unat b)"
proof (cases "subnet_size c = 0")
  case False
  let ?p = "INGRESS_MESSAGE_RECEIVED_COST + INGRESS_MESSAGE_BYTE_RECEIVED_COST * ucast b :: u64"
  have m: "unat (2000 * ucast b :: u64) = 2000 * unat b"
    using usize_less [of b] by (subst unat_mult_exact) (simp_all add: unat_ucast_up)
  have p: "unat ?p = 1200000 + 2000 * unat b"
    using usize_less [of b] by (subst unat_add_exact) (simp_all add: cost_constants m)
  then have "unat ?p < 2 ^ 44" using usize_less [of b] by simp
  with cost_product(1) [OF assms this, of 1] have "unat (ucast ?p * ucast (subnet_size c) :: u128) = unat ?p * unat (subnet_size c)"
    by simp
  with False p show ?thesis by (simp add: ingress_cost_def spec_ingress_def Let_def unat_eq_0)
qed (simp add: ingress_cost_def spec_ingress_def)

lemma response_cost_exact:
  assumes "unat (subnet_size c) \<le> 2 ^ 20"
  shows "unat (http_outcall_response_cost c b d) = spec_response (unat (subnet_size c)) (unat b) (unat d)"
proof (cases "subnet_size c = 0")
  case False
  have m: "unat (800 * ucast b :: u64) = 800 * unat b"
    using usize_less [of b] by (subst unat_mult_exact) (simp_all add: unat_ucast_up)
  then have "unat (800 * ucast b :: u64) < 2 ^ 44" using usize_less [of b] by simp
  with cost_product(1) [OF assms this, of d] m False show ?thesis
    by (simp add: http_outcall_response_cost_def spec_response_def cost_constants Let_def unat_eq_0)
qed (simp add: http_outcall_response_cost_def spec_response_def)

lemma request_cost_exact:
  assumes "unat (subnet_size c) \<le> 2 ^ 20"
  shows "unat (http_outcall_request_cost c b d) =
    spec_request (unat (subnet_size c)) (unat (service_fee c)) (unat b) (unat d)"
proof (cases "subnet_size c = 0")
  case False
  let ?n = "subnet_size c"
  let ?p = "3000000 + 60000 * ?n + 400 * (150 + ucast b) + 1000000 :: u64"
  define q1 where "q1 = 60000 * ?n"
  define q2 where "q2 = 400 * (150 + ucast b :: u64)"
  have a: "unat (150 + ucast b :: u64) = 150 + unat b"
    using usize_less [of b] by (subst unat_add_exact) (simp_all add: unat_ucast_up)
  have n: "unat q1 = 60000 * unat ?n"
    using assms unfolding q1_def by (subst unat_mult_exact) simp_all
  have m: "unat q2 = 400 * (150 + unat b)"
    using usize_less [of b] unfolding q2_def by (subst unat_mult_exact) (simp_all only: a, simp_all)
  have p1: "unat (3000000 + q1) = 3000000 + 60000 * unat ?n"
    using assms by (subst unat_add_exact) (simp_all add: n)
  have p2: "unat (3000000 + q1 + q2) = 3000000 + 60000 * unat ?n + 400 * (150 + unat b)"
    using assms usize_less [of b] by (subst unat_add_exact) (simp_all add: p1 m)
  have "unat (3000000 + q1 + q2 + 1000000) = 3000000 + 60000 * unat ?n + 400 * (150 + unat b) + 1000000"
    using assms usize_less [of b] by (subst unat_add_exact) (simp_all add: p2)
  then have p: "unat ?p = 3000000 + 60000 * unat ?n + 400 * (150 + unat b) + 1000000"
    unfolding q1_def q2_def .
  then have lt: "unat ?p < 2 ^ 44" using assms usize_less [of b] by simp
  note q = cost_product [OF assms lt, of d]
  have "unat (ucast (service_fee c) + ucast ?p * ucast (?n * ucast d) :: u128) =
      unat (service_fee c) + unat ?p * (unat ?n * unat d)"
    using q u64_less [of "service_fee c"] by (subst unat_add_exact) (simp_all add: unat_ucast_up)
  with False p show ?thesis
    by (simp add: http_outcall_request_cost_def spec_request_def cost_constants Let_def unat_eq_0)
qed (simp add: http_outcall_request_cost_def spec_request_def)

section \<open>Properties\<close>

text \<open>
  C37: The prices are exact: on a subnet of at most a million nodes no intermediate result on 64 bits
wraps, whatever the sizes and the number of duplicates, so the canister charges the documented
formula, computed on unbounded numbers; with the subnet size 0 everything is free.
\<close>

theorem prices_are_exact:
  assumes "unat (subnet_size c) \<le> 2 ^ 20"
  shows "unat (ingress_cost c i) = spec_ingress (unat (subnet_size c)) (unat i) \<and>
    unat (http_outcall_request_cost c b d) =
      spec_request (unat (subnet_size c)) (unat (service_fee c)) (unat b) (unat d) \<and>
    unat (http_outcall_response_cost c r d) = spec_response (unat (subnet_size c)) (unat r) (unat d)"
  using ingress_cost_exact [OF assms] request_cost_exact [OF assms] response_cost_exact [OF assms] by blast

theorem prices_are_exact_witness:
  "unat (http_outcall_request_cost \<lparr>subnet_size = 34, service_fee = 100000000\<rparr> 1000 3) =
     spec_request 34 100000000 1000 3"
  using prices_are_exact [of "\<lparr>subnet_size = 34, service_fee = 100000000\<rparr>" 0 1000 3 0] by simp

end
