(* ===== verification/Canister_Agent.thy ===== *)
theory Canister_Agent
  imports Cycles
begin

text \<open>
  \<open>src/idempotent-proxy-canister/src/agent.rs\<close>: an agent is one proxy server the canister may send
  its outcalls through. A request of a client is rewritten so that the proxy forwards it, and the
  answer is judged. The URI parser and the management canister's \<open>http_request\<close> are parameters.
\<close>

section \<open>Data\<close>

record agent =
  ag_name :: string
  ag_endpoint :: string
  ag_max_cycles :: u64
  ag_proxy_token :: "string option"

record 'x uri_lib =
  uri_parse :: "string \<Rightarrow> ('x, string) outcome"
  uri_host :: "'x \<Rightarrow> string option"
  uri_path_and_query :: "'x \<Rightarrow> string option"

text \<open>An outcall: the response, or the rejection's code (as text) and message.\<close>

type_synonym outcall = "outcall_request \<Rightarrow> u128 \<Rightarrow> (outcall_response, string \<times> string) outcome"

section \<open>Operations\<close>

definition has_header :: "string \<Rightarrow> outcall_request \<Rightarrow> bool" where
  "has_header n req \<longleftrightarrow> list_ex (\<lambda>h. hd_name h = n) (oq_headers req)"

definition push_header :: "string \<Rightarrow> string \<Rightarrow> outcall_request \<Rightarrow> outcall_request" where
  "push_header n v req = req\<lparr>oq_headers := oq_headers req @ [\<lparr>hd_name = n, hd_value = v\<rparr>]\<rparr>"

definition build_target :: "'x uri_lib \<Rightarrow> agent \<Rightarrow> outcall_request \<Rightarrow> (outcall_request, string) outcome" where
  "build_target X a req =
     (if starts_with (oq_url req) ''URL_''
      then Ok (req\<lparr>oq_url := ag_endpoint a @ ''/'' @ oq_url req\<rparr>)
      else
        and_then (map_err (\<lambda>err. ''parse url '' @ oq_url req @ '' error: '' @ err) (uri_parse X (oq_url req))) (\<lambda>url.
        and_then (ok_or (''url host is empty: '' @ oq_url req) (uri_host X url)) (\<lambda>host.
          let path_query = (case uri_path_and_query X url of None \<Rightarrow> ''/'' | Some v \<Rightarrow> v)
          in Ok ((push_header ''x-forwarded-host'' host req)\<lparr>oq_url := ag_endpoint a @ path_query\<rparr>))))"

definition build_request :: "'x uri_lib \<Rightarrow> agent \<Rightarrow> outcall_request \<Rightarrow> (outcall_request, string) outcome" where
  "build_request X a req =
     (if \<not> has_header ''idempotency-key'' req then Err ''idempotency-key header is missing''
      else and_then (build_target X a req) (\<lambda>req.
        let req = (if \<not> has_header ''response-headers'' req then push_header ''response-headers'' ''date'' req else req);
            req = (case ag_proxy_token a of None \<Rightarrow> req
                   | Some t \<Rightarrow> push_header ''proxy-authorization'' (''Bearer '' @ t) req)
        in Ok (req\<lparr>oq_transform := Some (''inner_transform_response'', [])\<rparr>)))"

text \<open>\<open>Agent::call\<close>, and whether it reached its \<open>await\<close> (a refused request does not).\<close>

definition outcall_error :: "string \<Rightarrow> string \<Rightarrow> outcall_response" where
  "outcall_error code message = \<lparr>or_status = 503, or_headers = [],
     or_body = ''http_request resulted into error. code: '' @ code @ '', error: '' @ message\<rparr>"

definition agent_call :: "'x uri_lib \<Rightarrow> outcall \<Rightarrow> agent \<Rightarrow> outcall_request \<Rightarrow> (outcall_response, outcall_response) outcome" where
  "agent_call X http_request a req =
     (case build_request X a req of
        Err err \<Rightarrow> Ok \<lparr>or_status = 400, or_headers = [], or_body = err\<rparr>
      | Panic m \<Rightarrow> Panic m
      | Ok req \<Rightarrow> (case http_request req (ucast (ag_max_cycles a)) of
          Ok res \<Rightarrow> if or_status res \<le> 500 then Ok res else Err res
        | Err (code, message) \<Rightarrow> Err (outcall_error code message)
        | Panic m \<Rightarrow> Panic m))"

definition call_awaits :: "'x uri_lib \<Rightarrow> agent \<Rightarrow> outcall_request \<Rightarrow> bool" where
  "call_awaits X a req = (case build_request X a req of Ok r \<Rightarrow> True | _ \<Rightarrow> False)"

definition inner_transform_response :: "outcall_response \<Rightarrow> outcall_response" where
  "inner_transform_response res = \<lparr>or_status = or_status res, or_headers = [], or_body = or_body res\<rparr>"

section \<open>Lemmas\<close>

lemma push_header_simps [simp]:
  "oq_headers (push_header n v req) = oq_headers req @ [\<lparr>hd_name = n, hd_value = v\<rparr>]"
  "oq_url (push_header n v req) = oq_url req" "oq_body (push_header n v req) = oq_body req"
  "oq_method (push_header n v req) = oq_method req"
  "oq_max_response_bytes (push_header n v req) = oq_max_response_bytes req"
  by (simp_all add: push_header_def)

lemma has_header_iff: "has_header n req \<longleftrightarrow> (\<exists>h\<in>set (oq_headers req). hd_name h = n)"
  by (simp add: has_header_def list_ex_iff)

lemma agent_call_status:
  "agent_call X f a req = Ok res \<Longrightarrow> or_status res \<le> 500"
  "agent_call X f a req = Err res \<Longrightarrow> (\<forall>r m c. f r m = Ok c \<longrightarrow> or_status c \<le> 500) \<Longrightarrow> or_status res = 503"
  by (auto simp: agent_call_def outcall_error_def split: outcome.splits if_splits)

section \<open>An instance\<close>

text \<open>A parsed URI is its scheme, host, port and path, for the witnesses.\<close>

definition sample_uri :: "(string \<times> string) uri_lib" where
  "sample_uri = \<lparr>uri_parse = (\<lambda>s.
       if s = ''https://api.com/v1'' then Ok (''api.com'', ''/v1'')
       else if s = ''http://api.com:8080/v1'' then Ok (''api.com'', ''/v1'') else Err ''bad uri''),
     uri_host = (\<lambda>x. Some (fst x)), uri_path_and_query = (\<lambda>x. Some (snd x))\<rparr>"

definition sample_agent :: agent where
  "sample_agent = \<lparr>ag_name = ''bob'', ag_endpoint = ''https://proxy'', ag_max_cycles = 1000,
     ag_proxy_token = Some ''tok''\<rparr>"

definition sample_oq :: "string \<Rightarrow> outcall_request" where
  "sample_oq u = \<lparr>oq_url = u, oq_max_response_bytes = None, oq_method = GET,
     oq_headers = [\<lparr>hd_name = ''idempotency-key'', hd_value = ''k1''\<rparr>], oq_body = None, oq_transform = None\<rparr>"

section \<open>Properties\<close>

text \<open>
  A request that leaves the canister can be served by the proxy: it has an idempotency key, names its
target by a \<open>URL_\<close> path or by the forwarding header with the parsed host, asks for the headers
the client asked for (or the date), carries the agent's token, has the transform that removes the
headers before consensus, and the client's own headers, method, body and size limit are kept.
\<close>

theorem build_request_serves_the_proxy:
  assumes "build_request X a req = Ok r"
  shows "(\<exists>h\<in>set (oq_headers req). hd_name h = ''idempotency-key'') \<and>
    (if starts_with (oq_url req) ''URL_'' then oq_url r = ag_endpoint a @ ''/'' @ oq_url req
     else \<exists>u host. uri_parse X (oq_url req) = Ok u \<and> uri_host X u = Some host \<and>
       oq_url r = ag_endpoint a @ (case uri_path_and_query X u of None \<Rightarrow> ''/'' | Some p \<Rightarrow> p) \<and>
       \<lparr>hd_name = ''x-forwarded-host'', hd_value = host\<rparr> \<in> set (oq_headers r)) \<and>
    (\<exists>h\<in>set (oq_headers r). hd_name h = ''response-headers'') \<and>
    (\<forall>t. ag_proxy_token a = Some t \<longrightarrow>
       \<lparr>hd_name = ''proxy-authorization'', hd_value = ''Bearer '' @ t\<rparr> \<in> set (oq_headers r)) \<and>
    oq_transform r = Some (''inner_transform_response'', []) \<and>
    (\<exists>hs. oq_headers r = oq_headers req @ hs) \<and>
    oq_method r = oq_method req \<and> oq_body r = oq_body req \<and> oq_max_response_bytes r = oq_max_response_bytes req"
  using assms
  by (cases "starts_with (oq_url req) ''URL_''"; cases "ag_proxy_token a")
    (auto simp: build_request_def build_target_def has_header_iff Let_def split: if_splits)

theorem build_request_serves_the_proxy_witness:
  "\<exists>r. build_request sample_uri sample_agent (sample_oq ''https://api.com/v1'') = Ok r \<and>
     oq_url r = ''https://proxy/v1'' \<and> (\<exists>hs. oq_headers r = oq_headers (sample_oq ''https://api.com/v1'') @ hs)"
proof -
  let ?q = "sample_oq ''https://api.com/v1''"
  obtain r where r: "build_request sample_uri sample_agent ?q = Ok r" and u: "oq_url r = ''https://proxy/v1''"
    by (simp add: build_request_def build_target_def sample_oq_def sample_uri_def sample_agent_def
        has_header_def starts_with_def push_header_def)
  with build_request_serves_the_proxy [OF r] show ?thesis by blast
qed

text \<open>
  The scheme and the port of the target are lost: two URLs that differ only there are rewritten to the
same request, so a target on a port of its own, or reached by plain HTTP, cannot be named.
\<close>

theorem scheme_and_port_are_dropped:
  assumes "uri_parse X u = Ok x" and "uri_parse X u' = Ok x'"
    and "uri_host X x = Some host" and "uri_host X x' = Some host"
    and "uri_path_and_query X x = uri_path_and_query X x'"
    and "\<not> starts_with u ''URL_''" and "\<not> starts_with u' ''URL_''"
  shows "build_request X a (req\<lparr>oq_url := u\<rparr>) = build_request X a (req\<lparr>oq_url := u'\<rparr>)"
  using assms by (simp add: build_request_def build_target_def has_header_def push_header_def Let_def)

theorem scheme_and_port_are_dropped_witness:
  "build_request sample_uri sample_agent ((sample_oq [])\<lparr>oq_url := ''https://api.com/v1''\<rparr>) =
   build_request sample_uri sample_agent ((sample_oq [])\<lparr>oq_url := ''http://api.com:8080/v1''\<rparr>)"
  by (rule scheme_and_port_are_dropped [where host = "''api.com''" and x = "(''api.com'', ''/v1'')" and x' = "(''api.com'', ''/v1'')"])
    (simp_all add: sample_uri_def starts_with_def)

end
