(* ===== verification/Canister_State.thy ===== *)
theory Canister_State
  imports Canister_Agent
begin

text \<open>
  The canister's state: \<open>store.rs\<close> (the state, its accounting of cycles, saving and loading), with
  \<open>lib.rs\<close> (the guards), \<open>init.rs\<close> (installation and upgrade) and the bodies of \<open>api_admin.rs\<close> of
  \<open>src/idempotent-proxy-canister/src\<close>; \<open>Canister_Admin\<close> puts them behind their guards. A message that traps leaves no trace: its result is then
  \<open>Panic\<close> and whoever runs it restores the state (\<open>run_message\<close>).
\<close>

section \<open>State\<close>

type_synonym principal = bytes

text \<open>The anonymous principal of the Internet Computer is the byte 4.\<close>

definition ANONYMOUS :: principal where
  "ANONYMOUS = [CHR 0x04]"

record cose_client =
  cc_id :: principal
  cc_namespace :: string

record canister_state =
  ecdsa_key_name :: string
  proxy_token_public_key :: string
  proxy_token_refresh_interval :: u64
  cs_agents :: "agent list"
  managers :: "principal set"
  allowed_callers :: "principal list"
  callers :: "principal \<rightharpoonup> u128 \<times> u64"
  cs_subnet_size :: u64
  cs_service_fee :: u64
  incoming_cycles :: u128
  uncollectible_cycles :: u128
  cose :: "cose_client option"

definition state_default :: canister_state where
  "state_default = \<lparr>ecdsa_key_name = [], proxy_token_public_key = [], proxy_token_refresh_interval = 0,
     cs_agents = [], managers = {}, allowed_callers = [], callers = Map.empty, cs_subnet_size = 0,
     cs_service_fee = 0, incoming_cycles = 0, uncollectible_cycles = 0, cose = None\<rparr>"

record signer =
  sg_key_name :: string
  sg_cose :: "cose_client option"

definition signer :: "canister_state \<Rightarrow> signer" where
  "signer s = \<lparr>sg_key_name = ecdsa_key_name s, sg_cose = cose s\<rparr>"

definition get_agents :: "canister_state \<Rightarrow> agent list" where
  "get_agents s = cs_agents s"

definition cycles_calculator :: "canister_state \<Rightarrow> calculator" where
  "cycles_calculator s = \<lparr>subnet_size = cs_subnet_size s, service_fee = cs_service_fee s\<rparr>"

definition is_manager :: "principal \<Rightarrow> canister_state \<Rightarrow> bool" where
  "is_manager caller s \<longleftrightarrow> caller \<in> managers s"

definition is_allowed :: "principal \<Rightarrow> canister_state \<Rightarrow> bool" where
  "is_allowed caller s \<longleftrightarrow> callers s caller \<noteq> None"

definition update_caller_state :: "principal \<Rightarrow> u128 \<Rightarrow> u64 \<Rightarrow> canister_state \<Rightarrow> canister_state" where
  "update_caller_state caller cycles now_ms s =
     s\<lparr>callers := (case callers s caller of
         None \<Rightarrow> callers s
       | Some (c, t) \<Rightarrow> (callers s)(caller \<mapsto> (saturating_add c cycles, now_ms)))\<rparr>"

section \<open>Cycles\<close>

text \<open>
  \<open>msg_cycles_accept128\<close>: what is moved from the call to the canister, of what is still available.
  The system documents that it takes the amount asked for, or all there is.
\<close>

type_synonym cycles_accept = "u128 \<Rightarrow> u128 \<Rightarrow> u128"

definition cycles_documented :: "cycles_accept \<Rightarrow> bool" where
  "cycles_documented acc \<longleftrightarrow> (\<forall>available amount. acc available amount = min available amount)"

text \<open>\<open>receive_cycles\<close> on the state and the cycles available in the call.\<close>

definition receive_cycles :: "cycles_accept \<Rightarrow> u128 \<Rightarrow> bool \<Rightarrow> canister_state \<times> u128
    \<Rightarrow> (canister_state \<times> u128, string) outcome" where
  "receive_cycles acc cycles ignore_insufficient sa =
     (if cycles = 0 then Ok sa
      else (let (s, available) = sa;
                received = acc available cycles;
                s = s\<lparr>incoming_cycles := saturating_add (incoming_cycles s) received\<rparr>
            in if cycles > received
               then (let s = s\<lparr>uncollectible_cycles := saturating_add (uncollectible_cycles s) (cycles - received)\<rparr>
                     in if \<not> ignore_insufficient then Panic ''insufficient cycles'' else Ok (s, available - received))
               else Ok (s, available - received)))"

section \<open>Saving and loading\<close>

text \<open>The stable memory holds the encoded state across an upgrade.\<close>

record state_codec =
  state_encode :: "canister_state \<Rightarrow> (bytes, string) outcome"
  state_decode :: "bytes \<Rightarrow> (canister_state, string) outcome"

definition state_to_bytes :: "state_codec \<Rightarrow> canister_state \<Rightarrow> (bytes, string) outcome" where
  "state_to_bytes C s = expect ''failed to encode State data'' (state_encode C s)"

definition state_from_bytes :: "state_codec \<Rightarrow> bytes \<Rightarrow> (canister_state, string) outcome" where
  "state_from_bytes C b = expect ''failed to decode State data'' (state_decode C b)"

definition or_insert :: "principal \<Rightarrow> (principal \<rightharpoonup> u128 \<times> u64) \<Rightarrow> (principal \<rightharpoonup> u128 \<times> u64)" where
  "or_insert p m = (case m p of None \<Rightarrow> m(p \<mapsto> (0, 0)) | Some v \<Rightarrow> m)"

definition load :: "canister_state \<Rightarrow> canister_state" where
  "load stored =
     (if allowed_callers stored \<noteq> []
      then stored\<lparr>callers := fold or_insert (allowed_callers stored) (callers stored), allowed_callers := []\<rparr>
      else stored)"

definition save :: "state_codec \<Rightarrow> canister_state \<Rightarrow> (bytes, string) outcome" where
  "save C s = state_to_bytes C s"

definition pre_upgrade :: "state_codec \<Rightarrow> canister_state \<Rightarrow> (bytes, string) outcome" where
  "pre_upgrade C s = save C s"

section \<open>Installation and upgrade\<close>

record init_args =
  ia_ecdsa_key_name :: string
  ia_proxy_token_refresh_interval :: u64
  ia_subnet_size :: u64
  ia_service_fee :: u64
  ia_cose :: "cose_client option"

record upgrade_args =
  ua_proxy_token_refresh_interval :: "u64 option"
  ua_subnet_size :: "u64 option"
  ua_service_fee :: "u64 option"
  ua_cose :: "cose_client option"

datatype chain_args = Init init_args | Upgrade upgrade_args

text \<open>The timers that are set: one at once, and one for every interval of so many seconds.\<close>

datatype timer = Once | Every u64

definition start_timers :: "canister_state \<Rightarrow> timer list" where
  "start_timers s = [Once, Every (proxy_token_refresh_interval s)]"

definition canister_init :: "chain_args option \<Rightarrow> canister_state \<Rightarrow> (canister_state \<times> timer list, string) outcome" where
  "canister_init args s =
     (case args of
        None \<Rightarrow> Panic ''init args is missing''
      | Some (Upgrade a) \<Rightarrow> Panic ''cannot initialize the canister with an Upgrade args. Please provide an Init args.''
      | Some (Init a) \<Rightarrow>
          (let s = s\<lparr>ecdsa_key_name := ia_ecdsa_key_name a, cs_subnet_size := ia_subnet_size a,
                 proxy_token_refresh_interval :=
                   (if 10 \<le> ia_proxy_token_refresh_interval a then ia_proxy_token_refresh_interval a else 3600),
                 cs_service_fee := (if 0 < ia_service_fee a then ia_service_fee a else 100000000),
                 cose := ia_cose a\<rparr>
           in Ok (s, start_timers s)))"

definition upgrade_state :: "upgrade_args \<Rightarrow> canister_state \<Rightarrow> (canister_state, string) outcome" where
  "upgrade_state a s =
     and_then (case ua_proxy_token_refresh_interval a of
         None \<Rightarrow> Ok s
       | Some i \<Rightarrow> if i < 10 then Panic ''proxy_token_refresh_interval must be at least 10 seconds''
                   else Ok (s\<lparr>proxy_token_refresh_interval := i\<rparr>)) (\<lambda>s.
       let s = (case ua_subnet_size a of None \<Rightarrow> s | Some n \<Rightarrow> s\<lparr>cs_subnet_size := n\<rparr>);
           s = (case ua_service_fee a of None \<Rightarrow> s | Some f \<Rightarrow> s\<lparr>cs_service_fee := f\<rparr>);
           s = (case ua_cose a of None \<Rightarrow> s | Some c \<Rightarrow> s\<lparr>cose := Some c\<rparr>)
       in Ok s)"

definition post_upgrade :: "state_codec \<Rightarrow> bytes \<Rightarrow> chain_args option \<Rightarrow> (canister_state \<times> timer list, string) outcome" where
  "post_upgrade C stored_bytes args =
     and_then (state_from_bytes C stored_bytes) (\<lambda>stored.
     and_then (case args of
         Some (Upgrade a) \<Rightarrow> upgrade_state a (load stored)
       | Some (Init a) \<Rightarrow> Panic ''cannot upgrade the canister with an Init args. Please provide an Upgrade args.''
       | None \<Rightarrow> Ok (load stored)) (\<lambda>s. Ok (s, start_timers s)))"

section \<open>Administration\<close>

definition is_controller_guard :: "(principal \<Rightarrow> bool) \<Rightarrow> principal \<Rightarrow> (unit, string) outcome" where
  "is_controller_guard controller caller =
     (if controller caller then Ok () else Err ''user is not a controller'')"

definition is_controller_or_manager :: "(principal \<Rightarrow> bool) \<Rightarrow> principal \<Rightarrow> canister_state \<Rightarrow> (unit, string) outcome" where
  "is_controller_or_manager controller caller s =
     (if controller caller \<or> is_manager caller s then Ok () else Err ''user is not a controller or manager'')"

text \<open>\<open>validate_principals\<close> is a library function: the parameter \<open>validate\<close>.\<close>

type_synonym validator = "principal list \<Rightarrow> (unit, string) outcome"

definition admin_add_managers :: "validator \<Rightarrow> principal list \<Rightarrow> canister_state \<Rightarrow> (canister_state, string) outcome" where
  "admin_add_managers validate args s =
     and_then (validate args) (\<lambda>_. Ok (s\<lparr>managers := managers s \<union> set args\<rparr>))"

definition admin_remove_managers :: "validator \<Rightarrow> principal list \<Rightarrow> canister_state \<Rightarrow> (canister_state, string) outcome" where
  "admin_remove_managers validate args s =
     and_then (validate args) (\<lambda>_. Ok (s\<lparr>managers := {p \<in> managers s. p \<notin> set args}\<rparr>))"

definition admin_add_caller :: "principal \<Rightarrow> canister_state \<Rightarrow> (bool \<times> canister_state, string) outcome" where
  "admin_add_caller i s =
     (if i = ANONYMOUS then Err ''anonymous caller cannot be added''
      else Ok (callers s i = None, s\<lparr>callers := or_insert i (callers s)\<rparr>))"

definition admin_add_callers :: "validator \<Rightarrow> principal list \<Rightarrow> canister_state \<Rightarrow> (canister_state, string) outcome" where
  "admin_add_callers validate args s =
     and_then (validate args) (\<lambda>_. Ok (s\<lparr>callers := fold or_insert args (callers s)\<rparr>))"

definition admin_remove_callers :: "validator \<Rightarrow> principal list \<Rightarrow> canister_state \<Rightarrow> (canister_state, string) outcome" where
  "admin_remove_callers validate args s =
     and_then (validate args) (\<lambda>_. Ok (s\<lparr>callers := fold (\<lambda>p m. m(p := None)) args (callers s)\<rparr>))"

text \<open>The checks alone, for proposals: each operation has two, which differ in what they return.\<close>

definition validate_admin_add_managers :: "validator \<Rightarrow> principal list \<Rightarrow> (unit, string) outcome" where
  "validate_admin_add_managers validate args = and_then (validate args) (\<lambda>_. Ok ())"

definition validate2_admin_add_managers :: "validator \<Rightarrow> principal list \<Rightarrow> (string, string) outcome" where
  "validate2_admin_add_managers validate args = and_then (validate args) (\<lambda>_. Ok ''ok'')"

definition validate_admin_remove_managers :: "validator \<Rightarrow> principal list \<Rightarrow> (unit, string) outcome" where
  "validate_admin_remove_managers validate args = and_then (validate args) (\<lambda>_. Ok ())"

definition validate2_admin_remove_managers :: "validator \<Rightarrow> principal list \<Rightarrow> (string, string) outcome" where
  "validate2_admin_remove_managers validate args = and_then (validate args) (\<lambda>_. Ok ''ok'')"

definition validate2_admin_set_agents :: "agent list \<Rightarrow> (string, string) outcome" where
  "validate2_admin_set_agents as = (if as = [] then Err ''agents cannot be empty'' else Ok ''ok'')"

definition validate_admin_set_agents :: "agent list \<Rightarrow> (unit, string) outcome" where
  "validate_admin_set_agents as = (if as = [] then Err ''agents cannot be empty'' else Ok ())"

text \<open>A guarded update method: the guard first, and on any failure the state as it was.\<close>

definition run_message :: "(unit, string) outcome \<Rightarrow> (canister_state \<Rightarrow> (canister_state, string) outcome)
    \<Rightarrow> canister_state \<Rightarrow> (unit, string) outcome \<times> canister_state" where
  "run_message guard body s =
     (case and_then guard (\<lambda>_. body s) of
        Ok s' \<Rightarrow> (Ok (), s')
      | Err e \<Rightarrow> (Err e, s)
      | Panic m \<Rightarrow> (Panic m, s))"

section \<open>Queries\<close>

record state_info =
  si_ecdsa_key_name :: string
  si_proxy_token_public_key :: string
  si_proxy_token_refresh_interval :: u64
  si_agents :: "agent list"
  si_managers :: "principal set"
  si_callers :: nat
  si_subnet_size :: u64
  si_service_fee :: u64
  si_incoming_cycles :: u128
  si_uncollectible_cycles :: u128
  si_cose :: "cose_client option"

definition state_info :: "canister_state \<Rightarrow> state_info" where
  "state_info s = \<lparr>si_ecdsa_key_name = ecdsa_key_name s, si_proxy_token_public_key = proxy_token_public_key s,
     si_proxy_token_refresh_interval = proxy_token_refresh_interval s,
     si_agents = map (\<lambda>a. a\<lparr>ag_proxy_token := None\<rparr>) (cs_agents s), si_managers = managers s,
     si_callers = card (dom (callers s)), si_subnet_size = cs_subnet_size s, si_service_fee = cs_service_fee s,
     si_incoming_cycles = incoming_cycles s, si_uncollectible_cycles = uncollectible_cycles s, si_cose = cose s\<rparr>"

definition caller_info :: "principal \<Rightarrow> canister_state \<Rightarrow> (u128 \<times> u64) option" where
  "caller_info i s = callers s i"

section \<open>What is relied on, and soundness\<close>

definition state_codec_documented :: "state_codec \<Rightarrow> bool" where
  "state_codec_documented C \<longleftrightarrow> (\<forall>s b. state_encode C s = Ok b \<longrightarrow> state_decode C b = Ok s)"

text \<open>The library rejects a set that contains the anonymous principal.\<close>

definition validator_documented :: "validator \<Rightarrow> bool" where
  "validator_documented v \<longleftrightarrow> (\<forall>ps. v ps = Ok () \<longrightarrow> ANONYMOUS \<notin> set ps)"

definition canister_ok :: "canister_state \<Rightarrow> bool" where
  "canister_ok s \<longleftrightarrow> 10 \<le> proxy_token_refresh_interval s \<and> ANONYMOUS \<notin> managers s \<and>
     callers s ANONYMOUS = None \<and> ANONYMOUS \<notin> set (allowed_callers s)"

section \<open>Lemmas\<close>

lemma or_insert_apply: "or_insert p m q = (if q = p \<and> m p = None then Some (0, 0) else m q)"
  by (simp add: or_insert_def split: option.splits)

lemma fold_or_insert: "fold or_insert ps m q = (case m q of None \<Rightarrow> if q \<in> set ps then Some (0, 0) else None | Some v \<Rightarrow> Some v)"
  by (induction ps arbitrary: m) (auto simp: or_insert_apply split: option.splits if_splits)

lemma fold_remove: "fold (\<lambda>p m. m(p := None)) ps m q = (if q \<in> set ps then None else m q)"
  by (induction ps arbitrary: m) auto

lemma load_callers:
  "callers (load s) p = (case callers s p of None \<Rightarrow> if p \<in> set (allowed_callers s) then Some (0, 0) else None | Some v \<Rightarrow> Some v)"
  by (auto simp: load_def fold_or_insert split: option.splits)

lemma load_frame:
  "load s = s\<lparr>callers := callers (load s), allowed_callers := []\<rparr>"
  by (simp add: load_def)

lemma saturating_add_exact: "unat a + unat b < 2 ^ LENGTH('l) \<Longrightarrow> unat (saturating_add a b :: 'l::len word) = unat a + unat b"
  by (simp add: unat_saturating_add)

lemma upgrade_state_Ok:
  assumes "upgrade_state a s = Ok s'"
  shows "managers s' = managers s" "callers s' = callers s" "allowed_callers s' = allowed_callers s"
    "10 \<le> proxy_token_refresh_interval s \<Longrightarrow> 10 \<le> proxy_token_refresh_interval s'"
  using assms by (auto simp: upgrade_state_def Let_def split: option.splits if_splits)

lemma canister_ok_load: "canister_ok s \<Longrightarrow> canister_ok (load s)"
  by (cases "allowed_callers s = []") (simp_all add: canister_ok_def load_def fold_or_insert)

lemma post_upgrade_Ok:
  assumes "post_upgrade C b args = Ok (s', timers)"
  shows "\<exists>st. state_from_bytes C b = Ok st \<and> (s' = load st \<or> (\<exists>a. upgrade_state a (load st) = Ok s'))"
proof (cases "state_from_bytes C b")
  case (Ok st)
  show ?thesis
  proof (cases args)
    case None
    with assms Ok show ?thesis by (simp add: post_upgrade_def)
  next
    case (Some x)
    with assms Ok show ?thesis
      by (cases x) (auto simp: post_upgrade_def)
  qed
qed (use assms in \<open>simp_all add: post_upgrade_def\<close>)

lemma canister_ok_upgrade:
  assumes "state_codec_documented C" and "pre_upgrade C s = Ok b" and "post_upgrade C b args = Ok (s', timers)"
    and "canister_ok s"
  shows "canister_ok s'"
proof -
  from assms(1,2) have "state_decode C b = Ok s"
    by (auto simp: pre_upgrade_def save_def state_to_bytes_def state_codec_documented_def)
  then have "state_from_bytes C b = Ok s" by (simp add: state_from_bytes_def)
  with assms(3) post_upgrade_Ok have "s' = load s \<or> (\<exists>a. upgrade_state a (load s) = Ok s')" by fastforce
  moreover have "canister_ok (load s)" using assms(4) by (rule canister_ok_load)
  ultimately show ?thesis
    using upgrade_state_Ok [of _ "load s" s'] by (auto simp: canister_ok_def)
qed

lemma run_message_state:
  "run_message g body s = (r, s') \<Longrightarrow> s' = s \<or> g = Ok () \<and> body s = Ok s'"
  by (cases g) (auto simp: run_message_def split: outcome.splits)

lemma receive_cycles_frame:
  assumes "receive_cycles acc n ign (s, av) = Ok (s', av')"
  shows "managers s' = managers s" "callers s' = callers s" "allowed_callers s' = allowed_callers s"
    "proxy_token_refresh_interval s' = proxy_token_refresh_interval s" "cs_agents s' = cs_agents s"
    "cs_subnet_size s' = cs_subnet_size s" "cs_service_fee s' = cs_service_fee s"
  using assms by (auto simp: receive_cycles_def Let_def split: if_splits)

lemma receive_cycles_exact:
  assumes "cycles_documented acc" and "receive_cycles acc n ign (s, av) = Ok (s', av')"
    and "unat (incoming_cycles s) + unat av < 2 ^ 128"
  shows "unat (incoming_cycles s') + unat av' = unat (incoming_cycles s) + unat av"
    and "unat av' = unat av - min (unat av) (unat n)"
    and "\<not> ign \<Longrightarrow> n \<le> av"
proof -
  have acc: "acc av n = min av n" using assms(1) by (simp add: cycles_documented_def)
  have le: "min av n \<le> av" by simp
  have m: "unat (min av n) = min (unat av) (unat n)" by (auto simp: min_def word_le_nat_alt)
  have sub: "unat (av - min av n) = unat av - unat (min av n)" using le by (simp add: unat_sub)
  have inc: "unat (saturating_add (incoming_cycles s) (min av n)) = unat (incoming_cycles s) + unat (min av n)"
    using assms(3) le by (intro saturating_add_exact) (simp add: word_le_nat_alt)
  from assms(2) show "unat (incoming_cycles s') + unat av' = unat (incoming_cycles s) + unat av"
    using le by (auto simp: receive_cycles_def Let_def acc inc sub word_le_nat_alt split: if_splits)
  from assms(2) show "unat av' = unat av - min (unat av) (unat n)"
    by (auto simp: receive_cycles_def Let_def acc sub m split: if_splits)
  from assms(2) show "\<not> ign \<Longrightarrow> n \<le> av"
    by (auto simp: receive_cycles_def Let_def acc not_less split: if_splits)
qed

lemma upgrade_state_frame:
  assumes "upgrade_state a s = Ok s'"
  shows "cs_agents s' = cs_agents s" "ecdsa_key_name s' = ecdsa_key_name s"
    "proxy_token_public_key s' = proxy_token_public_key s" "incoming_cycles s' = incoming_cycles s"
    "uncollectible_cycles s' = uncollectible_cycles s"
  using assms by (auto simp: upgrade_state_def Let_def split: option.splits if_splits)

lemmas upgrade_state_keeps = upgrade_state_Ok upgrade_state_frame

lemma load_keeps:
  "managers (load s) = managers s" "cs_agents (load s) = cs_agents s" "allowed_callers (load s) = []"
  "proxy_token_public_key (load s) = proxy_token_public_key s" "incoming_cycles (load s) = incoming_cycles s"
  "uncollectible_cycles (load s) = uncollectible_cycles s" "ecdsa_key_name (load s) = ecdsa_key_name s"
  by (simp_all add: load_def)

text \<open>What an upgrade leaves: every field that its arguments do not name.\<close>

definition survives_upgrade :: "canister_state \<Rightarrow> canister_state \<Rightarrow> bool" where
  "survives_upgrade s s' \<longleftrightarrow> managers s' = managers s \<and> cs_agents s' = cs_agents s \<and>
     ecdsa_key_name s' = ecdsa_key_name s \<and> proxy_token_public_key s' = proxy_token_public_key s \<and>
     incoming_cycles s' = incoming_cycles s \<and> uncollectible_cycles s' = uncollectible_cycles s \<and>
     allowed_callers s' = [] \<and>
     (\<forall>p. callers s' p = (case callers s p of
        None \<Rightarrow> if p \<in> set (allowed_callers s) then Some (0, 0) else None
      | Some account \<Rightarrow> Some account))"

lemma survives_load: "survives_upgrade s (load s)"
  by (simp add: survives_upgrade_def load_keeps load_callers)

lemma survives_upgrade_state: "survives_upgrade s t \<Longrightarrow> upgrade_state a t = Ok s' \<Longrightarrow> survives_upgrade s s'"
  using upgrade_state_keeps [of a t s'] by (simp add: survives_upgrade_def)

section \<open>A sample canister\<close>

definition sample_init :: init_args where
  "sample_init = \<lparr>ia_ecdsa_key_name = ''key_1'', ia_proxy_token_refresh_interval = 5, ia_subnet_size = 13,
     ia_service_fee = 0, ia_cose = None\<rparr>"

definition sample_state :: canister_state where
  "sample_state = state_default\<lparr>ecdsa_key_name := ''key_1'', cs_subnet_size := 13,
     proxy_token_refresh_interval := 3600, cs_service_fee := 100000000\<rparr>"

text \<open>The state of an older release, with a deprecated list of callers beside the accounts.\<close>

definition sample_old :: canister_state where
  "sample_old = sample_state\<lparr>managers := {''m''}, allowed_callers := [''a'', ''b''], callers := [''a'' \<mapsto> (7, 8)]\<rparr>"

definition sample_state_codec :: state_codec where
  "sample_state_codec = \<lparr>
     state_encode = (\<lambda>s. if s = sample_state then Ok ''new'' else if s = sample_old then Ok ''old'' else Err ''io''),
     state_decode = (\<lambda>b. if b = ''new'' then Ok sample_state else if b = ''old'' then Ok sample_old else Err ''parse'')\<rparr>"

definition sample_upgrade :: upgrade_args where
  "sample_upgrade = \<lparr>ua_proxy_token_refresh_interval = Some 60, ua_subnet_size = None, ua_service_fee = None,
     ua_cose = None\<rparr>"

definition sample_validator :: validator where
  "sample_validator ps = (if ps = [] \<or> ANONYMOUS \<in> set ps then Err ''invalid principals'' else Ok ())"

lemma sample_states_differ: "sample_old \<noteq> sample_state"
  by (simp add: sample_old_def sample_state_def state_default_def)

lemma sample_state_codec_documented: "state_codec_documented sample_state_codec"
  using sample_states_differ by (auto simp: state_codec_documented_def sample_state_codec_def)

lemma sample_validator_documented: "validator_documented sample_validator"
  by (auto simp: validator_documented_def sample_validator_def split: if_splits)

lemma sample_pre_upgrade: "pre_upgrade sample_state_codec sample_old = Ok ''old''"
  "pre_upgrade sample_state_codec sample_state = Ok ''new''"
  using sample_states_differ by (simp_all add: pre_upgrade_def save_def state_to_bytes_def sample_state_codec_def)

lemma sample_init_state: "canister_init (Some (Init sample_init)) state_default = Ok (sample_state, start_timers sample_state)"
  by (simp add: canister_init_def sample_init_def sample_state_def state_default_def Let_def)

lemma sample_post_upgrade:
  "post_upgrade sample_state_codec ''old'' (Some (Upgrade sample_upgrade)) =
     Ok ((load sample_old)\<lparr>proxy_token_refresh_interval := 60\<rparr>, [Once, Every 60])"
  by (simp add: post_upgrade_def state_from_bytes_def sample_state_codec_def upgrade_state_def sample_upgrade_def
      start_timers_def Let_def)

section \<open>Properties\<close>

text \<open>
  C39: An upgrade keeps the canister's data. Managers, agents with their tokens, keys and the accounting
  of cycles are as before; every caller keeps its account, every principal of the deprecated list of
  callers has become a caller with an empty account, nobody else has, and the deprecated list is empty.
\<close>
theorem upgrade_keeps_the_data:
  assumes "state_codec_documented C" and "pre_upgrade C s = Ok b" and "post_upgrade C b args = Ok (s', timers)"
  shows "survives_upgrade s s'"
proof -
  from assms(1,2) have "state_from_bytes C b = Ok s"
    by (auto simp: pre_upgrade_def save_def state_to_bytes_def state_codec_documented_def state_from_bytes_def)
  with post_upgrade_Ok [OF assms(3)] have "s' = load s \<or> (\<exists>a. upgrade_state a (load s) = Ok s')" by simp
  with survives_load survives_upgrade_state show ?thesis by blast
qed

lemma upgrade_keeps_the_data_witness:
  "survives_upgrade sample_old ((load sample_old)\<lparr>proxy_token_refresh_interval := 60\<rparr>)"
  using upgrade_keeps_the_data [OF sample_state_codec_documented sample_pre_upgrade(1) sample_post_upgrade] .

text \<open>
  The cycles of a call are accounted for exactly. What the canister adds to its incoming cycles is
  what the call loses, and that is the amount asked for, or all there is when insufficient cycles are to
  be ignored; when they are not, a call that returns has paid the full amount.
\<close>
theorem received_cycles_are_exact:
  assumes "cycles_documented acc" and "receive_cycles acc n ign (s, av) = Ok (s', av')"
    and "unat (incoming_cycles s) + unat av < 2 ^ 128"
  shows "unat (incoming_cycles s') + unat av' = unat (incoming_cycles s) + unat av \<and>
    unat av' = unat av - min (unat av) (unat n) \<and> (\<not> ign \<longrightarrow> n \<le> av)"
  using receive_cycles_exact [OF assms] by simp

lemma received_cycles_are_exact_witness:
  "receive_cycles min 30 False (sample_state, 100) = Ok (sample_state\<lparr>incoming_cycles := 30\<rparr>, 70) \<and>
   (30::u128) \<le> 100"
proof -
  have run: "receive_cycles min 30 False (sample_state, 100) = Ok (sample_state\<lparr>incoming_cycles := 30\<rparr>, 70)"
    by (simp add: receive_cycles_def Let_def saturating_add_def no_overflow_def sample_state_def state_default_def)
  have "cycles_documented min" by (simp add: cycles_documented_def)
  from received_cycles_are_exact [OF this run] run show ?thesis
    by (simp add: sample_state_def state_default_def)
qed

text \<open>
  Cycles that cannot be collected are counted only when the shortfall is ignored. On the other
  branch the code counts them and then traps, and the trap takes the count back with everything else:
  no returning call with that flag unset has changed \<open>uncollectible_cycles\<close>.
\<close>
theorem uncollectible_cycles_are_lost_on_trap:
  shows "(receive_cycles acc n False (s, av) = Ok (s', av') \<longrightarrow> uncollectible_cycles s' = uncollectible_cycles s) \<and>
    (acc av n < n \<longrightarrow> receive_cycles acc n False (s, av) = Panic ''insufficient cycles'' \<and>
       (\<exists>t bv. receive_cycles acc n True (s, av) = Ok (t, bv) \<and>
          uncollectible_cycles t = saturating_add (uncollectible_cycles s) (n - acc av n)))"
  by (auto simp: receive_cycles_def Let_def split: if_splits)

lemma uncollectible_cycles_are_lost_on_trap_witness:
  "receive_cycles min 30 False (sample_state, 10) = Panic ''insufficient cycles''"
  using uncollectible_cycles_are_lost_on_trap [of min 30 sample_state 10] by simp

end
