(* ===== verification/Canister_Tokens.thy ===== *)
theory Canister_Tokens
  imports Canister_State Auth
begin

text \<open>
  The tokens the canister presents to its proxies: \<open>Signer\<close> of \<open>store.rs\<close>, \<open>ecdsa.rs\<close>, \<open>cose.rs\<close>,
  \<open>tasks.rs\<close> and \<open>admin_set_agents\<close> of \<open>api_admin.rs\<close> (all of \<open>src/idempotent-proxy-canister/src\<close>).
  The system's signing service and the COSE canister are parameters, and so are the encodings.
  A call of them is an await: other messages may change the state until it returns, so these
  operations take what they read before it and give what they write after it.
\<close>

section \<open>Calls\<close>

datatype ecdsa_curve = Secp256k1

record ecdsa_key_id =
  ek_curve :: ecdsa_curve
  ek_name :: string

record sign_with_ecdsa_argument =
  sw_message_hash :: bytes
  sw_derivation_path :: "bytes list"
  sw_key_id :: ecdsa_key_id

record ecdsa_public_key_argument =
  pk_canister_id :: "principal option"
  pk_derivation_path :: "bytes list"
  pk_key_id :: ecdsa_key_id

record public_key_input =
  pi_ns :: string
  pi_derivation_path :: "bytes list"

record sign_input =
  in_ns :: string
  in_derivation_path :: "bytes list"
  in_message :: bytes

text \<open>
  What the other canisters reply: a rejection of the system's own is a text (its debug format), one of
  \<open>call_with_payment128\<close> a code and a message; the COSE canister's reply is itself a result.
\<close>

record signing_net =
  sn_sign_with_ecdsa :: "sign_with_ecdsa_argument \<Rightarrow> (bytes, string) outcome"
  sn_ecdsa_public_key :: "ecdsa_public_key_argument \<Rightarrow> (bytes, string) outcome"
  sn_call_public_key :: "principal \<Rightarrow> string \<Rightarrow> public_key_input option \<Rightarrow> u128
    \<Rightarrow> ((bytes, string) outcome, nat \<times> string) outcome"
  sn_call_sign :: "principal \<Rightarrow> string \<Rightarrow> sign_input \<Rightarrow> u128 \<Rightarrow> ((bytes, string) outcome, nat \<times> string) outcome"

text \<open>The canister's libraries: CBOR, the hash and \<open>format_error\<close> of \<open>ic_cose_types\<close>, base64, and texts of principals.\<close>

record token_tools =
  tt_tokens :: token_lib
  tt_sha3 :: "bytes \<Rightarrow> bytes"
  tt_format_error :: "string \<Rightarrow> string"
  tt_base64 :: "bytes \<Rightarrow> string"
  tt_principal :: "principal \<Rightarrow> string"

definition digit_char :: "nat \<Rightarrow> char" where
  "digit_char d = char_of (48 + d)"

fun show_decimal :: "nat \<Rightarrow> string" where
  "show_decimal n = (if n < 10 then [digit_char n] else show_decimal (n div 10) @ [digit_char (n mod 10)])"

declare show_decimal.simps [simp del]

definition sign_with :: "signing_net \<Rightarrow> string \<Rightarrow> bytes list \<Rightarrow> bytes \<Rightarrow> (bytes, string) outcome" where
  "sign_with net key_name path message_hash =
     map_err (\<lambda>err. ''sign_with_ecdsa failed '' @ err)
       (sn_sign_with_ecdsa net \<lparr>sw_message_hash = message_hash, sw_derivation_path = path,
          sw_key_id = \<lparr>ek_curve = Secp256k1, ek_name = key_name\<rparr>\<rparr>)"

definition public_key_with :: "signing_net \<Rightarrow> string \<Rightarrow> bytes list \<Rightarrow> (bytes, string) outcome" where
  "public_key_with net key_name path =
     map_err (\<lambda>err. ''ecdsa_public_key failed '' @ err)
       (sn_ecdsa_public_key net \<lparr>pk_canister_id = None, pk_derivation_path = path,
          pk_key_id = \<lparr>ek_curve = Secp256k1, ek_name = key_name\<rparr>\<rparr>)"

definition cose_call :: "token_tools \<Rightarrow> (principal \<Rightarrow> string \<Rightarrow> 'a \<Rightarrow> u128 \<Rightarrow> ('o, nat \<times> string) outcome)
    \<Rightarrow> principal \<Rightarrow> string \<Rightarrow> 'a \<Rightarrow> u128 \<Rightarrow> ('o, string) outcome" where
  "cose_call T call_with_payment cid meth args cycles =
     map_err (\<lambda>(code, msg). ''failed to call '' @ meth @ '' on '' @ tt_principal T cid @ '', code: ''
         @ show_decimal code @ '', message: '' @ msg)
       (call_with_payment cid meth args cycles)"

definition cose_ecdsa_public_key :: "token_tools \<Rightarrow> signing_net \<Rightarrow> cose_client \<Rightarrow> bytes list \<Rightarrow> (bytes, string) outcome" where
  "cose_ecdsa_public_key T net c path =
     and_then (cose_call T (sn_call_public_key net) (cc_id c) ''ecdsa_public_key''
       (Some \<lparr>pi_ns = cc_namespace c, pi_derivation_path = path\<rparr>) 0) (\<lambda>output. output)"

definition cose_ecdsa_sign :: "token_tools \<Rightarrow> signing_net \<Rightarrow> cose_client \<Rightarrow> bytes list \<Rightarrow> bytes \<Rightarrow> (bytes, string) outcome" where
  "cose_ecdsa_sign T net c path message =
     and_then (cose_call T (sn_call_sign net) (cc_id c) ''ecdsa_sign''
       \<lparr>in_ns = cc_namespace c, in_derivation_path = path, in_message = message\<rparr> 0) (\<lambda>output. output)"

section \<open>The signer\<close>

definition SIGN_PROXY_TOKEN_PATH :: bytes where
  "SIGN_PROXY_TOKEN_PATH = ''sign_proxy_token''"

definition ecdsa_public_key :: "token_tools \<Rightarrow> signing_net \<Rightarrow> signer \<Rightarrow> (string, string) outcome" where
  "ecdsa_public_key T net sg =
     map_ok (tt_base64 T)
       (case sg_cose sg of
          Some c \<Rightarrow> cose_ecdsa_public_key T net c [SIGN_PROXY_TOKEN_PATH]
        | None \<Rightarrow> public_key_with net (sg_key_name sg) [SIGN_PROXY_TOKEN_PATH])"

definition sign_digest :: "token_tools \<Rightarrow> signing_net \<Rightarrow> signer \<Rightarrow> bytes \<Rightarrow> (bytes, string) outcome" where
  "sign_digest T net sg digest =
     (case sg_cose sg of
        Some c \<Rightarrow> cose_ecdsa_sign T net c [SIGN_PROXY_TOKEN_PATH] digest
      | None \<Rightarrow> sign_with net (sg_key_name sg) [SIGN_PROXY_TOKEN_PATH] digest)"

definition sign_proxy_token :: "token_tools \<Rightarrow> signing_net \<Rightarrow> signer \<Rightarrow> u64 \<Rightarrow> string \<Rightarrow> (string, string) outcome" where
  "sign_proxy_token T net sg expire_at message =
     and_then (expect ''failed to encode Token in CBOR format'' (cbor_pair (tt_tokens T) (expire_at, message))) (\<lambda>buf.
     and_then (sign_digest T net sg (tt_sha3 T buf)) (\<lambda>sig.
     and_then (map_err (tt_format_error T) (cbor_token (tt_tokens T) (expire_at, message, sig))) (\<lambda>buf.
       Ok (tt_base64 T buf))))"

section \<open>Refreshing the tokens\<close>

definition SECONDS :: u64 where
  "SECONDS = 1000000000"

text \<open>
  The loop over the agents, with the tokens made so far by name: \<open>now i\<close> is the time and \<open>net i\<close> what
  the signing service replies when the \<open>i\<close>-th agent is at its turn.
\<close>

fun update_loop :: "token_tools \<Rightarrow> (nat \<Rightarrow> u64) \<Rightarrow> (nat \<Rightarrow> signing_net) \<Rightarrow> signer \<Rightarrow> u64
    \<Rightarrow> nat \<Rightarrow> (string \<rightharpoonup> string) \<Rightarrow> agent list \<Rightarrow> (agent list, string) outcome" where
  "update_loop T now net sg interval i tokens [] = Ok []"
| "update_loop T now net sg interval i tokens (agent # rest) =
     (case tokens (ag_name agent) of
        Some token \<Rightarrow>
          map_ok (\<lambda>done. agent\<lparr>ag_proxy_token := Some token\<rparr> # done)
            (update_loop T now net sg interval (Suc i) tokens rest)
      | None \<Rightarrow>
          and_then (expect ''failed to sign proxy token''
            (sign_proxy_token T (net i) sg (now i div SECONDS + interval + 120) (ag_name agent))) (\<lambda>token.
            map_ok (\<lambda>done. agent\<lparr>ag_proxy_token := Some token\<rparr> # done)
              (update_loop T now net sg interval (Suc i) (tokens(ag_name agent \<mapsto> token)) rest)))"

text \<open>The agents that are written to the state at the end, if any.\<close>

definition update_proxy_token :: "token_tools \<Rightarrow> (nat \<Rightarrow> u64) \<Rightarrow> (nat \<Rightarrow> signing_net) \<Rightarrow> signer \<Rightarrow> u64
    \<Rightarrow> agent list \<Rightarrow> (agent list option, string) outcome" where
  "update_proxy_token T now net sg interval as =
     (if as = [] then Ok None
      else map_ok Some (update_loop T now net sg interval 0 Map.empty as))"

definition write_agents :: "agent list option \<Rightarrow> canister_state \<Rightarrow> canister_state" where
  "write_agents w s = (case w of None \<Rightarrow> s | Some as \<Rightarrow> s\<lparr>cs_agents := as\<rparr>)"

definition refresh_proxy_token :: "token_tools \<Rightarrow> (nat \<Rightarrow> u64) \<Rightarrow> (nat \<Rightarrow> signing_net) \<Rightarrow> canister_state
    \<Rightarrow> (agent list option, string) outcome" where
  "refresh_proxy_token T now net s =
     update_proxy_token T now net (signer s) (proxy_token_refresh_interval s) (cs_agents s)"

definition admin_set_agents :: "(principal \<Rightarrow> bool) \<Rightarrow> token_tools \<Rightarrow> (nat \<Rightarrow> u64) \<Rightarrow> (nat \<Rightarrow> signing_net)
    \<Rightarrow> principal \<Rightarrow> agent list \<Rightarrow> canister_state \<Rightarrow> (agent list option, string) outcome" where
  "admin_set_agents controller T now net caller as s =
     and_then (is_controller_or_manager controller caller s) (\<lambda>_.
     and_then (validate_admin_set_agents as) (\<lambda>_.
       update_proxy_token T now net (signer s) (proxy_token_refresh_interval s) as))"

text \<open>The public key that is written to the state, if any: a failure is only printed.\<close>

definition init_ecdsa_public_key :: "token_tools \<Rightarrow> signing_net \<Rightarrow> canister_state \<Rightarrow> (string option, string) outcome" where
  "init_ecdsa_public_key T net s =
     (case ecdsa_public_key T net (signer s) of
        Ok key \<Rightarrow> Ok (Some key)
      | Err err \<Rightarrow> Ok None
      | Panic m \<Rightarrow> Panic m)"

definition write_public_key :: "string option \<Rightarrow> canister_state \<Rightarrow> canister_state" where
  "write_public_key w s = (case w of None \<Rightarrow> s | Some key \<Rightarrow> s\<lparr>proxy_token_public_key := key\<rparr>)"

section \<open>Lemmas\<close>

text \<open>An agent without its token: what is configured of it.\<close>

definition settings :: "agent \<Rightarrow> agent" where
  "settings a = a\<lparr>ag_proxy_token := None\<rparr>"

lemma settings_token [simp]: "settings (a\<lparr>ag_proxy_token := t\<rparr>) = settings a"
  by (simp add: settings_def)

lemma update_loop_settings:
  "update_loop T now net sg interval i tokens as = Ok bs \<Longrightarrow> map settings bs = map settings as"
  by (induction as arbitrary: i tokens bs) (auto split: option.splits)

lemma update_loop_signed:
  "update_loop T now net sg interval i tokens as = Ok bs \<Longrightarrow> b \<in> set bs \<Longrightarrow>
     \<exists>t. ag_proxy_token b = Some t \<and> (tokens (ag_name b) = Some t \<or>
       (\<exists>j\<ge>i. j < i + length as \<and>
          sign_proxy_token T (net j) sg (now j div SECONDS + interval + 120) (ag_name b) = Ok t))"
proof (induction as arbitrary: i tokens bs)
  case (Cons a as)
  show ?case
  proof (cases "tokens (ag_name a)")
    case None
    with Cons.prems obtain t bs' where
      t: "sign_proxy_token T (net i) sg (now i div SECONDS + interval + 120) (ag_name a) = Ok t" and
      bs: "bs = a\<lparr>ag_proxy_token := Some t\<rparr> # bs'" and
      run: "update_loop T now net sg interval (Suc i) (tokens(ag_name a \<mapsto> t)) as = Ok bs'" by auto
    show ?thesis
    proof (cases "b \<in> set bs'")
      case True
      from Cons.IH [OF run True] t show ?thesis
        by (auto split: if_splits)
    next
      case False
      with Cons.prems bs t show ?thesis by auto
    qed
  next
    case (Some t)
    with Cons.prems obtain bs' where
      bs: "bs = a\<lparr>ag_proxy_token := Some t\<rparr> # bs'" and
      run: "update_loop T now net sg interval (Suc i) tokens as = Ok bs'" by auto
    show ?thesis
    proof (cases "b \<in> set bs'")
      case True
      from Cons.IH [OF run True] show ?thesis by (auto dest: Suc_leD)
    next
      case False
      with Cons.prems bs Some show ?thesis by auto
    qed
  qed
qed simp

lemma update_loop_shared:
  "update_loop T now net sg interval i tokens as = Ok bs \<Longrightarrow> b \<in> set bs \<Longrightarrow>
     tokens (ag_name b) = Some t \<Longrightarrow> ag_proxy_token b = Some t"
proof (induction as arbitrary: i tokens bs)
  case (Cons a as)
  show ?case
  proof (cases "tokens (ag_name a)")
    case None
    with Cons.prems obtain x bs' where bs: "bs = a\<lparr>ag_proxy_token := Some x\<rparr> # bs'" and
      run: "update_loop T now net sg interval (Suc i) (tokens(ag_name a \<mapsto> x)) as = Ok bs'" by auto
    have "ag_name b \<noteq> ag_name a" using None Cons.prems(3) by auto
    with bs Cons.prems Cons.IH [OF run] show ?thesis by auto
  next
    case (Some x)
    with Cons.prems obtain bs' where bs: "bs = a\<lparr>ag_proxy_token := Some x\<rparr> # bs'" and
      run: "update_loop T now net sg interval (Suc i) tokens as = Ok bs'" by auto
    with Some Cons.prems Cons.IH [OF run] show ?thesis by auto
  qed
qed simp

lemma update_loop_same_name:
  "update_loop T now net sg interval i tokens as = Ok bs \<Longrightarrow> b \<in> set bs \<Longrightarrow> b' \<in> set bs \<Longrightarrow>
     ag_name b' = ag_name b \<Longrightarrow> ag_proxy_token b' = ag_proxy_token b"
proof (induction as arbitrary: i tokens bs)
  case (Cons a as)
  show ?case
  proof (cases "tokens (ag_name a)")
    case None
    with Cons.prems obtain t bs' where
      bs: "bs = a\<lparr>ag_proxy_token := Some t\<rparr> # bs'" and
      run: "update_loop T now net sg interval (Suc i) (tokens(ag_name a \<mapsto> t)) as = Ok bs'" by auto
    have "ag_proxy_token c = Some t" if "c \<in> set bs'" "ag_name c = ag_name a" for c
      using update_loop_shared [OF run that(1)] that(2) by simp
    with Cons.IH [OF run] Cons.prems(2,3,4) bs show ?thesis by auto
  next
    case (Some t)
    with Cons.prems obtain bs' where
      bs: "bs = a\<lparr>ag_proxy_token := Some t\<rparr> # bs'" and
      run: "update_loop T now net sg interval (Suc i) tokens as = Ok bs'" by auto
    have "ag_proxy_token c = Some t" if "c \<in> set bs'" "ag_name c = ag_name a" for c
      using update_loop_shared [OF run that(1)] that(2) Some by simp
    with Cons.IH [OF run] Cons.prems(2,3,4) bs show ?thesis by auto
  qed
qed simp

section \<open>What is relied on\<close>

text \<open>
  \<open>good\<close>: a signature of the digest that verifies under the key \<open>vk\<close>. The service signs with the secret
  key of the key's name and the path, whose public key is \<open>vk\<close>; the COSE canister does for its namespace.
\<close>

definition verifies :: "('sk, 'vk, 'sig) sign_lib \<Rightarrow> 'vk \<Rightarrow> bytes \<Rightarrow> bytes \<Rightarrow> bool" where
  "verifies E vk digest s \<longleftrightarrow> (\<exists>sig. sig_parse E s = Some sig \<and> sig_verify E vk digest sig)"

definition service_documented :: "('sk, 'vk, 'sig) sign_lib \<Rightarrow> 'vk \<Rightarrow> signer \<Rightarrow> signing_net \<Rightarrow> bool" where
  "service_documented E vk sg net \<longleftrightarrow>
     (case sg_cose sg of
        None \<Rightarrow> \<forall>d s. sn_sign_with_ecdsa net \<lparr>sw_message_hash = d, sw_derivation_path = [SIGN_PROXY_TOKEN_PATH],
            sw_key_id = \<lparr>ek_curve = Secp256k1, ek_name = sg_key_name sg\<rparr>\<rparr> = Ok s \<longrightarrow> verifies E vk d s
      | Some c \<Rightarrow> \<forall>d s. sn_call_sign net (cc_id c) ''ecdsa_sign'' \<lparr>in_ns = cc_namespace c,
            in_derivation_path = [SIGN_PROXY_TOKEN_PATH], in_message = d\<rparr> 0 = Ok (Ok s) \<longrightarrow> verifies E vk d s)"

text \<open>Base64 decoding undoes encoding, and the hash is the server's.\<close>

definition tools_documented :: "token_tools \<Rightarrow> (string \<Rightarrow> (bytes, string) outcome) \<Rightarrow> bool" where
  "tools_documented T decode \<longleftrightarrow> (\<forall>b. decode (tt_base64 T b) = Ok b) \<and> (\<forall>b. tt_sha3 T b = sha3_256 (tt_tokens T) b)"

lemma sign_digest_verifies:
  "service_documented E vk sg net \<Longrightarrow> sign_digest T net sg d = Ok s \<Longrightarrow> verifies E vk d s"
  by (cases "sg_cose sg") (auto simp: sign_digest_def service_documented_def sign_with_def cose_ecdsa_sign_def cose_call_def)

lemma signed_token_accepted:
  assumes "tools_documented T decode" and "token_codec_documented (tt_tokens T)" and "service_documented E vk sg net"
    and "sign_proxy_token T net sg e m = Ok t" and "vk \<in> set keys"
  shows "\<exists>data s. decode t = Ok data \<and>
    (\<forall>ms. \<not> token_expired (Token e m s) ms \<longrightarrow> ecdsa_verify (tt_tokens T) E keys data ms = Ok (Token e m s))"
proof -
  from assms(4) obtain buf s data where
    buf: "cbor_pair (tt_tokens T) (e, m) = Ok buf" and s: "sign_digest T net sg (tt_sha3 T buf) = Ok s" and
    data: "cbor_token (tt_tokens T) (e, m, s) = Ok data" and t: "t = tt_base64 T data"
    by (auto simp: sign_proxy_token_def)
  from assms(2) data have dec: "token_from_reader (tt_tokens T) data = Some (Token e m s)"
    by (simp add: token_codec_documented_def)
  from sign_digest_verifies [OF assms(3) s] assms(1) buf have "ecdsa_authentic (tt_tokens T) E vk (Token e m s)"
    by (simp add: ecdsa_authentic_def verifies_def tools_documented_def)
  with dec assms(5) have "ecdsa_verify (tt_tokens T) E keys data ms = Ok (Token e m s)"
    if "\<not> token_expired (Token e m s) ms" for ms
    using that ecdsa.ver_Ok by blast
  with t assms(1) show ?thesis by (auto simp: tools_documented_def)
qed

text \<open>No sum wraps: the clock counts nanoseconds on 64 bits, so it is small in seconds.\<close>

lemma seconds_less: "unat (now :: u64) div 10 ^ 9 < 2 ^ 35"
  using u64_less [of now] by simp

lemma expiry_exact:
  assumes "unat interval < 2 ^ 63"
  shows "unat (now div SECONDS + interval + 120 :: u64) = unat now div 10 ^ 9 + unat interval + 120"
proof -
  have "unat (now div SECONDS) = unat now div 10 ^ 9" by (simp add: SECONDS_def unat_div_distrib)
  with assms seconds_less [of now] have a: "unat (now div SECONDS + interval) = unat now div 10 ^ 9 + unat interval"
    by (subst unat_add_exact) simp_all
  with assms seconds_less [of now] show ?thesis by (subst unat_add_exact) simp_all
qed

lemma not_expired:
  assumes "unat interval < 2 ^ 63" and "unat ms div 1000 \<le> unat now div 10 ^ 9 + unat interval + 130"
  shows "\<not> token_expired (Token (now div SECONDS + interval + 120) m s) ms"
proof -
  let ?e = "now div SECONDS + interval + 120"
  have "unat (?e + 10) = unat ?e + 10"
    using assms(1) seconds_less [of now] by (subst unat_add_exact) (simp_all add: expiry_exact)
  moreover have "unat (ms div 1000) = unat ms div 1000" by (simp add: unat_div_distrib)
  ultimately show ?thesis
    using assms by (simp add: token_expired_def PERMITTED_DRIFT_def word_less_nat_alt expiry_exact)
qed

lemma refreshed_token_accepted:
  assumes "tools_documented T decode" and "token_codec_documented (tt_tokens T)"
    and "\<forall>i. service_documented E vk sg (net i)" and "vk \<in> set keys" and "unat interval < 2 ^ 63"
    and "update_proxy_token T now net sg interval as = Ok (Some bs)" and "b \<in> set bs"
  shows "\<exists>t data i sig. ag_proxy_token b = Some t \<and> decode t = Ok data \<and> i < length as \<and>
    (\<forall>ms. unat ms div 1000 \<le> unat (now i) div 10 ^ 9 + unat interval + 130 \<longrightarrow>
       ecdsa_verify (tt_tokens T) E keys data ms =
         Ok (Token (now i div SECONDS + interval + 120) (ag_name b) sig))"
proof -
  from assms(6) have "update_loop T now net sg interval 0 Map.empty as = Ok bs"
    by (auto simp: update_proxy_token_def split: if_splits)
  from update_loop_signed [OF this assms(7)] obtain t j where
    t: "ag_proxy_token b = Some t" and j: "j < length as" and
    s: "sign_proxy_token T (net j) sg (now j div SECONDS + interval + 120) (ag_name b) = Ok t" by auto
  from assms(3) have "service_documented E vk sg (net j)" by blast
  from signed_token_accepted [OF assms(1,2) this s assms(4)] obtain data sig where
    "decode t = Ok data" and "\<forall>ms. \<not> token_expired (Token (now j div SECONDS + interval + 120) (ag_name b) sig) ms \<longrightarrow>
      ecdsa_verify (tt_tokens T) E keys data ms = Ok (Token (now j div SECONDS + interval + 120) (ag_name b) sig)"
    by blast
  with t j not_expired [OF assms(5)] show ?thesis by blast
qed

section \<open>A sample signing service\<close>

text \<open>It signs for the key name \<open>key_1\<close> with the key \<open>k\<close>, and rejects every other key name.\<close>

definition sample_service :: signing_net where
  "sample_service = \<lparr>
     sn_sign_with_ecdsa = (\<lambda>arg. if ek_name (sw_key_id arg) = ''key_1'' then Ok (CHR ''k'' # sw_message_hash arg)
       else Err ''unknown key''),
     sn_ecdsa_public_key = (\<lambda>arg. if ek_name (pk_key_id arg) = ''key_1'' then Ok ''k'' else Err ''unknown key''),
     sn_call_public_key = (\<lambda>_ _ _ _. Err (5, ''no such canister'')),
     sn_call_sign = (\<lambda>_ _ _ _. Err (5, ''no such canister''))\<rparr>"

definition sample_tools :: token_tools where
  "sample_tools = \<lparr>tt_tokens = sample_tokens, tt_sha3 = (\<lambda>b. b), tt_format_error = (\<lambda>e. e), tt_base64 = (\<lambda>b. b),
     tt_principal = (\<lambda>p. p)\<rparr>"

definition sample_key1 :: signer where
  "sample_key1 = \<lparr>sg_key_name = ''key_1'', sg_cose = None\<rparr>"

definition plain_agent :: "string \<Rightarrow> string \<Rightarrow> agent" where
  "plain_agent n url = \<lparr>ag_name = n, ag_endpoint = url, ag_max_cycles = 1000, ag_proxy_token = None\<rparr>"

lemma sample_tools_documented: "tools_documented sample_tools Ok"
  by (simp add: tools_documented_def sample_tools_def sha3_256_def sample_tokens_def)

lemma sample_service_documented: "service_documented sample_signatures CHR ''k'' sample_key1 sample_service"
  by (simp add: service_documented_def sample_key1_def sample_service_def verifies_def sample_signatures_def)

lemma sample_signs:
  "\<exists>t. sign_proxy_token sample_tools sample_service sample_key1 e m = Ok t"
  by (simp add: sign_proxy_token_def sample_tools_def sample_tokens_def sign_digest_def sample_key1_def sign_with_def
      sample_service_def)

lemma sample_update:
  "\<exists>t u. update_proxy_token sample_tools now (\<lambda>_. sample_service) sample_key1 iv
     [plain_agent ''a'' ''u1'', plain_agent ''b'' ''u2'', plain_agent ''a'' ''u3''] =
   Ok (Some [(plain_agent ''a'' ''u1'')\<lparr>ag_proxy_token := Some t\<rparr>, (plain_agent ''b'' ''u2'')\<lparr>ag_proxy_token := Some u\<rparr>,
     (plain_agent ''a'' ''u3'')\<lparr>ag_proxy_token := Some t\<rparr>])"
  using sample_signs [of "now 0 div SECONDS + iv + 120" "''a''"] sample_signs [of "now 1 div SECONDS + iv + 120" "''b''"]
  by (auto simp: update_proxy_token_def plain_agent_def)

section \<open>Properties\<close>

text \<open>
  The canister's tokens are accepted by the proxies. Every agent that comes out of a refresh has a
  token that a server with the canister's public key accepts, as a token of the agent's name, from the
  moment it is signed until 130 seconds after the next refresh is due: the two minutes the canister
  adds to the interval, and the drift the server permits. (No sum on 64 bits wraps for any clock and any interval
  below \<open>2 ^ 63\<close> seconds.)
\<close>
theorem canister_tokens_are_accepted:
  assumes "tools_documented T decode" and "token_codec_documented (tt_tokens T)"
    and "\<forall>i. service_documented E vk sg (net i)" and "vk \<in> set keys" and "unat interval < 2 ^ 63"
    and "update_proxy_token T now net sg interval as = Ok (Some bs)" and "b \<in> set bs"
  shows "\<exists>t data i sig. ag_proxy_token b = Some t \<and> decode t = Ok data \<and> i < length as \<and>
    (\<forall>ms. unat ms div 1000 \<le> unat (now i) div 10 ^ 9 + unat interval + 130 \<longrightarrow>
       ecdsa_verify (tt_tokens T) E keys data ms =
         Ok (Token (now i div SECONDS + interval + 120) (ag_name b) sig))"
  using refreshed_token_accepted [OF assms] .

lemma canister_tokens_are_accepted_witness:
  "\<exists>t data sig. ecdsa_verify sample_tokens sample_signatures ''k'' data 190000 = Ok (Token t ''b'' sig)"
proof -
  let ?as = "[plain_agent ''a'' ''u1'', plain_agent ''b'' ''u2'', plain_agent ''a'' ''u3'']"
  let ?now = "\<lambda>i::nat. 5000000000 :: u64"
  obtain t u where run: "update_proxy_token sample_tools ?now (\<lambda>_. sample_service) sample_key1 60 ?as =
      Ok (Some [(plain_agent ''a'' ''u1'')\<lparr>ag_proxy_token := Some t\<rparr>, (plain_agent ''b'' ''u2'')\<lparr>ag_proxy_token := Some u\<rparr>,
        (plain_agent ''a'' ''u3'')\<lparr>ag_proxy_token := Some t\<rparr>])" (is "_ = Ok (Some ?bs)")
    using sample_update by blast
  let ?b = "(plain_agent ''b'' ''u2'')\<lparr>ag_proxy_token := Some u\<rparr>"
  have b: "?b \<in> set ?bs" by simp
  have "token_codec_documented (tt_tokens sample_tools)" using sample_tokens_documented by (simp add: sample_tools_def)
  from canister_tokens_are_accepted [OF sample_tools_documented this _ _ _ run b, of sample_signatures "CHR ''k''" "''k''"]
  obtain data i sig where "\<forall>ms. unat ms div 1000 \<le> unat (5000000000::u64) div 10 ^ 9 + unat (60::u64) + 130 \<longrightarrow>
      ecdsa_verify (tt_tokens sample_tools) sample_signatures ''k'' data ms =
        Ok (Token (5000000000 div SECONDS + 60 + 120) (ag_name ?b) sig)"
    using sample_service_documented by auto
  from spec [OF this, of 190000] show ?thesis by (auto simp: sample_tools_def plain_agent_def)
qed

text \<open>
  A refresh changes nothing but the tokens. It keeps the agents, their order and their settings,
  leaves none without a token, and agents of the same name share one (so they present themselves to
  the proxies as the same agent, with one signature).
\<close>
theorem refresh_changes_only_tokens:
  assumes "update_proxy_token T now net sg interval as = Ok (Some bs)"
  shows "map settings bs = map settings as \<and> (\<forall>b\<in>set bs. ag_proxy_token b \<noteq> None) \<and>
    (\<forall>b\<in>set bs. \<forall>b'\<in>set bs. ag_name b' = ag_name b \<longrightarrow> ag_proxy_token b' = ag_proxy_token b)"
proof -
  from assms have run: "update_loop T now net sg interval 0 Map.empty as = Ok bs"
    by (auto simp: update_proxy_token_def split: if_splits)
  have "ag_proxy_token b \<noteq> None" if "b \<in> set bs" for b
    using update_loop_signed [OF run that] by auto
  with update_loop_settings [OF run] update_loop_same_name [OF run] show ?thesis by blast
qed

lemma refresh_changes_only_tokens_witness:
  "\<exists>bs. update_proxy_token sample_tools (\<lambda>_. 0) (\<lambda>_. sample_service) sample_key1 60
      [plain_agent ''a'' ''u1'', plain_agent ''b'' ''u2'', plain_agent ''a'' ''u3''] = Ok (Some bs) \<and>
    map settings bs = map settings [plain_agent ''a'' ''u1'', plain_agent ''b'' ''u2'', plain_agent ''a'' ''u3'']"
proof -
  obtain bs where run: "update_proxy_token sample_tools (\<lambda>_. 0) (\<lambda>_. sample_service) sample_key1 60
      [plain_agent ''a'' ''u1'', plain_agent ''b'' ''u2'', plain_agent ''a'' ''u3''] = Ok (Some bs)"
    using sample_update by blast
  from refresh_changes_only_tokens [OF run] run show ?thesis by blast
qed

text \<open>
  C26: A refresh undoes a change of the agents. The agents are read when a refresh begins and written
  back when its last signature has arrived: whatever the state is then, in particular after
  \<open>admin_set_agents\<close> has put in others, the canister is left with the agents of before.
\<close>
theorem refresh_undoes_set_agents:
  assumes "refresh_proxy_token T now net s0 = Ok w" and "cs_agents s0 \<noteq> []"
  shows "map settings (cs_agents (write_agents w s1)) = map settings (cs_agents s0)"
proof -
  from assms obtain bs where w: "w = Some bs"
    and run: "update_loop T now net (signer s0) (proxy_token_refresh_interval s0) 0 Map.empty (cs_agents s0) = Ok bs"
    by (auto simp: refresh_proxy_token_def update_proxy_token_def)
  from update_loop_settings [OF run] w show ?thesis by (simp add: write_agents_def)
qed

lemma refresh_undoes_set_agents_witness:
  "\<exists>w w' s0. let s1 = write_agents w' s0 in
     admin_set_agents (\<lambda>p. p = ''root'') sample_tools (\<lambda>_. 0) (\<lambda>_. sample_service) ''root'' [plain_agent ''new'' ''u9''] s0 = Ok w' \<and>
     map ag_name (cs_agents s1) = [''new''] \<and>
     refresh_proxy_token sample_tools (\<lambda>_. 0) (\<lambda>_. sample_service) s0 = Ok w \<and>
     map settings (cs_agents (write_agents w s1)) = map settings (cs_agents s0) \<and>
     map ag_name (cs_agents s0) = [''a'', ''b'', ''a'']"
proof -
  let ?as = "[plain_agent ''a'' ''u1'', plain_agent ''b'' ''u2'', plain_agent ''a'' ''u3'']"
  let ?s0 = "sample_state\<lparr>cs_agents := ?as\<rparr>"
  have sg: "signer ?s0 = sample_key1" by (simp add: signer_def sample_state_def state_default_def sample_key1_def)
  obtain w where run: "refresh_proxy_token sample_tools (\<lambda>_. 0) (\<lambda>_. sample_service) ?s0 = Ok w"
    using sample_update sg by (auto simp: refresh_proxy_token_def)
  obtain t where "sign_proxy_token sample_tools sample_service sample_key1 (0 div SECONDS + 3600 + 120) ''new'' = Ok t"
    using sample_signs by blast
  then have set: "admin_set_agents (\<lambda>p. p = ''root'') sample_tools (\<lambda>_. 0) (\<lambda>_. sample_service) ''root''
      [plain_agent ''new'' ''u9''] ?s0 = Ok (Some [(plain_agent ''new'' ''u9'')\<lparr>ag_proxy_token := Some t\<rparr>])" (is "_ = Ok ?w'")
    using sg by (simp add: admin_set_agents_def is_controller_or_manager_def validate_admin_set_agents_def
        update_proxy_token_def plain_agent_def sample_state_def)
  from refresh_undoes_set_agents [OF run, of "write_agents ?w' ?s0"]
  have "map settings (cs_agents (write_agents w (write_agents ?w' ?s0))) = map settings (cs_agents ?s0)" by simp
  with run set show ?thesis
    by (intro exI [of _ w] exI [of _ ?w'] exI [of _ ?s0]) (simp add: Let_def write_agents_def plain_agent_def)
qed

end
