(* ===== verification/Canister_Admin.thy ===== *)
theory Canister_Admin
  imports Canister_Tokens
begin

text \<open>
  The administration of the canister, \<open>api_admin.rs\<close> behind the guards of \<open>lib.rs\<close> (in
  \<open>src/idempotent-proxy-canister/src\<close>): every guarded method as one dispatch, every way the canister's
  state changes as a step relation, and what holds in all reachable states.
\<close>

section \<open>The guarded methods\<close>

datatype admin_call =
    AddManagers "principal list"
  | RemoveManagers "principal list"
  | AddCaller principal
  | AddCallers "principal list"
  | RemoveCallers "principal list"
  | SetAgents "agent list"

text \<open>
  The methods with their guards. \<open>admin_set_agents\<close> awaits signatures: \<open>others\<close> is what other messages do to
  the state meanwhile. It reads what it needs before, a call that is refused has not awaited anything, and
  a trap after an await undoes nothing of the others' work.
\<close>

definition admin_dispatch :: "(principal \<Rightarrow> bool) \<Rightarrow> validator \<Rightarrow> token_tools \<Rightarrow> (nat \<Rightarrow> u64) \<Rightarrow> (nat \<Rightarrow> signing_net)
    \<Rightarrow> (canister_state \<Rightarrow> canister_state) \<Rightarrow> principal \<Rightarrow> admin_call \<Rightarrow> canister_state
    \<Rightarrow> (unit, string) outcome \<times> canister_state" where
  "admin_dispatch controller validate T now service others caller call s =
     (case call of
        AddManagers ps \<Rightarrow> run_message (is_controller_guard controller caller) (admin_add_managers validate ps) s
      | RemoveManagers ps \<Rightarrow> run_message (is_controller_guard controller caller) (admin_remove_managers validate ps) s
      | AddCaller p \<Rightarrow> run_message (is_controller_or_manager controller caller s) (\<lambda>s. map_ok snd (admin_add_caller p s)) s
      | AddCallers ps \<Rightarrow> run_message (is_controller_or_manager controller caller s) (admin_add_callers validate ps) s
      | RemoveCallers ps \<Rightarrow> run_message (is_controller_or_manager controller caller s) (admin_remove_callers validate ps) s
      | SetAgents as \<Rightarrow>
          (case admin_set_agents controller T now service caller as s of
             Ok w \<Rightarrow> (Ok (), write_agents w (others s))
           | Err e \<Rightarrow> (Err e, s)
           | Panic m \<Rightarrow> (Panic m, others s)))"

text \<open>Who may call a method, and what a call that succeeds does.\<close>

definition permitted :: "(principal \<Rightarrow> bool) \<Rightarrow> principal \<Rightarrow> admin_call \<Rightarrow> canister_state \<Rightarrow> bool" where
  "permitted controller caller call s =
     (case call of
        AddManagers _ \<Rightarrow> controller caller
      | RemoveManagers _ \<Rightarrow> controller caller
      | _ \<Rightarrow> controller caller \<or> caller \<in> managers s)"

definition with_accounts :: "principal set \<Rightarrow> (principal \<rightharpoonup> u128 \<times> u64) \<Rightarrow> (principal \<rightharpoonup> u128 \<times> u64)" where
  "with_accounts ps m = (\<lambda>q. if m q = None \<and> q \<in> ps then Some (0, 0) else m q)"

definition new_agents :: "agent list \<Rightarrow> canister_state \<Rightarrow> canister_state \<Rightarrow> bool" where
  "new_agents as s s' \<longleftrightarrow> (\<exists>bs. s' = s\<lparr>cs_agents := bs\<rparr> \<and> map settings bs = map settings as \<and>
     (\<forall>b\<in>set bs. ag_proxy_token b \<noteq> None))"

section \<open>Lemmas\<close>

lemma run_message_outcome:
  "run_message g body s = (r, s') \<Longrightarrow> (if r = Ok () then g = Ok () \<and> body s = Ok s' else s' = s)"
  by (cases g) (auto simp: run_message_def split: outcome.splits)

lemma guard_Ok [simp]:
  "is_controller_guard controller caller = Ok () \<longleftrightarrow> controller caller"
  "is_controller_or_manager controller caller s = Ok () \<longleftrightarrow> controller caller \<or> caller \<in> managers s"
  by (simp_all add: is_controller_guard_def is_controller_or_manager_def is_manager_def)

lemma guard_refuses [simp]:
  "\<not> controller caller \<Longrightarrow> is_controller_guard controller caller = Err ''user is not a controller''"
  "\<not> controller caller \<Longrightarrow> caller \<notin> managers s \<Longrightarrow>
     is_controller_or_manager controller caller s = Err ''user is not a controller or manager''"
  by (simp_all add: is_controller_guard_def is_controller_or_manager_def is_manager_def)

lemma fold_with_accounts: "fold or_insert ps m = with_accounts (set ps) m"
  by (rule ext) (auto simp: fold_or_insert with_accounts_def split: option.splits)

lemma or_insert_account: "or_insert p m = with_accounts {p} m"
  by (rule ext) (auto simp: or_insert_apply with_accounts_def)

lemma fold_restrict: "fold (\<lambda>p m. m(p := None)) ps m = m |` (- set ps)"
  by (rule ext) (auto simp: fold_remove restrict_map_def)

text \<open>A caller without permission is refused, and nothing changes.\<close>

lemma admin_refused:
  assumes "\<not> permitted controller caller call s"
  shows "\<exists>e. admin_dispatch controller v T now service others caller call s = (Err e, s)"
  using assms
  by (cases call; auto simp: permitted_def admin_dispatch_def run_message_def admin_set_agents_def)

text \<open>What a method does to the state.\<close>

lemma admin_set_agents_effect:
  assumes "admin_dispatch controller v T now service others caller (SetAgents as) s = (r, s')"
  shows "if r = Ok () then new_agents as (others s) s' else s' = s \<or> s' = others s"
proof (cases "admin_set_agents controller T now service caller as s")
  case (Ok w)
  with assms have r: "r = Ok ()" "s' = write_agents w (others s)" by (simp_all add: admin_dispatch_def)
  from Ok have "as \<noteq> []" "update_proxy_token T now service (signer s) (proxy_token_refresh_interval s) as = Ok w"
    by (auto simp: admin_set_agents_def validate_admin_set_agents_def split: if_splits)
  then obtain bs where w: "w = Some bs" and
    run: "update_loop T now service (signer s) (proxy_token_refresh_interval s) 0 Map.empty as = Ok bs"
    by (auto simp: update_proxy_token_def)
  have "ag_proxy_token b \<noteq> None" if "b \<in> set bs" for b
    using update_loop_signed [OF run that] by auto
  with r w update_loop_settings [OF run] show ?thesis by (auto simp: new_agents_def write_agents_def)
qed (use assms in \<open>auto simp: admin_dispatch_def\<close>)

lemma admin_effect:
  assumes "admin_dispatch controller v T now service others caller call s = (r, s')"
  shows "case call of
      AddManagers ps \<Rightarrow> s' = (if r = Ok () then s\<lparr>managers := managers s \<union> set ps\<rparr> else s)
    | RemoveManagers ps \<Rightarrow> s' = (if r = Ok () then s\<lparr>managers := managers s - set ps\<rparr> else s)
    | AddCaller p \<Rightarrow> s' = (if r = Ok () then s\<lparr>callers := with_accounts {p} (callers s)\<rparr> else s)
    | AddCallers ps \<Rightarrow> s' = (if r = Ok () then s\<lparr>callers := with_accounts (set ps) (callers s)\<rparr> else s)
    | RemoveCallers ps \<Rightarrow> s' = (if r = Ok () then s\<lparr>callers := callers s |` (- set ps)\<rparr> else s)
    | SetAgents as \<Rightarrow> (if r = Ok () then new_agents as (others s) s' else s' = s \<or> s' = others s)"
proof (cases call)
  case (SetAgents as)
  with admin_set_agents_effect [of controller v T now service others caller as s r s'] assms show ?thesis by simp
qed (use assms in \<open>auto simp: admin_dispatch_def admin_add_managers_def admin_remove_managers_def admin_add_caller_def
      admin_add_callers_def admin_remove_callers_def or_insert_account fold_with_accounts fold_restrict set_diff_eq
      dest!: run_message_outcome split: if_splits\<close>)

text \<open>A proposal that validates is one that a controller's call of the operation will accept.\<close>

lemma validated_proposals_succeed:
  "validate2_admin_add_managers v ps = Ok r \<Longrightarrow> controller caller \<Longrightarrow>
     fst (admin_dispatch controller v T now service others caller (AddManagers ps) s) = Ok ()"
  "validate2_admin_remove_managers v ps = Ok r \<Longrightarrow> controller caller \<Longrightarrow>
     fst (admin_dispatch controller v T now service others caller (RemoveManagers ps) s) = Ok ()"
  by (auto simp: validate2_admin_add_managers_def validate2_admin_remove_managers_def admin_dispatch_def run_message_def
      admin_add_managers_def admin_remove_managers_def is_controller_guard_def)

section \<open>Reachable states\<close>

text \<open>
  Every way the state changes: installation, upgrades (through the stable memory), administration,
  the accounting of a call, and new agents with their tokens (whenever a refresh or \<open>admin_set_agents\<close>
  writes them, after its awaits) or a new public key.
\<close>

inductive canister_step :: "cycles_accept \<Rightarrow> state_codec \<Rightarrow> (principal \<Rightarrow> bool) \<Rightarrow> validator
    \<Rightarrow> canister_state \<Rightarrow> canister_state \<Rightarrow> bool"
  for acc C controller validate where
  upgrade: "pre_upgrade C s = Ok b \<Longrightarrow> post_upgrade C b args = Ok (s', timers) \<Longrightarrow>
    canister_step acc C controller validate s s'"
| administer: "admin_dispatch controller validate T now service (\<lambda>s. s) caller call s = (r, s') \<Longrightarrow>
    canister_step acc C controller validate s s'"
| charge: "receive_cycles acc n ign (s, av) = Ok (s', av') \<Longrightarrow> canister_step acc C controller validate s s'"
| count: "canister_step acc C controller validate s (update_caller_state caller n now s)"
| set_agents: "canister_step acc C controller validate s (s\<lparr>cs_agents := as\<rparr>)"
| set_key: "canister_step acc C controller validate s (s\<lparr>proxy_token_public_key := k\<rparr>)"

inductive canister_reachable :: "cycles_accept \<Rightarrow> state_codec \<Rightarrow> (principal \<Rightarrow> bool) \<Rightarrow> validator \<Rightarrow> canister_state \<Rightarrow> bool"
  for acc C controller validate where
  install: "canister_init args state_default = Ok (s, timers) \<Longrightarrow> canister_reachable acc C controller validate s"
| further: "canister_reachable acc C controller validate s \<Longrightarrow> canister_step acc C controller validate s s' \<Longrightarrow>
    canister_reachable acc C controller validate s'"

lemma canister_ok_admin:
  assumes "validator_documented v" and "admin_dispatch controller v T now service (\<lambda>s. s) caller call s = (r, s')"
    and "canister_ok s"
  shows "canister_ok s'"
proof (cases call)
  case (SetAgents as)
  with admin_set_agents_effect [of controller v T now service "\<lambda>s. s" caller as s r s'] assms
  have "(\<exists>bs. s' = s\<lparr>cs_agents := bs\<rparr>) \<or> s' = s" by (auto simp: new_agents_def split: if_splits)
  with assms(3) show ?thesis by (auto simp: canister_ok_def)
qed (use assms in \<open>auto simp: admin_dispatch_def admin_add_managers_def admin_remove_managers_def admin_add_caller_def
      admin_add_callers_def admin_remove_callers_def canister_ok_def fold_or_insert fold_remove or_insert_apply
      validator_documented_def dest!: run_message_state split: option.splits if_splits\<close>)

lemma canister_ok_step:
  assumes "state_codec_documented C" and "validator_documented v"
    and "canister_step acc C controller v s s'" and "canister_ok s"
  shows "canister_ok s'"
  using assms(3,4)
proof (induction rule: canister_step.induct)
  case (upgrade s b args s' timers)
  then show ?case using canister_ok_upgrade [OF assms(1)] by blast
next
  case (administer T now service caller call s r s')
  then show ?case using canister_ok_admin [OF assms(2)] by blast
next
  case (charge n ign s av s' av')
  from receive_cycles_frame [OF charge(1)] charge(2) show ?case by (simp add: canister_ok_def)
next
  case (count s caller n now)
  then show ?case by (auto simp: canister_ok_def update_caller_state_def split: option.splits)
qed (simp_all add: canister_ok_def)

lemma canister_reachable_ok:
  assumes "state_codec_documented C" and "validator_documented v" and "canister_reachable acc C controller v s"
  shows "canister_ok s"
  using assms(3)
proof (induction rule: canister_reachable.induct)
  case (install args s timers)
  then show ?case
    by (auto simp: canister_init_def canister_ok_def state_default_def Let_def split: option.splits chain_args.splits)
next
  case (further s s')
  then show ?case using canister_ok_step [OF assms(1,2)] by blast
qed

section \<open>Properties\<close>

text \<open>
  C38: Soundness of the canister's state. In every state the canister can reach, from its installation
  through upgrades, administration and calls, the tokens are refreshed at intervals of at least ten
  seconds, and the anonymous principal is neither a manager nor an allowed caller.
\<close>
theorem reachable_states_are_sound:
  assumes "state_codec_documented C" and "validator_documented v" and "canister_reachable acc C controller v s"
  shows "10 \<le> proxy_token_refresh_interval s \<and> ANONYMOUS \<notin> managers s \<and> \<not> is_allowed ANONYMOUS s"
  using canister_reachable_ok [OF assms] by (simp add: canister_ok_def is_allowed_def)

lemma reachable_states_are_sound_witness:
  "let s = sample_state\<lparr>managers := {''m''}\<rparr> in
     canister_reachable min sample_state_codec (\<lambda>p. p = ''root'') sample_validator s \<and>
     10 \<le> proxy_token_refresh_interval s \<and> ANONYMOUS \<notin> managers s \<and> \<not> is_allowed ANONYMOUS s"
proof -
  let ?s = "sample_state\<lparr>managers := {''m''}\<rparr>"
  have "canister_reachable min sample_state_codec (\<lambda>p. p = ''root'') sample_validator sample_state"
    using sample_init_state by (rule canister_reachable.install)
  moreover have "admin_dispatch (\<lambda>p. p = ''root'') sample_validator sample_tools (\<lambda>_. 0) (\<lambda>_. sample_service) (\<lambda>s. s)
      ''root'' (AddManagers [''m'']) sample_state = (Ok (), ?s)"
    by (simp add: admin_dispatch_def run_message_def is_controller_guard_def admin_add_managers_def
        sample_validator_def ANONYMOUS_def sample_state_def state_default_def)
  ultimately have "canister_reachable min sample_state_codec (\<lambda>p. p = ''root'') sample_validator ?s"
    by (blast intro: canister_reachable.further canister_step.administer)
  with reachable_states_are_sound [OF sample_state_codec_documented sample_validator_documented this]
  show ?thesis by (simp add: Let_def)
qed

text \<open>
  C40: Administration is authorised, and does what it says. A guarded method is refused, with the state as it
was, unless the caller is a controller of the canister or, for all but the two methods that change the
managers, a manager. A call that succeeds adds exactly the given managers or callers (a caller that is known
keeps its account), removes exactly the given ones, or replaces the agents by the given ones, each with a
token; one that fails leaves the state to whatever other messages did while it waited for signatures.
\<close>
theorem administration_is_authorised:
  assumes "admin_dispatch controller v T now service others caller call s = (r, s')"
  shows "(\<not> permitted controller caller call s \<longrightarrow> (\<exists>e. r = Err e) \<and> s' = s) \<and>
    (case call of
      AddManagers ps \<Rightarrow> s' = (if r = Ok () then s\<lparr>managers := managers s \<union> set ps\<rparr> else s)
    | RemoveManagers ps \<Rightarrow> s' = (if r = Ok () then s\<lparr>managers := managers s - set ps\<rparr> else s)
    | AddCaller p \<Rightarrow> s' = (if r = Ok () then s\<lparr>callers := with_accounts {p} (callers s)\<rparr> else s)
    | AddCallers ps \<Rightarrow> s' = (if r = Ok () then s\<lparr>callers := with_accounts (set ps) (callers s)\<rparr> else s)
    | RemoveCallers ps \<Rightarrow> s' = (if r = Ok () then s\<lparr>callers := callers s |` (- set ps)\<rparr> else s)
    | SetAgents as \<Rightarrow> (if r = Ok () then new_agents as (others s) s' else s' = s \<or> s' = others s))"
  using admin_refused [of controller caller call s v T now service others] admin_effect [OF assms] assms by fastforce

lemma administration_is_authorised_witness:
  "(\<exists>e. admin_dispatch (\<lambda>p. p = ''root'') sample_validator sample_tools (\<lambda>_. 0) (\<lambda>_. sample_service) (\<lambda>s. s)
      ''x'' (SetAgents [plain_agent ''new'' ''u9'']) sample_old = (Err e, sample_old)) \<and>
   (\<exists>s'. admin_dispatch (\<lambda>p. p = ''root'') sample_validator sample_tools (\<lambda>_. 0) (\<lambda>_. sample_service) (\<lambda>s. s)
      ''m'' (SetAgents [plain_agent ''new'' ''u9'']) sample_old = (Ok (), s') \<and> new_agents [plain_agent ''new'' ''u9''] sample_old s')"
proof -
  let ?run = "\<lambda>caller. admin_dispatch (\<lambda>p. p = ''root'') sample_validator sample_tools (\<lambda>_. 0) (\<lambda>_. sample_service) (\<lambda>s. s)
      caller (SetAgents [plain_agent ''new'' ''u9'']) sample_old"
  have sg: "signer sample_old = sample_key1"
    by (simp add: signer_def sample_old_def sample_state_def state_default_def sample_key1_def)
  obtain t where "sign_proxy_token sample_tools sample_service sample_key1 (0 div SECONDS + 3600 + 120) ''new'' = Ok t"
    using sample_signs by blast
  then have ok: "fst (?run ''m'') = Ok ()"
    using sg by (simp add: admin_dispatch_def admin_set_agents_def is_controller_or_manager_def is_manager_def
        validate_admin_set_agents_def update_proxy_token_def plain_agent_def sample_old_def sample_state_def)
  have a: "?run ''m'' = (fst (?run ''m''), snd (?run ''m''))" by simp
  have b: "?run ''x'' = (fst (?run ''x''), snd (?run ''x''))" by simp
  have "\<not> permitted (\<lambda>p. p = ''root'') ''x'' (SetAgents [plain_agent ''new'' ''u9'']) sample_old"
    by (simp add: permitted_def sample_old_def)
  with administration_is_authorised [OF b, THEN conjunct1] b have "\<exists>e. ?run ''x'' = (Err e, sample_old)" by metis
  moreover have "new_agents [plain_agent ''new'' ''u9''] sample_old (snd (?run ''m''))"
    using administration_is_authorised [OF a, THEN conjunct2] ok by simp
  ultimately show ?thesis using a ok by metis
qed

end
