(* ===== verification/Canister_Server.thy ===== *)
theory Canister_Server
  imports Canister_Tokens Proxy_Properties
begin

text \<open>
  The canister and the server together: a request that an agent of the canister builds
  (\<open>Canister_Agent\<close>), with the token the canister made for it (\<open>Canister_Tokens\<close>), at the access control
  of the server (\<open>Handler\<close>).
\<close>

section \<open>Delivery\<close>

text \<open>
  The request as the server reads it: the network delivers every header of the outcall, and of several
  with one name the server reads the first.
\<close>

definition presents :: "('h, 'v) http_lib \<Rightarrow> outcall_request \<Rightarrow> 'h request \<Rightarrow> bool" where
  "presents H oq req \<longleftrightarrow>
     (\<forall>n v. map_of (map (\<lambda>h. (hd_name h, hd_value h)) (oq_headers oq)) n = Some v \<longrightarrow>
        extract_header H (req_headers req) n [] = v)"

lemma build_request_token:
  assumes "build_request X a oq = Ok oq'" and "ag_proxy_token a = Some t"
    and "\<forall>h\<in>set (oq_headers oq). hd_name h \<noteq> ''proxy-authorization''"
  shows "map_of (map (\<lambda>h. (hd_name h, hd_value h)) (oq_headers oq')) ''proxy-authorization'' = Some (''Bearer '' @ t)"
proof -
  have "has_header ''idempotency-key'' oq" using assms(1) by (auto simp: build_request_def split: if_splits)
  with assms(1,2) obtain q where q: "build_target X a oq = Ok q" and
    oq': "oq' = (push_header ''proxy-authorization'' (''Bearer '' @ t)
      (if \<not> has_header ''response-headers'' q then push_header ''response-headers'' ''date'' q else q))
      \<lparr>oq_transform := Some (''inner_transform_response'', [])\<rparr>"
    by (auto simp: build_request_def Let_def)
  from q have "oq_headers q = oq_headers oq \<or>
      (\<exists>v. oq_headers q = oq_headers oq @ [\<lparr>hd_name = ''x-forwarded-host'', hd_value = v\<rparr>])"
    by (auto simp: build_target_def Let_def split: if_splits)
  with assms(3) have "\<forall>h\<in>set (oq_headers q). hd_name h \<noteq> ''proxy-authorization''" by auto
  then have "map_of (map (\<lambda>h. (hd_name h, hd_value h)) (oq_headers q)) ''proxy-authorization'' = None"
    by (auto simp: map_of_eq_None_iff)
  then show ?thesis by (simp add: oq' map_add_def)
qed

text \<open>A request with a token that verifies is let in, under the token's name.\<close>

lemma access_control_bearer:
  assumes "map_of (map (\<lambda>h. (hd_name h, hd_value h)) (oq_headers oq)) ''proxy-authorization'' = Some (''Bearer '' @ t)"
    and "presents (http L) oq req" and "base64_decode (net L) t = Ok data" and "ecdsa_pub_keys app \<noteq> []"
    and "ecdsa_verify (tok L) (ecdsa_lib L) (ecdsa_pub_keys app) data ms = Ok (Token e name sig)"
    and "agents app = [] \<or> name \<in> set (agents app)"
  shows "access_control L app req ms = Ok name"
proof -
  have "extract_header (http L) (req_headers req) HEADER_PROXY_AUTHORIZATION [] = ''Bearer '' @ t"
    using assms(1,2) unfolding presents_def HEADER_PROXY_AUTHORIZATION_def by blast
  moreover have "strip_prefix (''Bearer '' @ t) ''Bearer '' = Some t" by (rule strip_prefix_append)
  ultimately show ?thesis
    using assms(3-6) by (auto simp: access_control_def verify_token_def simp del: append.simps)
qed

section \<open>Samples\<close>

definition sample_server :: "(string, char, char) app_state" where
  "sample_server = sample_app\<lparr>ecdsa_pub_keys := [CHR ''k''], agents := [''a'', ''b'']\<rparr>"

definition sample_arrival :: "outcall_request \<Rightarrow> (string \<times> string) list request" where
  "sample_arrival oq = (sample_request ''t'' ''k1'')\<lparr>req_headers := map (\<lambda>h. (hd_name h, hd_value h)) (oq_headers oq)\<rparr>"

lemma sample_presents:
  "\<forall>h\<in>set (oq_headers oq). hd_name h \<noteq> [] \<Longrightarrow> presents list_http oq (sample_arrival oq)"
proof -
  assume "\<forall>h\<in>set (oq_headers oq). hd_name h \<noteq> []"
  then have "filter (\<lambda>x. fst x \<noteq> []) (map (\<lambda>h. (hd_name h, hd_value h)) (oq_headers oq)) =
      map (\<lambda>h. (hd_name h, hd_value h)) (oq_headers oq)" by simp
  then show ?thesis
    by (simp add: presents_def extract_header_def list_http_def sample_arrival_def sample_request_def)
qed

lemma sample_trust:
  "tools_documented sample_tools (base64_decode (net sample_libs))" "tt_tokens sample_tools = tok sample_libs"
  "token_codec_documented (tok sample_libs)" "CHR ''k'' \<in> set (ecdsa_pub_keys sample_server)"
  "service_documented (ecdsa_lib sample_libs) CHR ''k'' sample_key1 sample_service"
  "agents sample_server = [] \<or> ''b'' \<in> set (agents sample_server)"
  using sample_tools_documented sample_tokens_documented sample_service_documented
  by (simp_all add: sample_libs_def sample_net_def sample_tools_def sample_server_def)

lemma sample_arrives:
  "\<forall>h\<in>set (oq_headers oq). hd_name h \<noteq> [] \<Longrightarrow> presents (http sample_libs) oq (sample_arrival oq)"
  using sample_presents by (simp add: sample_libs_def)

text \<open>An agent with a fresh token, and the request it builds.\<close>

definition sample_agents :: "agent list" where
  "sample_agents = [plain_agent ''a'' ''u1'', plain_agent ''b'' ''u2'', plain_agent ''a'' ''u3'']"

lemma sample_refreshed:
  "\<exists>bs b oq'. update_proxy_token sample_tools (\<lambda>_. 5000000000) (\<lambda>_. sample_service) sample_key1 60 sample_agents = Ok (Some bs) \<and>
     b \<in> set bs \<and> ag_name b = ''b'' \<and> build_request sample_uri b (sample_oq ''https://api.com/v1'') = Ok oq' \<and>
     (\<forall>h\<in>set (oq_headers oq'). hd_name h \<noteq> [])"
proof -
  obtain t u where run: "update_proxy_token sample_tools (\<lambda>_. 5000000000) (\<lambda>_. sample_service) sample_key1 60 sample_agents =
      Ok (Some [(plain_agent ''a'' ''u1'')\<lparr>ag_proxy_token := Some t\<rparr>, (plain_agent ''b'' ''u2'')\<lparr>ag_proxy_token := Some u\<rparr>,
        (plain_agent ''a'' ''u3'')\<lparr>ag_proxy_token := Some t\<rparr>])" (is "_ = Ok (Some ?bs)")
    using sample_update unfolding sample_agents_def by blast
  let ?b = "(plain_agent ''b'' ''u2'')\<lparr>ag_proxy_token := Some u\<rparr>"
  obtain oq' where "build_request sample_uri ?b (sample_oq ''https://api.com/v1'') = Ok oq'"
    "\<forall>h\<in>set (oq_headers oq'). hd_name h \<noteq> []"
    by (simp add: build_request_def build_target_def sample_oq_def sample_uri_def plain_agent_def
        has_header_def starts_with_def push_header_def)
  moreover have "?b \<in> set ?bs" "ag_name ?b = ''b''" by (simp_all add: plain_agent_def)
  ultimately show ?thesis using run by blast
qed

section \<open>Properties\<close>

text \<open>
  C19: The server lets the canister in. Take any agent that a refresh of the canister's tokens produced and
  any client's request it was called with (which did not bring an authorization of its own): the request
  the agent builds passes the access control of every server that has the canister's public key among
  its ECDSA keys and does not exclude the agent's name, under that name, from the signature until
  130 seconds after the next refresh is due.
\<close>
theorem canister_requests_pass_access_control:
  assumes "tools_documented T (base64_decode (net L))" and "tt_tokens T = tok L" and "token_codec_documented (tok L)"
    and "\<forall>i. service_documented (ecdsa_lib L) vk sg (service i)" and "vk \<in> set (ecdsa_pub_keys app)"
    and "unat interval < 2 ^ 63"
    and "update_proxy_token T now service sg interval as = Ok (Some bs)" and "b \<in> set bs"
    and "build_request X b oq = Ok oq'"
    and "\<forall>h\<in>set (oq_headers oq). hd_name h \<noteq> ''proxy-authorization''"
    and "presents (http L) oq' req"
    and "agents app = [] \<or> ag_name b \<in> set (agents app)"
  shows "\<exists>i<length as. \<forall>ms. unat ms div 1000 \<le> unat (now i) div 10 ^ 9 + unat interval + 130 \<longrightarrow>
    access_control L app req ms = Ok (ag_name b)"
proof -
  have "token_codec_documented (tt_tokens T)" using assms(2,3) by simp
  from refreshed_token_accepted [OF assms(1) this assms(4,5,6,7,8)] obtain t data i sig where
    t: "ag_proxy_token b = Some t" and d: "base64_decode (net L) t = Ok data" and i: "i < length as" and
    v: "\<And>ms. unat ms div 1000 \<le> unat (now i) div 10 ^ 9 + unat interval + 130 \<Longrightarrow>
       ecdsa_verify (tok L) (ecdsa_lib L) (ecdsa_pub_keys app) data ms =
         Ok (Token (now i div SECONDS + interval + 120) (ag_name b) sig)"
    using assms(2) by auto
  note let_in = access_control_bearer [OF build_request_token [OF assms(9) t assms(10)] assms(11) d _ v assms(12)]
  have "ecdsa_pub_keys app \<noteq> []" using assms(5) by auto
  with let_in have "access_control L app req ms = Ok (ag_name b)"
    if "unat ms div 1000 \<le> unat (now i) div 10 ^ 9 + unat interval + 130" for ms using that by blast
  with i show ?thesis by blast
qed

lemma canister_requests_pass_access_control_witness:
  "\<exists>oq'. access_control sample_libs sample_server (sample_arrival oq') 60000 = Ok ''b''"
proof -
  obtain bs b oq' where run: "update_proxy_token sample_tools (\<lambda>_. 5000000000) (\<lambda>_. sample_service) sample_key1 60 sample_agents = Ok (Some bs)"
    and b: "b \<in> set bs" "ag_name b = ''b''" and build: "build_request sample_uri b (sample_oq ''https://api.com/v1'') = Ok oq'"
    and names: "\<forall>h\<in>set (oq_headers oq'). hd_name h \<noteq> []" using sample_refreshed by blast
  have q: "\<forall>h\<in>set (oq_headers (sample_oq ''https://api.com/v1'')). hd_name h \<noteq> ''proxy-authorization''"
    by (simp add: sample_oq_def)
  have "\<exists>i<length sample_agents. \<forall>ms. unat ms div 1000 \<le> unat (5000000000::u64) div 10 ^ 9 + unat (60::u64) + 130 \<longrightarrow>
      access_control sample_libs sample_server (sample_arrival oq') ms = Ok (ag_name b)"
    by (rule canister_requests_pass_access_control [OF sample_trust(1-3) _ sample_trust(4) _ run b(1) build q sample_arrives [OF names]])
      (simp_all add: sample_trust b)
  then have "access_control sample_libs sample_server (sample_arrival oq') 60000 = Ok (ag_name b)" by force
  with b show ?thesis by auto
qed

end
