(* ===== verification/Canister_Api.thy ===== *)
theory Canister_Api
  imports Canister_State
begin

text \<open>
  The calls and price queries of \<open>src/idempotent-proxy-canister/src/api.rs\<close>. A call is a message that
  runs in segments, cut where it awaits an outcall: between two segments other messages run, and a
  trap takes back the segment it happens in and nothing before. The joins of the \<open>futures\<close> library and
  the encoding of a list of responses are parameters.
\<close>

section \<open>Messages\<close>

text \<open>
  What a call meets: the caller, the size of its argument, the time of its \<open>i\<close>-th segment, what the
  \<open>i\<close>-th agent's proxy answers, what other messages do to the state in the \<open>i\<close>-th await, and the order
  in which concurrent outcalls return.
\<close>

record call_env =
  ce_caller :: principal
  ce_arg_size :: usize
  ce_now :: "nat \<Rightarrow> u64"
  ce_outcall :: "nat \<Rightarrow> outcall"
  ce_others :: "nat \<Rightarrow> canister_state \<Rightarrow> canister_state"
  ce_order :: "nat list"

text \<open>The state and the cycles of the call that are still available; and what a call ends with.\<close>

type_synonym canister_place = "canister_state \<times> u128"

type_synonym call_result = "(outcall_response, string) outcome \<times> canister_place"

text \<open>An operation in a segment that began at \<open>c\<close>: a trap ends the call there.\<close>

definition or_trap :: "canister_place \<Rightarrow> ('a, string) outcome \<Rightarrow> ('a \<Rightarrow> call_result) \<Rightarrow> call_result" where
  "or_trap c r k = (case r of Ok x \<Rightarrow> k x | Err e \<Rightarrow> (Err e, c) | Panic m \<Rightarrow> (Panic m, c))"

text \<open>
  An await, if there is one: the segment's effects become permanent and other messages run. The result
  is where the current segment began and where it is.
\<close>

definition suspend :: "bool \<Rightarrow> (canister_state \<Rightarrow> canister_state) \<Rightarrow> canister_place \<Rightarrow> canister_place
    \<Rightarrow> canister_place \<times> canister_place" where
  "suspend awaits others c p = (if awaits then ((others (fst p), snd p), (others (fst p), snd p)) else (c, p))"

record join_lib =
  jl_try_join_all :: "nat list \<Rightarrow> (outcall_response, outcall_response) outcome list
    \<Rightarrow> (outcall_response list, outcall_response) outcome"
  jl_select_ok :: "nat list \<Rightarrow> (outcall_response, outcall_response) outcome list
    \<Rightarrow> (outcall_response, outcall_response) outcome"
  jl_into_writer :: "outcall_response list \<Rightarrow> (bytes, string) outcome"

definition MILLISECONDS :: u64 where
  "MILLISECONDS = 1000000"

definition plain_response :: "nat \<Rightarrow> bytes \<Rightarrow> outcall_response" where
  "plain_response status body = \<lparr>or_status = status, or_headers = [], or_body = body\<rparr>"

section \<open>Prices\<close>

definition response_limit :: "outcall_request \<Rightarrow> usize" where
  "response_limit req = ucast (case oq_max_response_bytes req of None \<Rightarrow> 10240 :: u64 | Some n \<Rightarrow> n)"

definition proxy_http_request_cost :: "usize \<Rightarrow> outcall_request \<Rightarrow> canister_state \<Rightarrow> u128" where
  "proxy_http_request_cost arg_size req s =
     (let calc = cycles_calculator s
      in ingress_cost calc arg_size
         + http_outcall_request_cost calc (count_request_bytes calc req) 1
         + http_outcall_response_cost calc (response_limit req) 1)"

definition parallel_call_cost :: "usize \<Rightarrow> outcall_request \<Rightarrow> canister_state \<Rightarrow> u128" where
  "parallel_call_cost arg_size req s =
     (let agents = get_agents s; calc = cycles_calculator s
      in ingress_cost calc arg_size
         + http_outcall_request_cost calc (count_request_bytes calc req) (usize_len agents)
         + http_outcall_response_cost calc (response_limit req) (usize_len agents))"

section \<open>The parts the calls share\<close>

definition refused :: "call_env \<Rightarrow> canister_state \<Rightarrow> outcall_response option" where
  "refused env s =
     (if \<not> is_allowed (ce_caller env) s then Some (plain_response 403 ''caller is not allowed'')
      else if get_agents s = [] then Some (plain_response 503 ''no agents available'')
      else None)"

text \<open>The caller's account is charged what the call has lost since its start, and the call replies.\<close>

definition reply :: "call_env \<Rightarrow> u128 \<Rightarrow> nat \<Rightarrow> outcall_response \<Rightarrow> canister_place \<Rightarrow> call_result" where
  "reply env balance i res p =
     (Ok res, update_caller_state (ce_caller env) (balance - snd p) (ce_now env i div MILLISECONDS) (fst p), snd p)"

section \<open>One agent after the other\<close>

text \<open>
  The loop of \<open>proxy_http_request\<close>: agent number \<open>i\<close> is next, the segment began at \<open>c\<close>, the call is at
  \<open>p\<close>, and \<open>last_err\<close> is the last failure. \<open>n\<close> counts the segments.
\<close>

fun try_agents :: "cycles_accept \<Rightarrow> 'x uri_lib \<Rightarrow> call_env \<Rightarrow> calculator \<Rightarrow> outcall_request \<Rightarrow> u128
    \<Rightarrow> nat \<Rightarrow> agent list \<Rightarrow> canister_place \<Rightarrow> canister_place \<Rightarrow> outcall_response option \<Rightarrow> call_result" where
  "try_agents acc X env calc req balance i [] c p last_err =
     (case last_err of
        None \<Rightarrow> (Panic ''called `Option::unwrap()` on a `None` value'', c)
      | Some res \<Rightarrow> reply env balance i res p)"
| "try_agents acc X env calc req balance i (agent # rest) c p last_err =
     or_trap c (receive_cycles acc (http_outcall_request_cost calc (count_request_bytes calc req) 1) False p) (\<lambda>p.
     case suspend (call_awaits X agent req) (ce_others env i) c p of (c, p) \<Rightarrow>
       (case agent_call X (ce_outcall env i) agent req of
          Ok res \<Rightarrow>
            or_trap c (receive_cycles acc (http_outcall_response_cost calc (count_response_bytes calc res) 1) True p) (\<lambda>p.
              reply env balance (Suc i) res p)
        | Err res \<Rightarrow> try_agents acc X env calc req balance (Suc i) rest c p (Some res)
        | Panic m \<Rightarrow> (Panic m, c)))"

definition proxy_http_request :: "cycles_accept \<Rightarrow> 'x uri_lib \<Rightarrow> call_env \<Rightarrow> outcall_request
    \<Rightarrow> canister_place \<Rightarrow> call_result" where
  "proxy_http_request acc X env req p =
     (case refused env (fst p) of
        Some res \<Rightarrow> (Ok res, p)
      | None \<Rightarrow>
          (let agents = get_agents (fst p); balance = snd p; calc = cycles_calculator (fst p)
           in or_trap p (receive_cycles acc (ingress_cost calc (ce_arg_size env)) False p) (\<lambda>p'.
                try_agents acc X env calc req balance 0 agents p p' None)))"

section \<open>All agents at once\<close>

definition call_all :: "'x uri_lib \<Rightarrow> call_env \<Rightarrow> outcall_request \<Rightarrow> agent list
    \<Rightarrow> (outcall_response, outcall_response) outcome list" where
  "call_all X env req agents =
     map (\<lambda>(i, agent). agent_call X (ce_outcall env i) agent req) (enumerate 0 agents)"

text \<open>
  What the two parallel calls do up to the await: they charge for the argument and for all requests,
  and start all outcalls. \<open>k\<close> goes on with the calculator, the agents, where the segment began, and
  where the call is. A trap inside an outcall's future is one of the message.
\<close>

definition start_parallel :: "cycles_accept \<Rightarrow> 'x uri_lib \<Rightarrow> call_env \<Rightarrow> outcall_request \<Rightarrow> canister_place
    \<Rightarrow> (calculator \<Rightarrow> agent list \<Rightarrow> canister_place \<Rightarrow> canister_place \<Rightarrow> call_result) \<Rightarrow> call_result" where
  "start_parallel acc X env req p k =
     (case refused env (fst p) of
        Some res \<Rightarrow> (Ok res, p)
      | None \<Rightarrow>
          (let agents = get_agents (fst p); calc = cycles_calculator (fst p);
               cycles = ingress_cost calc (ce_arg_size env)
                 + http_outcall_request_cost calc (count_request_bytes calc req) (usize_len agents)
           in or_trap p (receive_cycles acc cycles False p) (\<lambda>p'.
             case suspend (list_ex (\<lambda>a. call_awaits X a req) agents) (ce_others env 0) p p' of
               (c, p') \<Rightarrow> k calc agents c p')))"

text \<open>The result of \<open>parallel_call_all_ok\<close> from the responses, the first of which is the base.\<close>

definition agreed_response :: "join_lib \<Rightarrow> outcall_response \<Rightarrow> outcall_response list \<Rightarrow> (outcall_response, string) outcome" where
  "agreed_response J base results =
     (let inconsistent = filter (\<lambda>result. result \<noteq> base) results
      in if inconsistent \<noteq> []
         then map_ok (plain_response 500)
           (expect ''failed to encode inconsistent results'' (jl_into_writer J (inconsistent @ [base])))
         else Ok base)"

text \<open>The parallel calls after the await, when the outcalls have returned: \<open>balance\<close> is what the call came with.\<close>

definition finish_all_ok :: "join_lib \<Rightarrow> cycles_accept \<Rightarrow> 'x uri_lib \<Rightarrow> call_env \<Rightarrow> outcall_request \<Rightarrow> u128
    \<Rightarrow> calculator \<Rightarrow> agent list \<Rightarrow> canister_place \<Rightarrow> canister_place \<Rightarrow> call_result" where
  "finish_all_ok J acc X env req balance calc agents c p =
     (case jl_try_join_all J (ce_order env) (call_all X env req agents) of
        Err res \<Rightarrow> reply env balance 1 res p
      | Panic m \<Rightarrow> (Panic m, c)
      | Ok res \<Rightarrow>
          (let (base, results) = (case res of [] \<Rightarrow> (plain_response 503 ''no agents available'', []) | b # r \<Rightarrow> (b, r));
               cycles = http_outcall_response_cost calc (count_response_bytes calc base) (usize_len agents)
           in or_trap c (receive_cycles acc cycles True p) (\<lambda>p.
              or_trap c (agreed_response J base results) (\<lambda>result. reply env balance 1 result p))))"

definition parallel_call_all_ok :: "join_lib \<Rightarrow> cycles_accept \<Rightarrow> 'x uri_lib \<Rightarrow> call_env \<Rightarrow> outcall_request
    \<Rightarrow> canister_place \<Rightarrow> call_result" where
  "parallel_call_all_ok J acc X env req p = start_parallel acc X env req p (finish_all_ok J acc X env req (snd p))"

definition finish_any_ok :: "join_lib \<Rightarrow> cycles_accept \<Rightarrow> 'x uri_lib \<Rightarrow> call_env \<Rightarrow> outcall_request \<Rightarrow> u128
    \<Rightarrow> calculator \<Rightarrow> agent list \<Rightarrow> canister_place \<Rightarrow> canister_place \<Rightarrow> call_result" where
  "finish_any_ok J acc X env req balance calc agents c p =
     (case jl_select_ok J (ce_order env) (call_all X env req agents) of
        Err res \<Rightarrow> reply env balance 1 res p
      | Panic m \<Rightarrow> (Panic m, c)
      | Ok res \<Rightarrow>
          or_trap c (receive_cycles acc
              (http_outcall_response_cost calc (count_response_bytes calc res) (usize_len agents)) True p) (\<lambda>p.
            reply env balance 1 res p))"

definition parallel_call_any_ok :: "join_lib \<Rightarrow> cycles_accept \<Rightarrow> 'x uri_lib \<Rightarrow> call_env \<Rightarrow> outcall_request
    \<Rightarrow> canister_place \<Rightarrow> call_result" where
  "parallel_call_any_ok J acc X env req p = start_parallel acc X env req p (finish_any_ok J acc X env req (snd p))"

section \<open>What is relied on\<close>

text \<open>
  The joins, for outcalls that return in the order \<open>ord\<close>: \<open>try_join_all\<close> gives all responses in the
  agents' order, or the first failure to arrive; \<open>select_ok\<close> gives the first success to arrive, or the
  last failure when all fail.
\<close>

definition joins_documented :: "join_lib \<Rightarrow> bool" where
  "joins_documented J \<longleftrightarrow>
     (\<forall>ord rs. set ord = {..<length rs} \<longrightarrow> distinct ord \<longrightarrow>
       (\<forall>xs. rs = map Ok xs \<longrightarrow> jl_try_join_all J ord rs = Ok xs) \<and>
       (\<forall>us i vs e. ord = us @ i # vs \<longrightarrow> (\<forall>j\<in>set us. \<exists>r. rs ! j = Ok r) \<longrightarrow> rs ! i = Err e \<longrightarrow>
          jl_try_join_all J ord rs = Err e) \<and>
       (\<forall>us i vs r. ord = us @ i # vs \<longrightarrow> (\<forall>j\<in>set us. \<exists>e. rs ! j = Err e) \<longrightarrow> rs ! i = Ok r \<longrightarrow>
          jl_select_ok J ord rs = Ok r) \<and>
       (\<forall>us i e. ord = us @ [i] \<longrightarrow> (\<forall>j\<in>set us. \<exists>e. rs ! j = Err e) \<longrightarrow> rs ! i = Err e \<longrightarrow>
          jl_select_ok J ord rs = Err e))"

section \<open>Lemmas\<close>

lemma or_trap_Ok [simp]: "or_trap c r k = (Ok y, q) \<longleftrightarrow> (\<exists>x. r = Ok x \<and> k x = (Ok y, q))"
  by (simp add: or_trap_def split: outcome.splits)

lemma or_trap_simps [simp]: "or_trap c (Ok x) k = k x" "or_trap c (Panic m) k = (Panic m, c)"
  by (simp_all add: or_trap_def)

lemma reply_Ok [simp]: "fst (reply env balance i res p) = Ok res"
  by (simp add: reply_def)

subsection \<open>Charging\<close>

text \<open>\<open>receive_cycles\<close> without its control flow, for the documented \<open>msg_cycles_accept128\<close>.\<close>

definition collect :: "u128 \<Rightarrow> canister_place \<Rightarrow> canister_place" where
  "collect n p =
     ((fst p)\<lparr>incoming_cycles := saturating_add (incoming_cycles (fst p)) (min (snd p) n),
        uncollectible_cycles := (if snd p < n then saturating_add (uncollectible_cycles (fst p)) (n - snd p)
                                 else uncollectible_cycles (fst p))\<rparr>, snd p - min (snd p) n)"

lemma saturating_add_0 [simp]: "saturating_add a 0 = a"
  by (simp add: saturating_add_def no_overflow_def)

lemma receive_cycles_eq:
  assumes "cycles_documented acc"
  shows "receive_cycles acc n ign p =
    (if snd p < n \<and> \<not> ign then Panic ''insufficient cycles'' else Ok (collect n p))"
proof (cases p)
  case (Pair s av)
  have acc: "acc av n = min av n" using assms by (simp add: cycles_documented_def)
  show ?thesis
  proof (cases "n = 0")
    case True
    then show ?thesis by (simp add: Pair receive_cycles_def collect_def)
  next
    case False
    show ?thesis
    proof (cases "av < n")
      case True
      then have "min av n = av" by (simp add: min_def less_imp_le)
      with True False show ?thesis by (simp add: Pair receive_cycles_def collect_def acc Let_def)
    next
      case le: False
      then have "min av n = n" by (auto simp: min_def)
      with le False show ?thesis by (simp add: Pair receive_cycles_def collect_def acc Let_def)
    qed
  qed
qed

text \<open>A place later in the same call: the callers are as before, and no cycles have come or gone.\<close>

definition cycles_total :: "canister_place \<Rightarrow> nat" where
  "cycles_total p = unat (incoming_cycles (fst p)) + unat (snd p)"

definition balanced :: "canister_place \<Rightarrow> canister_place \<Rightarrow> bool" where
  "balanced p q \<longleftrightarrow> snd q \<le> snd p \<and> cycles_total q = cycles_total p \<and> callers (fst q) = callers (fst p)"

lemma balanced_refl [simp]: "balanced p p"
  by (simp add: balanced_def)

lemma balanced_trans: "balanced p q \<Longrightarrow> balanced q r \<Longrightarrow> balanced p r"
  by (auto simp: balanced_def)

lemma balanced_total: "balanced p q \<Longrightarrow> cycles_total p < 2 ^ 128 \<Longrightarrow> cycles_total q < 2 ^ 128"
  by (simp add: balanced_def)

lemma balanced_collect:
  assumes "cycles_total p < 2 ^ 128"
  shows "balanced p (collect n p)"
proof -
  let ?m = "min (snd p) n"
  have le: "?m \<le> snd p" by simp
  have sub: "unat (snd p - ?m) = unat (snd p) - unat ?m" using le by (simp add: unat_sub)
  have "unat ?m \<le> unat (snd p)" using le by (simp add: word_le_nat_alt)
  with assms have inc: "unat (saturating_add (incoming_cycles (fst p)) ?m) = unat (incoming_cycles (fst p)) + unat ?m"
    by (intro saturating_add_exact) (simp add: cycles_total_def)
  show ?thesis
    using le \<open>unat ?m \<le> unat (snd p)\<close> sub
    by (simp add: balanced_def cycles_total_def collect_def inc word_le_nat_alt)
qed

subsection \<open>One agent after the other\<close>

text \<open>The first success, or else the last failure.\<close>

fun failover :: "outcall_response option \<Rightarrow> (outcall_response, outcall_response) outcome list \<Rightarrow> outcall_response option" where
  "failover last_err [] = last_err"
| "failover last_err (Ok r # rs) = Some r"
| "failover last_err (Err e # rs) = failover (Some e) rs"
| "failover last_err (Panic m # rs) = None"

lemma try_agents_failover:
  "try_agents acc X env calc req balance i as c p last_err = (Ok res, q) \<Longrightarrow>
     failover last_err (map (\<lambda>(j, a). agent_call X (ce_outcall env j) a req) (enumerate i as)) = Some res"
proof (induction as arbitrary: i c p last_err)
  case Nil
  then show ?case by (auto simp: reply_def split: option.splits)
next
  case (Cons a as)
  show ?case
  proof (cases "agent_call X (ce_outcall env i) a req")
    case (Err e)
    with Cons.prems obtain p1 where "try_agents acc X env calc req balance (Suc i) as
        (fst (suspend (call_awaits X a req) (ce_others env i) c p1))
        (snd (suspend (call_awaits X a req) (ce_others env i) c p1)) (Some e) = (Ok res, q)"
      by (auto simp: split_beta)
    from Cons.IH [OF this] Err show ?thesis by simp
  qed (use Cons.prems in \<open>auto simp: reply_def split_beta\<close>)
qed

lemma failover_cases:
  "failover last_err rs = Some res \<Longrightarrow>
     (\<exists>i<length rs. rs ! i = Ok res \<and> (\<forall>j<i. \<exists>e. rs ! j = Err e)) \<or>
     (\<forall>r\<in>set rs. \<exists>e. r = Err e) \<and> (if rs = [] then last_err = Some res else last rs = Err res)"
proof (induction last_err rs rule: failover.induct)
  case (2 last_err r rs)
  then show ?case by auto
next
  case (3 last_err e rs)
  from 3 have "(\<exists>i<length rs. rs ! i = Ok res \<and> (\<forall>j<i. \<exists>e. rs ! j = Err e)) \<or>
     (\<forall>r\<in>set rs. \<exists>e. r = Err e) \<and> (if rs = [] then Some e = Some res else last rs = Err res)" by simp
  then show ?case
  proof
    assume "\<exists>i<length rs. rs ! i = Ok res \<and> (\<forall>j<i. \<exists>e. rs ! j = Err e)"
    then obtain i where i: "i < length rs" "rs ! i = Ok res" "\<forall>j<i. \<exists>e. rs ! j = Err e" by blast
    then have "\<forall>j<Suc i. \<exists>e'. (Err e # rs) ! j = Err e'" by (auto simp: less_Suc_eq_0_disj)
    with i have "\<exists>i<length (Err e # rs). (Err e # rs) ! i = Ok res \<and> (\<forall>j<i. \<exists>e'. (Err e # rs) ! j = Err e')"
      by (intro exI [of _ "Suc i"]) simp
    then show ?thesis by blast
  next
    assume "(\<forall>r\<in>set rs. \<exists>e. r = Err e) \<and> (if rs = [] then Some e = Some res else last rs = Err res)"
    then show ?thesis by (intro disjI2) (auto split: if_splits)
  qed
qed auto

lemma proxy_http_request_failover:
  assumes "refused env s = None" and "proxy_http_request acc X env req (s, av) = (Ok res, q)"
  shows "let rs = call_all X env req (cs_agents s) in
    (\<exists>i<length rs. rs ! i = Ok res \<and> (\<forall>j<i. \<exists>e. rs ! j = Err e)) \<or>
    (\<forall>r\<in>set rs. \<exists>e. r = Err e) \<and> last rs = Err res"
proof -
  from assms obtain calc bal p where
    "try_agents acc X env calc req bal 0 (cs_agents s) (s, av) p None = (Ok res, q)"
    by (auto simp: proxy_http_request_def get_agents_def Let_def)
  from failover_cases [OF try_agents_failover [OF this]] show ?thesis
    unfolding call_all_def Let_def by (auto split: if_splits)
qed

lemma suspend_undisturbed:
  "suspend b (\<lambda>s. s) c p = (c', p') \<Longrightarrow> p' = p \<and> (c' = c \<or> c' = p)"
  by (auto simp: suspend_def split: if_splits)

text \<open>What a call leaves: cycles are conserved, and a reply has charged them to the caller's account.\<close>

definition settled :: "call_env \<Rightarrow> canister_place \<Rightarrow> call_result \<Rightarrow> bool" where
  "settled env p0 r \<longleftrightarrow>
     (case r of (result, s', av') \<Rightarrow>
        av' \<le> snd p0 \<and> cycles_total (s', av') = cycles_total p0 \<and>
        (case (result, callers (fst p0) (ce_caller env)) of
           (Ok res, Some (c, t)) \<Rightarrow>
             (\<exists>t'. callers s' = (callers (fst p0))(ce_caller env \<mapsto> (saturating_add c (snd p0 - av'), t')))
         | _ \<Rightarrow> callers s' = callers (fst p0)))"

lemma settled_reply: "balanced p0 p \<Longrightarrow> settled env p0 (reply env (snd p0) i res p)"
  by (auto simp: settled_def reply_def balanced_def update_caller_state_def cycles_total_def Let_def split: option.splits)

lemma settled_trap:
  "balanced p0 c \<Longrightarrow> settled env p0 (Panic m, c)" "balanced p0 c \<Longrightarrow> settled env p0 (Err e, c)"
  by (auto simp: settled_def balanced_def cycles_total_def Let_def)

lemma settled_or_trap:
  assumes "cycles_documented acc" and "balanced p0 c" and "balanced p0 p" and "cycles_total p0 < 2 ^ 128"
    and "\<And>q. balanced p0 q \<Longrightarrow> settled env p0 (k q)"
  shows "settled env p0 (or_trap c (receive_cycles acc n ign p) k)"
proof -
  have "balanced p0 (collect n p)"
    using balanced_trans [OF assms(3) balanced_collect] balanced_total [OF assms(3,4)] by blast
  with assms(2,5) show ?thesis
    by (simp add: receive_cycles_eq [OF assms(1)] settled_trap)
qed

lemma settled_try_agents:
  assumes "cycles_documented acc" and "\<And>i. ce_others env i = (\<lambda>s. s)" and "cycles_total p0 < 2 ^ 128"
  shows "balanced p0 c \<Longrightarrow> balanced p0 p \<Longrightarrow>
    settled env p0 (try_agents acc X env calc req (snd p0) i as c p last_err)"
proof (induction as arbitrary: i c p last_err)
  case Nil
  then show ?case by (auto simp: settled_reply settled_trap split: option.splits)
next
  case (Cons a as)
  show ?case
    unfolding try_agents.simps
  proof (rule settled_or_trap [OF assms(1) Cons.prems(1,2) assms(3)])
    fix q
    assume q: "balanced p0 q"
    obtain c' p' where sus: "suspend (call_awaits X a req) (ce_others env i) c q = (c', p')"
      by (rule prod.exhaust)
    with suspend_undisturbed assms(2) q Cons.prems(1) have b: "balanced p0 c'" "balanced p0 p'" by metis+
    have ok: "settled env p0 (or_trap c' (receive_cycles acc n True p') (reply env (snd p0) (Suc i) res))" for n res
      by (rule settled_or_trap [OF assms(1) b assms(3)]) (rule settled_reply)
    from Cons.IH [OF b] ok b show "settled env p0
      (case suspend (call_awaits X a req) (ce_others env i) c q of (c, p) \<Rightarrow>
         case agent_call X (ce_outcall env i) a req of
           Ok res \<Rightarrow> or_trap c (receive_cycles acc (http_outcall_response_cost calc (count_response_bytes calc res) 1) True p)
             (\<lambda>p. reply env (snd p0) (Suc i) res p)
         | Err res \<Rightarrow> try_agents acc X env calc req (snd p0) (Suc i) as c p (Some res)
         | Panic m \<Rightarrow> (Panic m, c))"
      by (simp add: sus settled_trap split: outcome.split)
  qed
qed

subsection \<open>All agents at once\<close>

lemma settled_start_parallel:
  assumes "cycles_documented acc" and "\<And>i. ce_others env i = (\<lambda>s. s)" and "cycles_total p < 2 ^ 128"
    and "refused env (fst p) = None"
    and "\<And>calc as c q. balanced p c \<Longrightarrow> balanced p q \<Longrightarrow> settled env p (k calc as c q)"
  shows "settled env p (start_parallel acc X env req p k)"
  unfolding start_parallel_def assms(4) option.case Let_def
proof (rule settled_or_trap [OF assms(1) balanced_refl balanced_refl assms(3)])
  fix q
  let ?as = "get_agents (fst p)" and ?calc = "cycles_calculator (fst p)"
  assume q: "balanced p q"
  obtain c' p' where sus: "suspend (list_ex (\<lambda>a. call_awaits X a req) ?as) (ce_others env 0) p q = (c', p')"
    by (rule prod.exhaust)
  with suspend_undisturbed assms(2) q balanced_refl have "balanced p c'" "balanced p p'" by metis+
  then show "settled env p (case suspend (list_ex (\<lambda>a. call_awaits X a req) ?as) (ce_others env 0) p q of
      (c, p') \<Rightarrow> k ?calc ?as c p')"
    using assms(5) by (simp add: sus)
qed

lemma settled_calls:
  assumes "cycles_documented acc" and "\<And>i. ce_others env i = (\<lambda>s. s)" and "cycles_total p < 2 ^ 128"
    and "refused env (fst p) = None"
  shows "settled env p (proxy_http_request acc X env req p)"
    and "settled env p (parallel_call_all_ok J acc X env req p)"
    and "settled env p (parallel_call_any_ok J acc X env req p)"
proof -
  show "settled env p (proxy_http_request acc X env req p)"
    unfolding proxy_http_request_def assms(4) option.case Let_def
    by (rule settled_or_trap [OF assms(1) balanced_refl balanced_refl assms(3)])
      (rule settled_try_agents [OF assms(1-3) balanced_refl])
  note or_trap = settled_or_trap [OF assms(1) _ _ assms(3)]
  show "settled env p (parallel_call_all_ok J acc X env req p)"
    unfolding parallel_call_all_ok_def
  proof (rule settled_start_parallel [OF assms])
    fix calc as c q
    assume b: "balanced p c" "balanced p q"
    have "settled env p (or_trap c (agreed_response J base rs) (\<lambda>result. reply env (snd p) 1 result q'))"
      if "balanced p q'" for base rs q'
      using settled_reply [OF that] settled_trap [OF b(1)]
      by (cases "agreed_response J base rs") (auto simp: agreed_response_def Let_def or_trap_def split: if_splits)
    then show "settled env p (finish_all_ok J acc X env req (snd p) calc as c q)"
      using settled_reply [OF b(2)] settled_trap [OF b(1)] or_trap [OF b]
      by (auto simp: finish_all_ok_def Let_def split: outcome.split prod.split)
  qed
  show "settled env p (parallel_call_any_ok J acc X env req p)"
    unfolding parallel_call_any_ok_def
  proof (rule settled_start_parallel [OF assms])
    fix calc as c q
    assume b: "balanced p c" "balanced p q"
    show "settled env p (finish_any_ok J acc X env req (snd p) calc as c q)"
      using settled_reply settled_reply [OF b(2)] settled_trap [OF b(1)] or_trap [OF b]
      by (auto simp: finish_any_ok_def split: outcome.split)
  qed
qed

text \<open>What the joins give, for outcalls that return in some order and do not panic.\<close>

lemma joins_documentedD:
  assumes "joins_documented J" and "set ord = {..<length rs}" and "distinct ord"
  shows "rs = map Ok xs \<Longrightarrow> jl_try_join_all J ord rs = Ok xs"
    and "ord = us @ i # vs \<Longrightarrow> \<forall>j\<in>set us. \<exists>r. rs ! j = Ok r \<Longrightarrow> rs ! i = Err e \<Longrightarrow> jl_try_join_all J ord rs = Err e"
    and "ord = us @ i # vs \<Longrightarrow> \<forall>j\<in>set us. \<exists>e. rs ! j = Err e \<Longrightarrow> rs ! i = Ok r \<Longrightarrow> jl_select_ok J ord rs = Ok r"
    and "ord = us @ [i] \<Longrightarrow> \<forall>j\<in>set us. \<exists>e. rs ! j = Err e \<Longrightarrow> rs ! i = Err e \<Longrightarrow> jl_select_ok J ord rs = Err e"
proof -
  note d = assms(1) [unfolded joins_documented_def, THEN spec, THEN spec, THEN mp, OF assms(2), THEN mp, OF assms(3)]
  show "rs = map Ok xs \<Longrightarrow> jl_try_join_all J ord rs = Ok xs" using d by blast
  show "ord = us @ i # vs \<Longrightarrow> \<forall>j\<in>set us. \<exists>r. rs ! j = Ok r \<Longrightarrow> rs ! i = Err e \<Longrightarrow> jl_try_join_all J ord rs = Err e"
    using d by blast
  show "ord = us @ i # vs \<Longrightarrow> \<forall>j\<in>set us. \<exists>e. rs ! j = Err e \<Longrightarrow> rs ! i = Ok r \<Longrightarrow> jl_select_ok J ord rs = Ok r"
    using d by blast
  show "ord = us @ [i] \<Longrightarrow> \<forall>j\<in>set us. \<exists>e. rs ! j = Err e \<Longrightarrow> rs ! i = Err e \<Longrightarrow> jl_select_ok J ord rs = Err e"
    using d by blast
qed

text \<open>Results in the order of arrival: up to the first that is \<open>P\<close>, or to the end.\<close>

lemma first_arrival:
  assumes "set ord = {..<length rs}"
  shows "(\<exists>us i vs. ord = us @ i # vs \<and> P (rs ! i) \<and> rs ! i \<in> set rs \<and> (\<forall>j\<in>set us. \<not> P (rs ! j) \<and> rs ! j \<in> set rs)) \<or>
    (\<forall>r\<in>set rs. \<not> P r)"
proof (cases "\<exists>i\<in>set ord. P (rs ! i)")
  case True
  from split_list_first_prop [OF this] obtain us i vs where
    o: "ord = us @ i # vs" and p: "P (rs ! i)" and n: "\<forall>j\<in>set us. \<not> P (rs ! j)" by blast
  from o assms have "i < length rs" "\<forall>j\<in>set us. j < length rs" by auto
  with o p n show ?thesis by (metis nth_mem)
next
  case False
  with assms show ?thesis by (metis in_set_conv_nth lessThan_iff)
qed

lemma not_panic: "\<not> is_panic r \<Longrightarrow> (\<exists>x. r = Ok x) \<or> (\<exists>e. r = Err e)"
  by (cases r) auto

lemma try_join_all_cases:
  assumes J: "joins_documented J" "set ord = {..<length rs}" "distinct ord" and np: "\<forall>r\<in>set rs. \<not> is_panic r"
  shows "(\<exists>xs. rs = map Ok xs \<and> jl_try_join_all J ord rs = Ok xs) \<or>
    (\<exists>e. jl_try_join_all J ord rs = Err e \<and> Err e \<in> set rs)"
  using first_arrival [OF J(2), of "\<lambda>r. \<exists>e. r = Err e"]
proof
  assume "\<exists>us i vs. ord = us @ i # vs \<and> (\<exists>e. rs ! i = Err e) \<and> rs ! i \<in> set rs \<and>
    (\<forall>j\<in>set us. \<not> (\<exists>e. rs ! j = Err e) \<and> rs ! j \<in> set rs)"
  then obtain us i vs e where o: "ord = us @ i # vs" and e: "rs ! i = Err e" "Err e \<in> set rs" and
    u: "\<forall>j\<in>set us. \<not> (\<exists>e. rs ! j = Err e) \<and> rs ! j \<in> set rs" by auto
  have "\<forall>j\<in>set us. \<exists>r. rs ! j = Ok r"
  proof
    fix j
    assume "j \<in> set us"
    with u np not_panic [of "rs ! j"] show "\<exists>r. rs ! j = Ok r" by blast
  qed
  from joins_documentedD(2) [OF J o this e(1)] e(2) show ?thesis by blast
next
  assume "\<forall>r\<in>set rs. \<not> (\<exists>e. r = Err e)"
  with np not_panic have "\<forall>r\<in>set rs. \<exists>x. r = Ok x" by blast
  then obtain xs where "rs = map Ok xs" using ex_map_conv [of rs Ok] by metis
  from joins_documentedD(1) [OF J this] this show ?thesis by blast
qed

lemma select_ok_cases:
  assumes J: "joins_documented J" "set ord = {..<length rs}" "distinct ord" and np: "\<forall>r\<in>set rs. \<not> is_panic r"
    and ne: "rs \<noteq> []"
  shows "(\<exists>r. jl_select_ok J ord rs = Ok r \<and> Ok r \<in> set rs) \<or>
    (\<exists>e. jl_select_ok J ord rs = Err e \<and> Err e \<in> set rs \<and> (\<forall>r\<in>set rs. \<exists>e. r = Err e))"
  using first_arrival [OF J(2), of "\<lambda>r. \<exists>x. r = Ok x"]
proof
  assume "\<exists>us i vs. ord = us @ i # vs \<and> (\<exists>x. rs ! i = Ok x) \<and> rs ! i \<in> set rs \<and>
    (\<forall>j\<in>set us. \<not> (\<exists>x. rs ! j = Ok x) \<and> rs ! j \<in> set rs)"
  then obtain us i vs x where o: "ord = us @ i # vs" and x: "rs ! i = Ok x" "Ok x \<in> set rs" and
    u: "\<forall>j\<in>set us. \<not> (\<exists>x. rs ! j = Ok x) \<and> rs ! j \<in> set rs" by auto
  have "\<forall>j\<in>set us. \<exists>e. rs ! j = Err e"
  proof
    fix j
    assume "j \<in> set us"
    with u np not_panic [of "rs ! j"] show "\<exists>e. rs ! j = Err e" by blast
  qed
  from joins_documentedD(3) [OF J o this x(1)] x(2) show ?thesis by blast
next
  assume "\<forall>r\<in>set rs. \<not> (\<exists>x. r = Ok x)"
  with np not_panic have all: "\<forall>r\<in>set rs. \<exists>e. r = Err e" by blast
  obtain us i where o: "ord = us @ [i]" using J(2) ne by (cases ord rule: rev_cases) auto
  with J(2) have i: "i < length rs" and us: "\<forall>j\<in>set us. j < length rs" by auto
  from all i obtain e where e: "rs ! i = Err e" by (meson nth_mem)
  moreover have "\<forall>j\<in>set us. \<exists>e. rs ! j = Err e" using all us by (meson nth_mem)
  ultimately have "jl_select_ok J ord rs = Err e" using joins_documentedD(4) [OF J o] by blast
  moreover have "Err e \<in> set rs" using i e by (metis nth_mem)
  ultimately show ?thesis using all by blast
qed

lemma length_call_all [simp]: "length (call_all X env req as) = length as"
  by (simp add: call_all_def)

lemma agent_call_Err_status: "agent_call X f a req = Err e \<Longrightarrow> 500 < or_status e"
  by (auto simp: agent_call_def outcall_error_def split: outcome.splits if_splits)

lemma call_all_Err_status: "Err e \<in> set (call_all X env req as) \<Longrightarrow> 500 < or_status e"
  by (auto simp: call_all_def dest: agent_call_Err_status dest!: sym [of "Err e"])

subsection \<open>Prices\<close>

lemma price_bounds:
  assumes "unat (subnet_size c) \<le> 2 ^ 20"
  shows "unat (ingress_cost c i) < 2 ^ 96" "unat (http_outcall_request_cost c b d) < 2 ^ 97"
    "unat (http_outcall_response_cost c r d) < 2 ^ 96"
proof -
  let ?n = "unat (subnet_size c)"
  have nd: "?n * unat d \<le> 2 ^ 20 * 2 ^ 32" using assms usize_less [of d] by (intro mult_mono) simp_all
  have "(1200000 + 2000 * unat i) * ?n \<le> (1200000 + 2000 * 2 ^ 32) * 2 ^ 20"
    using assms usize_less [of i] by (intro mult_mono) simp_all
  then show "unat (ingress_cost c i) < 2 ^ 96" by (simp add: ingress_cost_exact [OF assms] spec_ingress_def)
  have "(3000000 + 60000 * ?n + 400 * (150 + unat b) + 1000000) * (?n * unat d) \<le> 2 ^ 43 * (2 ^ 20 * 2 ^ 32)"
    by (rule mult_le_mono [OF _ nd]) (use assms usize_less [of b] in simp)
  then show "unat (http_outcall_request_cost c b d) < 2 ^ 97"
    using u64_less [of "service_fee c"] by (simp add: request_cost_exact [OF assms] spec_request_def)
  have "800 * unat r * (?n * unat d) \<le> 800 * 2 ^ 32 * (2 ^ 20 * 2 ^ 32)"
    by (rule mult_le_mono [OF _ nd]) (use usize_less [of r] in simp)
  then show "unat (http_outcall_response_cost c r d) < 2 ^ 96"
    by (simp add: response_cost_exact [OF assms] spec_response_def)
qed

lemma response_cost_mono:
  "unat (subnet_size c) \<le> 2 ^ 20 \<Longrightarrow> b \<le> b' \<Longrightarrow> http_outcall_response_cost c b d \<le> http_outcall_response_cost c b' d"
  by (simp add: word_le_nat_alt response_cost_exact spec_response_def)

lemma collect_collect:
  assumes "n \<le> snd p" and "m \<le> snd p - n" and "unat n + unat m < 2 ^ 128"
  shows "collect m (collect n p) = collect (n + m) p"
proof -
  have nm: "unat (n + m) = unat n + unat m" using assms(3) by (subst unat_add_exact) simp_all
  have "unat (snd p - n) = unat (snd p) - unat n" using assms(1) by (simp add: unat_sub)
  with assms(1,2) nm have le: "n + m \<le> snd p" by (simp add: word_le_nat_alt)
  have "saturating_add (saturating_add i n) m = saturating_add i (n + m)" for i
    by (simp add: word_unat_eq_iff unat_saturating_add nm)
  with assms(1,2) le show ?thesis
    by (simp add: collect_def min_absorb2 not_less [symmetric] diff_diff_add)
qed

lemma collect_enough:
  assumes "n \<le> snd p"
  shows "snd (collect n p) = snd p - n" "uncollectible_cycles (fst (collect n p)) = uncollectible_cycles (fst p)"
  using assms by (simp_all add: collect_def min_absorb2 not_less [symmetric])

subsection \<open>Replies\<close>

lemma refused_None: "refused env s = None \<longleftrightarrow> is_allowed (ce_caller env) s \<and> cs_agents s \<noteq> []"
  by (simp add: refused_def get_agents_def)

lemma start_parallel_Ok:
  assumes "start_parallel acc X env req (s, av) k = (Ok res, q)" and "refused env s = None"
  shows "\<exists>calc c p. k calc (cs_agents s) c p = (Ok res, q)"
proof -
  let ?s = "suspend (list_ex (\<lambda>a. call_awaits X a req) (cs_agents s)) (ce_others env 0) (s, av)"
  from assms obtain p where "k (cycles_calculator s) (cs_agents s) (fst (?s p)) (snd (?s p)) = (Ok res, q)"
    by (auto simp: start_parallel_def get_agents_def Let_def split_beta)
  then show ?thesis by blast
qed

text \<open>The reply of \<open>parallel_call_all_ok\<close>: a failure, or what the responses agree on.\<close>

lemma all_ok_reply:
  assumes "joins_documented J" and "set (ce_order env) = {..<length (cs_agents s)}" and "distinct (ce_order env)"
    and "\<forall>r\<in>set (call_all X env req (cs_agents s)). \<not> is_panic r"
    and "refused env s = None" and "parallel_call_all_ok J acc X env req (s, av) = (Ok res, q)"
  shows "(\<exists>base rest. call_all X env req (cs_agents s) = map Ok (base # rest) \<and> agreed_response J base rest = Ok res) \<or>
    Err res \<in> set (call_all X env req (cs_agents s))"
proof -
  let ?rs = "call_all X env req (cs_agents s)"
  from start_parallel_Ok [OF assms(6) [unfolded parallel_call_all_ok_def] assms(5)] obtain calc c p where
    k: "finish_all_ok J acc X env req av calc (cs_agents s) c p = (Ok res, q)" by auto
  from try_join_all_cases [OF assms(1) _ assms(3,4)] assms(2)
  consider (all) xs where "?rs = map Ok xs" "jl_try_join_all J (ce_order env) ?rs = Ok xs"
    | (failed) e where "jl_try_join_all J (ce_order env) ?rs = Err e" "Err e \<in> set ?rs" by auto
  then show ?thesis
  proof cases
    case all
    have "length xs = length (cs_agents s)" using all(1) length_call_all by (metis length_map)
    with assms(5) obtain base rest where xs: "xs = base # rest"
      using refused_None by (metis length_0_conv neq_Nil_conv)
    with k all(2) have "agreed_response J base rest = Ok res" by (auto simp: finish_all_ok_def reply_def Let_def)
    with xs all(1) show ?thesis by blast
  next
    case failed
    with k show ?thesis by (auto simp: finish_all_ok_def reply_def)
  qed
qed

text \<open>The reply of \<open>parallel_call_any_ok\<close>: one agent's success, or one's failure.\<close>

lemma any_ok_reply:
  assumes "joins_documented J" and "set (ce_order env) = {..<length (cs_agents s)}" and "distinct (ce_order env)"
    and "\<forall>r\<in>set (call_all X env req (cs_agents s)). \<not> is_panic r"
    and "refused env s = None" and "parallel_call_any_ok J acc X env req (s, av) = (Ok res, q)"
  shows "Ok res \<in> set (call_all X env req (cs_agents s)) \<or> Err res \<in> set (call_all X env req (cs_agents s))"
proof -
  let ?rs = "call_all X env req (cs_agents s)"
  from start_parallel_Ok [OF assms(6) [unfolded parallel_call_any_ok_def] assms(5)] obtain calc c p where
    k: "finish_any_ok J acc X env req av calc (cs_agents s) c p = (Ok res, q)" by auto
  have "?rs \<noteq> []" using assms(5) refused_None length_call_all by (metis length_0_conv)
  from select_ok_cases [OF assms(1) _ assms(3,4) this] assms(2)
  consider (won) r where "jl_select_ok J (ce_order env) ?rs = Ok r" "Ok r \<in> set ?rs"
    | (lost) e where "jl_select_ok J (ce_order env) ?rs = Err e" "Err e \<in> set ?rs" by auto
  then show ?thesis using k by cases (auto simp: finish_any_ok_def reply_def)
qed

lemma agreed_response_Ok:
  assumes "agreed_response J base rest = Ok res"
  shows "(\<forall>r\<in>set rest. r = base) \<and> res = base \<or> or_status res = 500 \<and> \<not> (\<forall>r\<in>set rest. r = base)"
proof (cases "\<forall>r\<in>set rest. r = base")
  case True
  then have "filter (\<lambda>result. result \<noteq> base) rest = []" by simp
  with assms True show ?thesis by (simp add: agreed_response_def)
next
  case False
  then have "filter (\<lambda>result. result \<noteq> base) rest \<noteq> []" by (simp add: filter_empty_conv)
  with assms False show ?thesis
    by (auto simp: agreed_response_def Let_def plain_response_def)
qed

text \<open>The parallel calls when the cycles are enough: where they are when the outcalls have returned.\<close>

lemma start_parallel_paid:
  assumes "cycles_documented acc" and "refused env s = None" and "\<And>i. ce_others env i = (\<lambda>s. s)"
    and "ingress_cost (cycles_calculator s) (ce_arg_size env) +
      http_outcall_request_cost (cycles_calculator s) (count_request_bytes (cycles_calculator s) req)
        (usize_len (cs_agents s)) \<le> av" (is "?n \<le> av")
  shows "\<exists>c\<in>{(s, av), collect ?n (s, av)}.
    start_parallel acc X env req (s, av) k = k (cycles_calculator s) (cs_agents s) c (collect ?n (s, av))"
proof -
  let ?awaits = "list_ex (\<lambda>a. call_awaits X a req) (cs_agents s)"
  have "\<not> av < ?n" using assms(4) by (simp add: not_less)
  with assms(2) have "start_parallel acc X env req (s, av) k = k (cycles_calculator s) (cs_agents s)
      (if ?awaits then collect ?n (s, av) else (s, av)) (collect ?n (s, av))"
    by (simp add: start_parallel_def get_agents_def Let_def receive_cycles_eq [OF assms(1)] suspend_def assms(3))
  then show ?thesis by (cases ?awaits) simp_all
qed

lemma start_parallel_paid_rule:
  assumes "cycles_documented acc" and "refused env s = None" and "\<And>i. ce_others env i = (\<lambda>s. s)"
    and "ingress_cost (cycles_calculator s) (ce_arg_size env) +
      http_outcall_request_cost (cycles_calculator s) (count_request_bytes (cycles_calculator s) req)
        (usize_len (cs_agents s)) \<le> av"
    and "\<And>n c. n = ingress_cost (cycles_calculator s) (ce_arg_size env) +
      http_outcall_request_cost (cycles_calculator s) (count_request_bytes (cycles_calculator s) req)
        (usize_len (cs_agents s)) \<Longrightarrow> c = (s, av) \<or> c = collect n (s, av) \<Longrightarrow>
      P (k (cycles_calculator s) (cs_agents s) c (collect n (s, av)))"
  shows "P (start_parallel acc X env req (s, av) k)"
proof -
  from start_parallel_paid [OF assms(1-4), of X k] obtain c where
    c: "c \<in> {(s, av), collect (ingress_cost (cycles_calculator s) (ce_arg_size env) +
      http_outcall_request_cost (cycles_calculator s) (count_request_bytes (cycles_calculator s) req)
        (usize_len (cs_agents s))) (s, av)}" and
    e: "start_parallel acc X env req (s, av) k = k (cycles_calculator s) (cs_agents s) c
      (collect (ingress_cost (cycles_calculator s) (ce_arg_size env) +
        http_outcall_request_cost (cycles_calculator s) (count_request_bytes (cycles_calculator s) req)
          (usize_len (cs_agents s))) (s, av))" by (rule bexE)
  show ?thesis unfolding e by (rule assms(5) [OF refl]) (use c in blast)
qed

text \<open>Enough cycles for several prices, one after the other.\<close>

lemma collect_plenty:
  assumes "unat n < 2 ^ 97" and "2 ^ 97 * Suc k \<le> unat (snd p)"
  shows "\<not> snd p < n" and "2 ^ 97 * k \<le> unat (snd (collect n p))"
proof -
  have le: "n \<le> snd p" using assms by (simp add: word_le_nat_alt)
  then show "\<not> snd p < n" by (simp add: not_less)
  show "2 ^ 97 * k \<le> unat (snd (collect n p))"
    using assms le by (simp add: collect_enough(1) unat_sub)
qed

text \<open>One turn of the sequential loop, with enough cycles and nobody else at work.\<close>

lemma try_agents_turn:
  assumes "cycles_documented acc" and "\<And>i. ce_others env i = (\<lambda>s. s)"
    and "\<not> snd p < http_outcall_request_cost calc (count_request_bytes calc req) 1" (is "\<not> snd p < ?n")
  shows "agent_call X (ce_outcall env i) a req = Err e \<Longrightarrow>
      \<exists>c'. try_agents acc X env calc req bal i (a # as) c p last_err =
        try_agents acc X env calc req bal (Suc i) as c' (collect ?n p) (Some e)"
    and "agent_call X (ce_outcall env i) a req = Ok res \<Longrightarrow>
      try_agents acc X env calc req bal i (a # as) c p last_err =
        reply env bal (Suc i) res
          (collect (http_outcall_response_cost calc (count_response_bytes calc res) 1) (collect ?n p))"
proof -
  have "agent_call X (ce_outcall env i) a req = Err e \<Longrightarrow>
      try_agents acc X env calc req bal i (a # as) c p last_err =
        try_agents acc X env calc req bal (Suc i) as (if call_awaits X a req then collect ?n p else c) (collect ?n p) (Some e)"
    using assms(3) by (simp add: receive_cycles_eq [OF assms(1)] suspend_def assms(2))
  then show "agent_call X (ce_outcall env i) a req = Err e \<Longrightarrow>
      \<exists>c'. try_agents acc X env calc req bal i (a # as) c p last_err =
        try_agents acc X env calc req bal (Suc i) as c' (collect ?n p) (Some e)" by blast
  show "agent_call X (ce_outcall env i) a req = Ok res \<Longrightarrow>
      try_agents acc X env calc req bal i (a # as) c p last_err =
        reply env bal (Suc i) res
          (collect (http_outcall_response_cost calc (count_response_bytes calc res) 1) (collect ?n p))"
    using assms(3) by (simp add: receive_cycles_eq [OF assms(1)] suspend_def assms(2))
qed

end
