(* ===== verification/Api_Properties.thy ===== *)
theory Api_Properties
  imports Canister_Api
begin

text \<open>
  What the calls of the canister guarantee (\<open>api.rs\<close>, modelled in \<open>Canister_Api\<close>): refusals, failover,
  agreement, and the accounting of cycles. The witnesses run a canister with two agents on a subnet of
  13 nodes.
\<close>

section \<open>A sample canister and its calls\<close>

definition sample_joins :: join_lib where
  "sample_joins = \<lparr>
     jl_try_join_all = (\<lambda>ord rs. case find (\<lambda>i. case rs ! i of Err e \<Rightarrow> True | _ \<Rightarrow> False) ord of
        Some i \<Rightarrow> (case rs ! i of Err e \<Rightarrow> Err e | _ \<Rightarrow> Ok [])
      | None \<Rightarrow> Ok (map (\<lambda>r. case r of Ok x \<Rightarrow> x | _ \<Rightarrow> plain_response 0 []) rs)),
     jl_select_ok = (\<lambda>ord rs. case find (\<lambda>i. case rs ! i of Ok x \<Rightarrow> True | _ \<Rightarrow> False) ord of
        Some i \<Rightarrow> rs ! i
      | None \<Rightarrow> rs ! last ord),
     jl_into_writer = (\<lambda>rs. Ok (concat (map or_body rs)))\<rparr>"

lemma sample_joins_documented: "joins_documented sample_joins"
proof -
  have f: "find P (us @ i # vs) = Some i" if "\<forall>j\<in>set us. \<not> P j" "P i" for P :: "nat \<Rightarrow> bool" and us i vs
    using that by (induction us) auto
  have n: "find P xs = None" if "\<forall>j\<in>set xs. \<not> P j" for P :: "nat \<Rightarrow> bool" and xs
    using that by (induction xs) auto
  show ?thesis
    unfolding joins_documented_def
  proof (intro allI impI conjI)
    fix ord and rs :: "(outcall_response, outcall_response) outcome list" and xs
    assume o: "set ord = {..<length rs}" and rs: "rs = map Ok xs"
    have "find (\<lambda>i. case rs ! i of Err e \<Rightarrow> True | _ \<Rightarrow> False) ord = None" using o by (intro n) (simp add: rs)
    then show "jl_try_join_all sample_joins ord rs = Ok xs" by (simp add: sample_joins_def rs o_def)
  next
    fix ord and rs :: "(outcall_response, outcall_response) outcome list" and us i vs e
    assume o: "ord = us @ i # vs" and u: "\<forall>j\<in>set us. \<exists>r. rs ! j = Ok r" and i: "rs ! i = Err e"
    have "find (\<lambda>i. case rs ! i of Err e \<Rightarrow> True | _ \<Rightarrow> False) ord = Some i" unfolding o using u i by (intro f) auto
    then show "jl_try_join_all sample_joins ord rs = Err e" by (simp add: sample_joins_def i)
  next
    fix ord and rs :: "(outcall_response, outcall_response) outcome list" and us i vs r
    assume o: "ord = us @ i # vs" and u: "\<forall>j\<in>set us. \<exists>e. rs ! j = Err e" and i: "rs ! i = Ok r"
    have "find (\<lambda>i. case rs ! i of Ok x \<Rightarrow> True | _ \<Rightarrow> False) ord = Some i" unfolding o using u i by (intro f) auto
    then show "jl_select_ok sample_joins ord rs = Ok r" by (simp add: sample_joins_def i)
  next
    fix ord and rs :: "(outcall_response, outcall_response) outcome list" and us i e
    assume o: "ord = us @ [i]" and u: "\<forall>j\<in>set us. \<exists>e. rs ! j = Err e" and i: "rs ! i = Err e"
    have "find (\<lambda>i. case rs ! i of Ok x \<Rightarrow> True | _ \<Rightarrow> False) ord = None" unfolding o using u i by (intro n) auto
    then show "jl_select_ok sample_joins ord rs = Err e" by (simp add: sample_joins_def i o)
  qed
qed

text \<open>
  Two agents; the proxy of the first answers \<open>502\<close>, or what it is given, and that of the second \<open>200\<close>.
\<close>

definition sample_canister :: canister_state where
  "sample_canister = sample_state\<lparr>callers := [''a'' \<mapsto> (7, 0)],
     cs_agents := [sample_agent, sample_agent\<lparr>ag_endpoint := ''https://proxy2''\<rparr>]\<rparr>"

definition sample_answers :: "nat \<Rightarrow> call_env" where
  "sample_answers st = \<lparr>ce_caller = ''a'', ce_arg_size = 100, ce_now = (\<lambda>_. 5000000),
     ce_outcall = (\<lambda>i _ _. Ok (plain_response (if i = 0 then st else 200) ''ok'')), ce_others = (\<lambda>_ s. s), ce_order = [1, 0]\<rparr>"

definition sample_call :: outcall_request where
  "sample_call = sample_oq ''https://api.com/v1''"

lemma sample_cycles_documented: "cycles_documented min"
  by (simp add: cycles_documented_def)

lemma sample_refused: "refused (sample_answers st) sample_canister = None"
  by (simp add: refused_None is_allowed_def sample_answers_def sample_canister_def)

lemma sample_builds:
  "\<exists>r. build_request sample_uri sample_agent sample_call = Ok r"
  "\<exists>r. build_request sample_uri (sample_agent\<lparr>ag_endpoint := u\<rparr>) sample_call = Ok r"
  by (simp_all add: sample_call_def build_request_def build_target_def sample_oq_def sample_uri_def sample_agent_def
      has_header_def starts_with_def push_header_def)

lemma sample_awaits:
  "call_awaits sample_uri sample_agent sample_call" "call_awaits sample_uri (sample_agent\<lparr>ag_endpoint := u\<rparr>) sample_call"
  using sample_builds(1) sample_builds(2) [of u] by (auto simp: call_awaits_def)

lemma sample_agent_call:
  "agent_call sample_uri (ce_outcall (sample_answers st) i) sample_agent sample_call =
     (let res = plain_response (if i = 0 then st else 200) ''ok'' in if or_status res \<le> 500 then Ok res else Err res)"
  "agent_call sample_uri (ce_outcall (sample_answers st) i) (sample_agent\<lparr>ag_endpoint := u\<rparr>) sample_call =
     (let res = plain_response (if i = 0 then st else 200) ''ok'' in if or_status res \<le> 500 then Ok res else Err res)"
  using sample_builds(1) sample_builds(2) [of u] by (auto simp: agent_call_def sample_answers_def plain_response_def Let_def)

lemma sample_call_all:
  "call_all sample_uri (sample_answers st) sample_call (cs_agents sample_canister) =
     [if st \<le> 500 then Ok (plain_response st ''ok'') else Err (plain_response st ''ok''), Ok (plain_response 200 ''ok'')]"
  by (simp add: call_all_def sample_canister_def sample_agent_call Let_def plain_response_def)

lemma sample_order: "set (ce_order (sample_answers st)) = {..<length (cs_agents sample_canister)}"
  "distinct (ce_order (sample_answers st))"
  by (auto simp: sample_answers_def sample_canister_def)

lemma sample_prices:
  "unat (ingress_cost (cycles_calculator sample_canister) i) < 2 ^ 97"
  "unat (http_outcall_request_cost (cycles_calculator sample_canister) b d) < 2 ^ 97"
  "unat (http_outcall_response_cost (cycles_calculator sample_canister) r d) < 2 ^ 97"
proof -
  have n: "unat (subnet_size (cycles_calculator sample_canister)) \<le> 2 ^ 20"
    by (simp add: cycles_calculator_def sample_canister_def sample_state_def state_default_def)
  have "(2::nat) ^ 96 < 2 ^ 97" by simp
  then show "unat (ingress_cost (cycles_calculator sample_canister) i) < 2 ^ 97"
    "unat (http_outcall_request_cost (cycles_calculator sample_canister) b d) < 2 ^ 97"
    "unat (http_outcall_response_cost (cycles_calculator sample_canister) r d) < 2 ^ 97"
    using price_bounds [OF n] by (blast intro: less_trans)+
qed

text \<open>With plenty of cycles the first agent's failure is followed by the second agent's success.\<close>

lemma sample_failover:
  "\<exists>q. proxy_http_request min sample_uri (sample_answers 502) sample_call (sample_canister, 2 ^ 100) =
     (Ok (plain_response 200 ''ok''), q)"
proof -
  let ?calc = "cycles_calculator sample_canister"
  let ?env = "sample_answers 502"
  let ?request = "http_outcall_request_cost ?calc (count_request_bytes ?calc sample_call) 1"
  let ?p0 = "(sample_canister, 2 ^ 100 :: u128)"
  define p1 where "p1 = collect (ingress_cost ?calc (ce_arg_size ?env)) ?p0"
  define p2 where "p2 = collect ?request p1"
  have "2 ^ 97 * Suc 3 \<le> unat (snd ?p0)" by simp
  note c0 = collect_plenty [OF sample_prices(1) this, of "ce_arg_size ?env", folded p1_def]
  then have "2 ^ 97 * Suc 2 \<le> unat (snd p1)" by simp
  note c1 = collect_plenty [OF sample_prices(2) this, folded p2_def, of "count_request_bytes ?calc sample_call" 1]
  have "2 ^ 97 * Suc 1 \<le> unat (snd p2)" using c1(2) by (simp add: p2_def)
  note c2 = collect_plenty [OF sample_prices(2) this, of "count_request_bytes ?calc sample_call" 1]
  have u: "\<And>i. ce_others ?env i = (\<lambda>s. s)" by (simp add: sample_answers_def)
  let ?a2 = "sample_agent\<lparr>ag_endpoint := ''https://proxy2''\<rparr>"
  have as: "cs_agents sample_canister = [sample_agent, ?a2]" by (simp add: sample_canister_def)
  have r1: "agent_call sample_uri (ce_outcall ?env 0) sample_agent sample_call = Err (plain_response 502 ''ok'')"
    and r2: "agent_call sample_uri (ce_outcall ?env (Suc 0)) ?a2 sample_call = Ok (plain_response 200 ''ok'')"
    by (simp_all add: sample_agent_call Let_def plain_response_def)
  obtain c' where "try_agents min sample_uri ?env ?calc sample_call (2 ^ 100) 0 [sample_agent, ?a2] ?p0 p1 None =
      try_agents min sample_uri ?env ?calc sample_call (2 ^ 100) (Suc 0) [?a2] c' p2 (Some (plain_response 502 ''ok''))"
    using try_agents_turn(1) [OF sample_cycles_documented u c1(1) r1] unfolding p2_def by blast
  moreover note try_agents_turn(2) [OF sample_cycles_documented u c2(1) r2]
  moreover have "proxy_http_request min sample_uri ?env sample_call ?p0 =
      try_agents min sample_uri ?env ?calc sample_call (2 ^ 100) 0 [sample_agent, ?a2] ?p0 p1 None"
    using c0(1) sample_refused [of 502] as
    by (simp add: proxy_http_request_def get_agents_def Let_def receive_cycles_eq [OF sample_cycles_documented] p1_def)
  ultimately show ?thesis by (simp add: reply_def del: try_agents.simps)
qed

section \<open>The quoted price\<close>

text \<open>A place of a call that has lost at most \<open>quote\<close> and has left nothing uncollected.\<close>

definition within :: "u128 \<Rightarrow> canister_place \<Rightarrow> canister_place \<Rightarrow> bool" where
  "within quote p q \<longleftrightarrow> unat (snd p) \<le> unat (snd q) + unat quote \<and>
     uncollectible_cycles (fst q) = uncollectible_cycles (fst p)"

lemma within_reply: "within quote p q \<Longrightarrow> within quote p (snd (reply env balance i res q))"
  by (simp add: within_def reply_def update_caller_state_def)

lemma within_collect:
  assumes "unat n + unat m < 2 ^ 128" and "n + m \<le> snd p"
  shows "within (n + m) p p" and "within (n + m) p (collect n p)"
    and "r \<le> m \<Longrightarrow> within (n + m) p (collect r (collect n p))"
proof -
  have nm: "unat (n + m) = unat n + unat m" using assms(1) by (subst unat_add_exact) simp_all
  show "within (n + m) p p" by (simp add: within_def)
  have n: "n \<le> snd p" using assms(2) nm by (simp add: word_le_nat_alt)
  then show "within (n + m) p (collect n p)"
    by (simp add: within_def collect_enough unat_sub nm)
  assume r: "r \<le> m"
  have s: "unat (snd (collect n p)) = unat (snd p) - unat n" using n by (simp add: collect_enough unat_sub)
  with r assms(2) nm have "r \<le> snd (collect n p)" by (simp add: word_le_nat_alt)
  then show "within (n + m) p (collect r (collect n p))"
    using r n s by (simp add: within_def collect_enough unat_sub nm word_le_nat_alt)
qed

lemma within_or_trap:
  assumes "cycles_documented acc" and "within quote p c" and "within quote p (snd (k (collect n q)))"
  shows "within quote p (snd (or_trap c (receive_cycles acc n True q) k))"
  using assms(2,3) by (simp add: receive_cycles_eq [OF assms(1)])

lemma within_finish:
  assumes "cycles_documented acc" and "within quote p c" and "within quote p q"
    and "\<And>base. Ok base \<in> set (call_all X env req as) \<Longrightarrow>
      within quote p (collect (http_outcall_response_cost calc (count_response_bytes calc base) (usize_len as)) q)"
    and J: "joins_documented J" "set (ce_order env) = {..<length as}" "distinct (ce_order env)"
    and "\<forall>r\<in>set (call_all X env req as). \<not> is_panic r" and "as \<noteq> []"
  shows "within quote p (snd (finish_all_ok J acc X env req balance calc as c q))"
    and "within quote p (snd (finish_any_ok J acc X env req balance calc as c q))"
proof -
  let ?rs = "call_all X env req as"
  have o: "set (ce_order env) = {..<length ?rs}" using J(2) by simp
  have ne: "?rs \<noteq> []" using assms(9) by (metis length_0_conv length_call_all)
  from select_ok_cases [OF J(1) o J(3) assms(8) ne]
  show "within quote p (snd (finish_any_ok J acc X env req balance calc as c q))"
  proof
    assume "\<exists>r. jl_select_ok J (ce_order env) ?rs = Ok r \<and> Ok r \<in> set ?rs"
    then obtain r where j: "jl_select_ok J (ce_order env) ?rs = Ok r" and r: "Ok r \<in> set ?rs" by blast
    show ?thesis unfolding finish_any_ok_def j outcome.case
      by (rule within_or_trap [OF assms(1,2)], rule within_reply [OF assms(4) [OF r]])
  next
    assume "\<exists>e. jl_select_ok J (ce_order env) ?rs = Err e \<and> Err e \<in> set ?rs \<and> (\<forall>r\<in>set ?rs. \<exists>e. r = Err e)"
    then obtain e where j: "jl_select_ok J (ce_order env) ?rs = Err e" by blast
    show ?thesis unfolding finish_any_ok_def j outcome.case by (rule within_reply [OF assms(3)])
  qed
  from try_join_all_cases [OF J(1) o J(3) assms(8)]
  show "within quote p (snd (finish_all_ok J acc X env req balance calc as c q))"
  proof
    assume "\<exists>xs. ?rs = map Ok xs \<and> jl_try_join_all J (ce_order env) ?rs = Ok xs"
    then obtain base rest where rs: "?rs = map Ok (base # rest)" and
      j: "jl_try_join_all J (ce_order env) ?rs = Ok (base # rest)" using ne by (metis list.exhaust list.map_disc_iff)
    let ?n = "http_outcall_response_cost calc (count_response_bytes calc base) (usize_len as)"
    have "within quote p (collect ?n q)" by (rule assms(4)) (simp add: rs)
    then have w: "within quote p (snd (or_trap c (agreed_response J base rest) (\<lambda>result. reply env balance 1 result (collect ?n q))))"
      using assms(2) within_reply by (cases "agreed_response J base rest") (auto simp: or_trap_def)
    show ?thesis
      unfolding finish_all_ok_def j outcome.case list.case Let_def prod.case
      by (rule within_or_trap [OF assms(1,2)], rule w)
  next
    assume "\<exists>e. jl_try_join_all J (ce_order env) ?rs = Err e \<and> Err e \<in> set ?rs"
    then obtain e where j: "jl_try_join_all J (ce_order env) ?rs = Err e" by blast
    show ?thesis unfolding finish_all_ok_def j outcome.case by (rule within_reply [OF assms(3)])
  qed
qed

section \<open>Properties\<close>

text \<open>
  C25: Calls that cannot begin do nothing. A caller that is not allowed, or a canister without agents, gets the
  error response; a call whose cycles do not pay for its argument and for the first request (for the
  parallel calls, all requests) traps. Either way the state is as before, the call keeps its cycles and no
  answer of an outcall has any influence. (Of a call that pays for its first request, and runs out of cycles
  at a later agent, nothing is said here: it has paid for the earlier ones.)
\<close>
theorem calls_that_cannot_begin_do_nothing:
  assumes "cycles_documented acc"
    and "calc = cycles_calculator s" and "n = count_request_bytes calc req"
    and "ingress = ingress_cost calc (ce_arg_size env)"
  shows "(refused env s = Some res \<longrightarrow>
      proxy_http_request acc X env req (s, av) = (Ok res, (s, av)) \<and>
      parallel_call_all_ok J acc X env req (s, av) = (Ok res, (s, av)) \<and>
      parallel_call_any_ok J acc X env req (s, av) = (Ok res, (s, av))) \<and>
    (refused env s = None \<and> (av < ingress \<or> av - ingress < http_outcall_request_cost calc n 1) \<longrightarrow>
      proxy_http_request acc X env req (s, av) = (Panic ''insufficient cycles'', (s, av))) \<and>
    (refused env s = None \<and> av < ingress + http_outcall_request_cost calc n (usize_len (cs_agents s)) \<longrightarrow>
      parallel_call_all_ok J acc X env req (s, av) = (Panic ''insufficient cycles'', (s, av)) \<and>
      parallel_call_any_ok J acc X env req (s, av) = (Panic ''insufficient cycles'', (s, av)))"
proof (intro conjI impI)
  assume "refused env s = None \<and> (av < ingress \<or> av - ingress < http_outcall_request_cost calc n 1)"
  then have r: "refused env s = None" and c: "av < ingress \<or> av - ingress < http_outcall_request_cost calc n 1" by auto
  from r obtain a as where "cs_agents s = a # as" using refused_None by (metis list.exhaust)
  then show "proxy_http_request acc X env req (s, av) = (Panic ''insufficient cycles'', (s, av))"
    using r c assms(2-4) collect_enough(1) [of ingress "(s, av)"]
    by (auto simp: proxy_http_request_def get_agents_def Let_def receive_cycles_eq [OF assms(1)] not_less)
qed (use assms(2-4) in \<open>simp_all add: proxy_http_request_def parallel_call_all_ok_def parallel_call_any_ok_def
    start_parallel_def get_agents_def Let_def receive_cycles_eq [OF assms(1)]\<close>)

lemma calls_that_cannot_begin_do_nothing_witness:
  "proxy_http_request min sample_uri ((sample_answers 502)\<lparr>ce_caller := ''b''\<rparr>) sample_call (sample_canister, 10) =
     (Ok (plain_response 403 ''caller is not allowed''), (sample_canister, 10)) \<and>
   parallel_call_any_ok sample_joins min sample_uri (sample_answers 502) sample_call (sample_canister, 0) =
     (Panic ''insufficient cycles'', (sample_canister, 0))"
proof -
  let ?c = "cycles_calculator sample_canister"
  let ?i = "ingress_cost ?c 100"
  let ?r = "http_outcall_request_cost ?c (count_request_bytes ?c sample_call) (usize_len (cs_agents sample_canister))"
  have "refused ((sample_answers 502)\<lparr>ce_caller := ''b''\<rparr>) sample_canister = Some (plain_response 403 ''caller is not allowed'')"
    by (simp add: refused_def is_allowed_def sample_answers_def sample_canister_def)
  moreover have "0 < ?i + ?r"
  proof -
    have n: "unat (subnet_size ?c) \<le> 2 ^ 20" "unat (subnet_size ?c) = 13"
      by (simp_all add: cycles_calculator_def sample_canister_def sample_state_def state_default_def)
    have "unat (?i + ?r) = unat ?i + unat ?r"
      using price_bounds(1) [OF n(1), of 100]
        price_bounds(2) [OF n(1), of "count_request_bytes ?c sample_call" "usize_len (cs_agents sample_canister)"]
      by (intro unat_add_exact) simp
    moreover have "0 < unat ?i" using n by (simp add: ingress_cost_exact spec_ingress_def)
    ultimately show ?thesis by (simp add: word_less_nat_alt)
  qed
  ultimately show ?thesis
    using calls_that_cannot_begin_do_nothing [OF sample_cycles_documented refl refl refl, where s = sample_canister and
        X = sample_uri and J = sample_joins and req = sample_call]
      sample_refused [of 502] by (simp add: sample_answers_def)
qed

text \<open>
  C22: Failover. When \<open>proxy_http_request\<close> replies, its reply is that of the first agent whose outcall
  succeeds (a status of at most 500), all agents before it having failed; when all have failed, it is the
  failure of the last one. No agent's answer is skipped.
\<close>
theorem requests_fail_over:
  assumes "refused env s = None" and "proxy_http_request acc X env req (s, av) = (Ok res, q)"
  shows "let rs = call_all X env req (cs_agents s) in
    (\<exists>i<length rs. rs ! i = Ok res \<and> (\<forall>j<i. \<exists>e. rs ! j = Err e)) \<or>
    (\<forall>r\<in>set rs. \<exists>e. r = Err e) \<and> last rs = Err res"
  by (rule proxy_http_request_failover [OF assms])

lemma requests_fail_over_witness:
  "\<exists>q. proxy_http_request min sample_uri (sample_answers 502) sample_call (sample_canister, 2 ^ 100) =
      (Ok (plain_response 200 ''ok''), q) \<and>
    call_all sample_uri (sample_answers 502) sample_call (cs_agents sample_canister) ! 1 = Ok (plain_response 200 ''ok'')"
proof -
  obtain q where run: "proxy_http_request min sample_uri (sample_answers 502) sample_call (sample_canister, 2 ^ 100) =
      (Ok (plain_response 200 ''ok''), q)" using sample_failover by blast
  from requests_fail_over [OF sample_refused run] run show ?thesis
    by (auto simp: sample_call_all Let_def less_Suc_eq_0_disj)
qed

text \<open>
  C21: Every cycle is accounted for, whether a call replies or traps. What a call has lost is what the
  canister has gained. A reply charges exactly that to the caller's account, and to no other; a trap
  leaves all accounts as they were (although, after the first await, the cycles taken before it stay
  taken). Here other messages leave the state alone during the awaits.
\<close>
theorem calls_account_for_every_cycle:
  assumes "cycles_documented acc" and "\<forall>i. ce_others env i = (\<lambda>s. s)"
    and "unat (incoming_cycles s) + unat av < 2 ^ 128" and "refused env s = None"
    and "call \<in> {proxy_http_request acc X env req, parallel_call_all_ok J acc X env req,
      parallel_call_any_ok J acc X env req}"
    and "call (s, av) = (r, s', av')"
  shows "unat (incoming_cycles s') + unat av' = unat (incoming_cycles s) + unat av \<and> av' \<le> av \<and>
    (case (r, callers s (ce_caller env)) of
       (Ok res, Some (c, t)) \<Rightarrow> \<exists>t'. callers s' = (callers s)(ce_caller env \<mapsto> (saturating_add c (av - av'), t'))
     | _ \<Rightarrow> callers s' = callers s)"
proof -
  have "settled env (s, av) (call (s, av))"
    using settled_calls [OF assms(1), of env "(s, av)"] assms(2-5) by (auto simp: cycles_total_def)
  then show ?thesis
    by (auto simp: assms(6) settled_def cycles_total_def split: outcome.splits option.splits)
qed

lemma calls_account_for_every_cycle_witness:
  "\<exists>s' av'. proxy_http_request min sample_uri (sample_answers 502) sample_call (sample_canister, 2 ^ 100) =
      (Ok (plain_response 200 ''ok''), s', av') \<and>
    unat (incoming_cycles s') + unat av' = 2 ^ 100 \<and>
    (\<exists>t. callers s' ''a'' = Some (saturating_add 7 (2 ^ 100 - av'), t))"
proof -
  let ?env = "sample_answers 502"
  let ?call = "proxy_http_request min sample_uri ?env sample_call"
  obtain s' av' where run: "?call (sample_canister, 2 ^ 100) = (Ok (plain_response 200 ''ok''), s', av')"
    using sample_failover by auto
  have i: "incoming_cycles sample_canister = 0" and c: "callers sample_canister = [''a'' \<mapsto> (7, 0)]"
    by (simp_all add: sample_canister_def sample_state_def state_default_def)
  have u: "\<forall>i. ce_others ?env i = (\<lambda>s. s)" by (simp add: sample_answers_def)
  have b: "unat (incoming_cycles sample_canister) + unat (2 ^ 100 :: u128) < 2 ^ 128" by (simp add: i)
  have m: "?call \<in> {proxy_http_request min sample_uri ?env sample_call,
      parallel_call_all_ok sample_joins min sample_uri ?env sample_call,
      parallel_call_any_ok sample_joins min sample_uri ?env sample_call}" by simp
  have a: "ce_caller ?env = ''a''" by (simp add: sample_answers_def)
  from calls_account_for_every_cycle [OF sample_cycles_documented u b sample_refused m run] run
  show ?thesis by (auto simp: i c a)
qed

text \<open>
  C23: Agreement. A reply of \<open>parallel_call_all_ok\<close> with a status below 500 is the response of every agent; and
  when an agent has failed, the reply is the bare response of one that has, which is not the status 500
  with an array of results that the interface announces.
\<close>
theorem all_ok_replies_are_agreed:
  assumes "joins_documented J" and "set (ce_order env) = {..<length (cs_agents s)}" and "distinct (ce_order env)"
    and "\<forall>r\<in>set (call_all X env req (cs_agents s)). \<not> is_panic r"
    and "refused env s = None" and "parallel_call_all_ok J acc X env req (s, av) = (Ok res, q)"
  shows "(or_status res < 500 \<longrightarrow> (\<forall>r\<in>set (call_all X env req (cs_agents s)). r = Ok res)) \<and>
    ((\<exists>e. Err e \<in> set (call_all X env req (cs_agents s))) \<longrightarrow>
       Err res \<in> set (call_all X env req (cs_agents s)) \<and> or_status res \<noteq> 500)"
  using all_ok_reply [OF assms]
proof
  assume "\<exists>base rest. call_all X env req (cs_agents s) = map Ok (base # rest) \<and> agreed_response J base rest = Ok res"
  then obtain base rest where "call_all X env req (cs_agents s) = map Ok (base # rest)" and
    "agreed_response J base rest = Ok res" by blast
  with agreed_response_Ok [of J base rest res] show ?thesis by auto
next
  assume "Err res \<in> set (call_all X env req (cs_agents s))"
  with call_all_Err_status show ?thesis by fastforce
qed

lemma all_ok_replies_are_agreed_witness:
  "\<exists>q. parallel_call_all_ok sample_joins min sample_uri (sample_answers 502) sample_call (sample_canister, 2 ^ 100) =
      (Ok (plain_response 502 ''ok''), q) \<and> (502::nat) \<noteq> 500"
proof -
  let ?env = "sample_answers 502"
  let ?c = "cycles_calculator sample_canister"
  let ?rs = "call_all sample_uri ?env sample_call (cs_agents sample_canister)"
  have rs: "?rs = [Err (plain_response 502 ''ok''), Ok (plain_response 200 ''ok'')]" by (simp add: sample_call_all)
  have j: "jl_try_join_all sample_joins (ce_order ?env) ?rs = Err (plain_response 502 ''ok'')"
  proof -
    have "ce_order ?env = [1, 0]" by (simp add: sample_answers_def)
    then show ?thesis unfolding rs by (simp add: sample_joins_def)
  qed
  have "unat (ingress_cost ?c 100 + http_outcall_request_cost ?c b d) = unat (ingress_cost ?c 100) + unat (http_outcall_request_cost ?c b d)" for b d
    using sample_prices(1) [of 100] sample_prices(2) [of b d] by (intro unat_add_exact) simp
  then have "ingress_cost ?c 100 + http_outcall_request_cost ?c b d \<le> 2 ^ 100" for b d
    using sample_prices(1) [of 100] sample_prices(2) [of b d] by (simp add: word_le_nat_alt)
  then have e: "ingress_cost ?c (ce_arg_size ?env) + http_outcall_request_cost ?c (count_request_bytes ?c sample_call)
      (usize_len (cs_agents sample_canister)) \<le> 2 ^ 100" by (simp add: sample_answers_def)
  have u: "\<And>i. ce_others ?env i = (\<lambda>s. s)" by (simp add: sample_answers_def)
  from start_parallel_paid [OF sample_cycles_documented sample_refused u e, of sample_uri
      "finish_all_ok sample_joins min sample_uri ?env sample_call (2 ^ 100)"]
  obtain q where run: "parallel_call_all_ok sample_joins min sample_uri ?env sample_call (sample_canister, 2 ^ 100) =
      (Ok (plain_response 502 ''ok''), q)"
    unfolding parallel_call_all_ok_def snd_conv by (auto simp: finish_all_ok_def j reply_def)
  have "\<forall>r\<in>set ?rs. \<not> is_panic r" by (simp add: rs)
  from all_ok_replies_are_agreed [OF sample_joins_documented sample_order this sample_refused run] run
  show ?thesis by (auto simp: rs plain_response_def)
qed

text \<open>
  The quoted price is enough. A parallel call that comes with at least what \<open>parallel_call_cost\<close> quotes
  for it loses no more than the quote, whatever the agents answer within the response limit, and no
  cycles remain uncollectible: the caller of the quote never causes the canister a loss.
\<close>
theorem quoted_price_covers_parallel_calls:
  assumes "cycles_documented acc" and "joins_documented J"
    and "set (ce_order env) = {..<length (cs_agents s)}" and "distinct (ce_order env)"
    and "\<forall>r\<in>set (call_all X env req (cs_agents s)). \<not> is_panic r"
    and "\<forall>i. ce_others env i = (\<lambda>s. s)" and "unat (cs_subnet_size s) \<le> 2 ^ 20" and "refused env s = None"
    and "parallel_call_cost (ce_arg_size env) req s \<le> av"
    and "\<forall>res. Ok res \<in> set (call_all X env req (cs_agents s)) \<longrightarrow>
      count_response_bytes (cycles_calculator s) res \<le> response_limit req"
    and "call \<in> {parallel_call_all_ok J acc X env req, parallel_call_any_ok J acc X env req}"
    and "call (s, av) = (r, s', av')"
  shows "unat av - unat av' \<le> unat (parallel_call_cost (ce_arg_size env) req s) \<and>
    uncollectible_cycles s' = uncollectible_cycles s"
proof -
  let ?c = "cycles_calculator s" and ?d = "usize_len (cs_agents s)"
  let ?n = "ingress_cost ?c (ce_arg_size env) + http_outcall_request_cost ?c (count_request_bytes ?c req) ?d"
  let ?m = "http_outcall_response_cost ?c (response_limit req) ?d"
  have sz: "unat (subnet_size ?c) \<le> 2 ^ 20" using assms(7) by (simp add: cycles_calculator_def)
  have quote: "parallel_call_cost (ce_arg_size env) req s = ?n + ?m"
    by (simp add: parallel_call_cost_def get_agents_def Let_def)
  have "unat ?n \<le> 2 ^ 96 + 2 ^ 97"
    using price_bounds(1) [OF sz, of "ce_arg_size env"] price_bounds(2) [OF sz, of "count_request_bytes ?c req" ?d]
    by (subst unat_add_exact) simp_all
  with price_bounds(3) [OF sz, of "response_limit req" ?d] have lt: "unat ?n + unat ?m < 2 ^ 128" by simp
  have le: "?n + ?m \<le> snd (s, av)" using assms(9) by (simp add: quote)
  note w = within_collect [OF lt le]
  have "unat (?n + ?m) = unat ?n + unat ?m" using lt by (subst unat_add_exact) simp_all
  with le have n: "?n \<le> av" by (simp add: word_le_nat_alt)
  have ne: "cs_agents s \<noteq> []" using assms(8) refused_None by blast
  have "within (?n + ?m) (s, av) (collect (http_outcall_response_cost ?c (count_response_bytes ?c base) ?d)
      (collect ?n (s, av)))" if "Ok base \<in> set (call_all X env req (cs_agents s))" for base
    using that assms(10) by (intro w(3) response_cost_mono [OF sz]) blast
  note fin = within_finish [OF assms(1) _ w(2) this assms(2-5) ne]
  have u: "\<And>i. ce_others env i = (\<lambda>s. s)" using assms(6) by blast
  note paid = start_parallel_paid_rule [OF assms(1,8) u n, where P = "\<lambda>r. within (?n + ?m) (s, av) (snd r)"]
  have "within (?n + ?m) (s, av) (snd (parallel_call_all_ok J acc X env req (s, av)))"
    unfolding parallel_call_all_ok_def by (rule paid) (metis fin(1) w(1,2))
  moreover have "within (?n + ?m) (s, av) (snd (parallel_call_any_ok J acc X env req (s, av)))"
    unfolding parallel_call_any_ok_def by (rule paid) (metis fin(2) w(1,2))
  ultimately have "within (?n + ?m) (s, av) (snd (call (s, av)))" using assms(11) by blast
  then show ?thesis by (simp add: assms(12) quote within_def le_diff_conv add.commute)
qed

lemma quoted_price_covers_parallel_calls_witness:
  "\<exists>r s' av'. parallel_call_any_ok sample_joins min sample_uri (sample_answers 201) sample_call (sample_canister, 2 ^ 100) =
      (r, s', av') \<and>
    unat (2 ^ 100 :: u128) - unat av' \<le> unat (parallel_call_cost 100 sample_call sample_canister) \<and>
    uncollectible_cycles s' = 0"
proof -
  let ?env = "sample_answers 201" and ?c = "cycles_calculator sample_canister"
  let ?call = "parallel_call_any_ok sample_joins min sample_uri ?env sample_call"
  let ?rs = "call_all sample_uri ?env sample_call (cs_agents sample_canister)"
  have rs: "?rs = [Ok (plain_response 201 ''ok''), Ok (plain_response 200 ''ok'')]" by (simp add: sample_call_all)
  have np: "\<forall>r\<in>set ?rs. \<not> is_panic r" by (simp add: rs)
  have limit: "\<forall>res. Ok res \<in> set ?rs \<longrightarrow> count_response_bytes ?c res \<le> response_limit sample_call"
    unfolding rs
    by (auto simp: count_response_bytes_def plain_response_def usize_len_def response_limit_def sample_call_def sample_oq_def)
  have sz: "unat (cs_subnet_size sample_canister) \<le> 2 ^ 20"
    by (simp add: sample_canister_def sample_state_def state_default_def)
  have others: "\<forall>i. ce_others ?env i = (\<lambda>s. s)" by (simp add: sample_answers_def)
  let ?d = "usize_len (cs_agents sample_canister)"
  let ?i = "ingress_cost ?c 100" and ?r = "http_outcall_request_cost ?c (count_request_bytes ?c sample_call) ?d"
  let ?m = "http_outcall_response_cost ?c (response_limit sample_call) ?d"
  have ir: "unat (?i + ?r) = unat ?i + unat ?r"
    using sample_prices(1) [of 100] sample_prices(2) [of "count_request_bytes ?c sample_call" ?d]
    by (intro unat_add_exact) simp
  then have "unat (?i + ?r + ?m) = unat ?i + unat ?r + unat ?m"
    using sample_prices(1) [of 100] sample_prices(2) [of "count_request_bytes ?c sample_call" ?d]
      sample_prices(3) [of "response_limit sample_call" ?d]
    by (subst unat_add_exact) simp_all
  then have cost: "parallel_call_cost (ce_arg_size ?env) sample_call sample_canister \<le> 2 ^ 100"
    using sample_prices(1) [of 100] sample_prices(2) [of "count_request_bytes ?c sample_call" ?d]
      sample_prices(3) [of "response_limit sample_call" ?d]
    by (simp add: parallel_call_cost_def get_agents_def Let_def sample_answers_def word_le_nat_alt)
  obtain r s' av' where run: "?call (sample_canister, 2 ^ 100) = (r, s', av')" by (metis prod.exhaust)
  have m: "?call \<in> {parallel_call_all_ok sample_joins min sample_uri ?env sample_call, ?call}" by simp
  have "ce_arg_size ?env = 100" "uncollectible_cycles sample_canister = 0"
    by (simp_all add: sample_answers_def sample_canister_def sample_state_def state_default_def)
  with quoted_price_covers_parallel_calls [OF sample_cycles_documented sample_joins_documented sample_order np others sz
      sample_refused cost limit m run] run
  show ?thesis by auto
qed

text \<open>
  With one agent the three interfaces are one. On a canister with a single agent (and a subnet of at
  most a million nodes) \<open>proxy_http_request\<close>, \<open>parallel_call_all_ok\<close> and \<open>parallel_call_any_ok\<close> do the same
  in every situation, whatever the caller, the cycles, the answer and the messages in between: the same
  reply or trap, the same state, the same cycles left. (Although the first charges in two steps what
  the others charge in one.)
\<close>
theorem single_agent_interfaces_agree:
  assumes "cycles_documented acc" and "joins_documented J" and "cs_agents s = [a]" and "ce_order env = [0]"
    and "unat (cs_subnet_size s) \<le> 2 ^ 20" and "\<not> is_panic (agent_call X (ce_outcall env 0) a req)"
  shows "parallel_call_all_ok J acc X env req (s, av) = proxy_http_request acc X env req (s, av) \<and>
    parallel_call_any_ok J acc X env req (s, av) = proxy_http_request acc X env req (s, av)"
proof (cases "refused env s")
  case None
  let ?c = "cycles_calculator s"
  let ?i = "ingress_cost ?c (ce_arg_size env)" and ?r = "http_outcall_request_cost ?c (count_request_bytes ?c req) 1"
  let ?o = "agent_call X (ce_outcall env 0) a req"
  have one: "usize_len [a] = 1" by (simp add: usize_len_def)
  have sz: "unat (subnet_size ?c) \<le> 2 ^ 20" using assms(5) by (simp add: cycles_calculator_def)
  have lt: "unat ?i + unat ?r < 2 ^ 128"
    using price_bounds(1) [OF sz, of "ce_arg_size env"] price_bounds(2) [OF sz, of "count_request_bytes ?c req" 1] by simp
  have ir: "unat (?i + ?r) = unat ?i + unat ?r" using lt by (subst unat_add_exact) simp_all
  have all: "call_all X env req [a] = [?o]" by (simp add: call_all_def)
  have fin: "finish_all_ok J acc X env req av ?c [a] c p = (case ?o of
      Ok res \<Rightarrow> or_trap c (receive_cycles acc (http_outcall_response_cost ?c (count_response_bytes ?c res) 1) True p)
        (\<lambda>p. reply env av 1 res p) | Err res \<Rightarrow> reply env av 1 res p | Panic m \<Rightarrow> (Panic m, c))"
    "finish_any_ok J acc X env req av ?c [a] c p = (case ?o of
      Ok res \<Rightarrow> or_trap c (receive_cycles acc (http_outcall_response_cost ?c (count_response_bytes ?c res) 1) True p)
        (\<lambda>p. reply env av 1 res p) | Err res \<Rightarrow> reply env av 1 res p | Panic m \<Rightarrow> (Panic m, c))" for c p
  proof -
    have s: "set [0] = {..<length [?o]}" "distinct [0::nat]" by auto
    note d = joins_documentedD [OF assms(2) s]
    show "finish_all_ok J acc X env req av ?c [a] c p = (case ?o of
        Ok res \<Rightarrow> or_trap c (receive_cycles acc (http_outcall_response_cost ?c (count_response_bytes ?c res) 1) True p)
          (\<lambda>p. reply env av 1 res p) | Err res \<Rightarrow> reply env av 1 res p | Panic m \<Rightarrow> (Panic m, c))"
      using d(1) [of "[_]"] d(2) [of "[]" 0 "[]"] assms(4,6)
      by (cases ?o) (auto simp: finish_all_ok_def all one agreed_response_def)
    show "finish_any_ok J acc X env req av ?c [a] c p = (case ?o of
        Ok res \<Rightarrow> or_trap c (receive_cycles acc (http_outcall_response_cost ?c (count_response_bytes ?c res) 1) True p)
          (\<lambda>p. reply env av 1 res p) | Err res \<Rightarrow> reply env av 1 res p | Panic m \<Rightarrow> (Panic m, c))"
      using d(3) [of "[]" 0 "[]"] d(4) [of "[]" 0] assms(4,6)
      by (cases ?o) (auto simp: finish_any_ok_def all one)
  qed
  show ?thesis
  proof (cases "av < ?i + ?r")
    case True
    then have "av < ?i \<or> \<not> av < ?i \<and> snd (collect ?i (s, av)) < ?r"
      using ir collect_enough(1) [of ?i "(s, av)"] by (auto simp: word_less_nat_alt unat_sub word_le_nat_alt not_less)
    with True None show ?thesis
      by (auto simp: parallel_call_all_ok_def parallel_call_any_ok_def start_parallel_def proxy_http_request_def
          get_agents_def assms(3) one Let_def receive_cycles_eq [OF assms(1)])
  next
    case False
    then have i: "?i \<le> av" and r: "?r \<le> av - ?i"
      using ir by (auto simp: word_less_nat_alt unat_sub word_le_nat_alt not_less)
    have cc: "collect ?r (collect ?i (s, av)) = collect (?i + ?r) (s, av)"
      using collect_collect [of ?i "(s, av)" ?r] i r lt by simp
    have nr: "\<not> snd (collect ?i (s, av)) < ?r" using r i by (simp add: collect_enough not_less)
    show ?thesis
      using False None i nr assms(6)
      by (cases ?o) (simp_all add: parallel_call_all_ok_def parallel_call_any_ok_def start_parallel_def
          proxy_http_request_def get_agents_def assms(3) one Let_def receive_cycles_eq [OF assms(1)] fin cc split_beta
          not_less [symmetric] del: not_less)
  qed
qed (simp_all add: parallel_call_all_ok_def parallel_call_any_ok_def start_parallel_def proxy_http_request_def)

lemma single_agent_interfaces_agree_witness:
  "parallel_call_all_ok sample_joins min sample_uri ((sample_answers 502)\<lparr>ce_order := [0]\<rparr>) sample_call
     (sample_canister\<lparr>cs_agents := [sample_agent]\<rparr>, 2 ^ 100) =
   proxy_http_request min sample_uri ((sample_answers 502)\<lparr>ce_order := [0]\<rparr>) sample_call
     (sample_canister\<lparr>cs_agents := [sample_agent]\<rparr>, 2 ^ 100)"
proof -
  let ?env = "(sample_answers 502)\<lparr>ce_order := [0]\<rparr>" and ?s = "sample_canister\<lparr>cs_agents := [sample_agent]\<rparr>"
  have "ce_outcall ?env 0 = ce_outcall (sample_answers 502) 0" by simp
  then have "\<not> is_panic (agent_call sample_uri (ce_outcall ?env 0) sample_agent sample_call)"
    by (simp add: sample_agent_call Let_def plain_response_def)
  moreover have "cs_agents ?s = [sample_agent]" "ce_order ?env = [0]" "unat (cs_subnet_size ?s) \<le> 2 ^ 20"
    by (simp_all add: sample_canister_def sample_state_def state_default_def)
  ultimately show ?thesis
    using single_agent_interfaces_agree [OF sample_cycles_documented sample_joins_documented] by blast
qed

end
