(* ===== verification/Json_Rpc.thy ===== *)
theory Json_Rpc
  imports Canister_Tokens
begin

text \<open>
  The JSON-RPC client that the two example canisters share (\<open>src/examples/eth-canister/src/jsonrpc.rs\<close> and
  the same code in \<open>src/examples/eth-canister-lite/src/jsonrpc.rs\<close>), over whatever posts its requests.
  JSON values \<open>'j\<close>, the derived codecs, and the reading of a result of type \<open>'t\<close> are parameters.
\<close>

section \<open>Requests and responses\<close>

record 'j rpc_request =
  rq_jsonrpc :: string
  rq_method :: string
  rq_params :: "'j list"
  rq_id :: u64

record ('j, 't) rpc_response =
  rp_result :: "'t option"
  rp_error :: "'j option"

text \<open>The errors of \<open>serde_json\<close> are given by their text.\<close>

record 'j json_lib =
  jn_string :: "string \<Rightarrow> 'j"
  jn_bool :: "bool \<Rightarrow> 'j"
  jn_null :: 'j
  jn_request_to_vec :: "'j rpc_request \<Rightarrow> (bytes, string) outcome"
  jn_to_string :: "'j \<Rightarrow> (string, string) outcome"

record ('j, 't) result_lib =
  rs_from_slice :: "bytes \<Rightarrow> (('j, 't) rpc_response, string) outcome"
  rs_from_value :: "'j \<Rightarrow> ('t, string) outcome"

section \<open>Operations\<close>

definition rpc_body :: "'j json_lib \<Rightarrow> string \<Rightarrow> 'j list \<Rightarrow> (bytes, string) outcome" where
  "rpc_body J meth params =
     jn_request_to_vec J \<lparr>rq_jsonrpc = ''2.0'', rq_method = meth, rq_params = params, rq_id = 1\<rparr>"

definition rpc_output :: "'j json_lib \<Rightarrow> ('j, 't) result_lib \<Rightarrow> bytes \<Rightarrow> ('t, string) outcome" where
  "rpc_output J R data =
     and_then (rs_from_slice R data) (\<lambda>output.
       case rp_error output of
         Some error \<Rightarrow> and_then (jn_to_string J error) (\<lambda>text. Err text)
       | None \<Rightarrow> (case rp_result output of
           Some result \<Rightarrow> Ok result
         | None \<Rightarrow> rs_from_value R (jn_null J)))"

definition rpc_call :: "'j json_lib \<Rightarrow> ('j, 't) result_lib \<Rightarrow> (string \<Rightarrow> bytes \<Rightarrow> (bytes, string) outcome)
    \<Rightarrow> string \<Rightarrow> string \<Rightarrow> 'j list \<Rightarrow> ('t, string) outcome" where
  "rpc_call J R post key meth params =
     and_then (rpc_body J meth params) (\<lambda>input.
     and_then (post key input) (\<lambda>data. rpc_output J R data))"

definition rpc_eth_chain_id :: "'j json_lib \<Rightarrow> ('j, string) result_lib \<Rightarrow> (string \<Rightarrow> bytes \<Rightarrow> (bytes, string) outcome)
    \<Rightarrow> string \<Rightarrow> (string, string) outcome" where
  "rpc_eth_chain_id J R post key = rpc_call J R post key ''eth_chainId'' []"

definition rpc_get_best_block :: "'j json_lib \<Rightarrow> ('j, 'j) result_lib \<Rightarrow> (string \<Rightarrow> bytes \<Rightarrow> (bytes, string) outcome)
    \<Rightarrow> string \<Rightarrow> ('j, string) outcome" where
  "rpc_get_best_block J R post key =
     rpc_call J R post key ''eth_getBlockByNumber'' [jn_string J ''latest'', jn_bool J False]"

definition rpc_send_raw_transaction :: "'j json_lib \<Rightarrow> ('j, string) result_lib
    \<Rightarrow> (string \<Rightarrow> bytes \<Rightarrow> (bytes, string) outcome) \<Rightarrow> string \<Rightarrow> string \<Rightarrow> (string, string) outcome" where
  "rpc_send_raw_transaction J R post key raw_tx =
     rpc_call J R post key ''eth_sendTransaction'' [jn_string J raw_tx]"

section \<open>What a post gives\<close>

definition is_success :: "outcall_response \<Rightarrow> bool" where
  "is_success res \<longleftrightarrow> 200 \<le> or_status res \<and> or_status res < 300"

text \<open>\<open>String::from_utf8(body).unwrap_or_default()\<close>: what is not UTF-8 is dropped.\<close>

definition utf8_or_empty :: "bytes \<Rightarrow> string" where
  "utf8_or_empty body = (if from_utf8_lossy body = body then body else [])"

text \<open>
  The contract of a transport: a post that gives data gives the body of a successful response to its
  key and body. On it rests what every call of the client returns.
\<close>

locale rpc_transport =
  fixes post :: "string \<Rightarrow> bytes \<Rightarrow> (bytes, string) outcome"
    and answers :: "string \<Rightarrow> bytes \<Rightarrow> outcall_response \<Rightarrow> bool"
  assumes post_Ok: "post key body = Ok data \<Longrightarrow> \<exists>res. answers key body res \<and> is_success res \<and> or_body res = data"
begin

lemma call_Ok:
  assumes "rpc_call J R post key meth params = Ok v"
  shows "\<exists>input res. rpc_body J meth params = Ok input \<and> answers key input res \<and> is_success res \<and>
    rpc_output J R (or_body res) = Ok v"
proof -
  from assms obtain input data where i: "rpc_body J meth params = Ok input" and
    d: "post key input = Ok data" and v: "rpc_output J R data = Ok v" by (auto simp: rpc_call_def)
  from post_Ok [OF d] v i show ?thesis by blast
qed

end

text \<open>A result is the response's own, or, if it has none, what null stands for; an error in it is never a result.\<close>

lemma rpc_output_Ok:
  "rpc_output J R data = Ok v \<longleftrightarrow> (\<exists>output. rs_from_slice R data = Ok output \<and> rp_error output = None \<and>
     (rp_result output = Some v \<or> rp_result output = None \<and> rs_from_value R (jn_null J) = Ok v))"
  by (auto simp: rpc_output_def split: option.splits)

end
