(* ===== verification/Lite_Client.thy ===== *)
theory Lite_Client
  imports Json_Rpc Api_Properties
begin

text \<open>
  The example \<open>src/examples/eth-canister-lite\<close>: a canister that reaches Ethereum through the proxy
  canister. Its calls are run here against the model of that canister (\<open>Canister_Api\<close>), to show what an
  answer means to a client. Inter-canister calls and the texts of principals and numbers are parameters.
\<close>

section \<open>The client\<close>

record lite_rpc =
  lr_provider :: string
  lr_proxy :: principal
  lr_api_token :: "string option"

record text_tools =
  tx_principal_from_text :: "string \<Rightarrow> (principal, string) outcome"
  tx_principal_debug :: "principal \<Rightarrow> string"
  tx_nat :: "nat \<Rightarrow> string"

text \<open>\<open>call_with_payment128\<close>: canister, method, argument, cycles; a rejection has a code and a message.\<close>

type_synonym canister_net =
  "principal \<Rightarrow> string \<Rightarrow> outcall_request \<Rightarrow> u128 \<Rightarrow> (outcall_response, nat \<times> string) outcome"

definition LITE_APP_AGENT :: string where
  "LITE_APP_AGENT = ''Mozilla/5.0 eth-canister eth-canister-lite/0.1.0''"

definition lite_request :: "lite_rpc \<Rightarrow> string \<Rightarrow> bytes \<Rightarrow> outcall_request" where
  "lite_request rpc idempotency_key body =
     (let headers = [\<lparr>hd_name = ''content-type'', hd_value = ''application/json''\<rparr>,
            \<lparr>hd_name = ''user-agent'', hd_value = LITE_APP_AGENT\<rparr>,
            \<lparr>hd_name = ''idempotency-key'', hd_value = idempotency_key\<rparr>];
          headers = (case lr_api_token rpc of None \<Rightarrow> headers
            | Some api_token \<Rightarrow> headers @ [\<lparr>hd_name = ''authorization'', hd_value = api_token\<rparr>])
      in \<lparr>oq_url = lr_provider rpc, oq_max_response_bytes = None, oq_method = POST, oq_headers = headers,
          oq_body = Some body, oq_transform = None\<rparr>)"

definition lite_proxy :: "text_tools \<Rightarrow> canister_net \<Rightarrow> lite_rpc \<Rightarrow> string \<Rightarrow> string \<Rightarrow> bytes \<Rightarrow> (bytes, string) outcome" where
  "lite_proxy X net rpc proxy_method idempotency_key body =
     and_then (map_err (\<lambda>(code, msg). ''failed to call '' @ proxy_method @ '' on '' @ tx_principal_debug X (lr_proxy rpc)
           @ '', code: '' @ show_decimal code @ '', message: '' @ msg)
         (net (lr_proxy rpc) proxy_method (lite_request rpc idempotency_key body) 1000000000)) (\<lambda>res.
       if 200 \<le> or_status res \<and> or_status res < 300 then Ok (or_body res)
       else Err (''failed to request provider: '' @ lr_provider rpc @ '', idempotency-key: '' @ idempotency_key
         @ '', status: '' @ tx_nat X (or_status res) @ '', body: '' @ utf8_or_empty (or_body res)))"

definition lite_call :: "'j json_lib \<Rightarrow> ('j, 't) result_lib \<Rightarrow> text_tools \<Rightarrow> canister_net \<Rightarrow> lite_rpc
    \<Rightarrow> string \<Rightarrow> string \<Rightarrow> string \<Rightarrow> 'j list \<Rightarrow> ('t, string) outcome" where
  "lite_call J R X net rpc proxy_method idempotency_key meth params =
     and_then (rpc_body J meth params) (\<lambda>input.
     and_then (lite_proxy X net rpc proxy_method idempotency_key input) (\<lambda>data. rpc_output J R data))"

definition lite_eth_chain_id :: "'j json_lib \<Rightarrow> ('j, string) result_lib \<Rightarrow> text_tools \<Rightarrow> canister_net \<Rightarrow> lite_rpc
    \<Rightarrow> string \<Rightarrow> (string, string) outcome" where
  "lite_eth_chain_id J R X net rpc key = lite_call J R X net rpc ''proxy_http_request'' key ''eth_chainId'' []"

definition lite_get_best_block :: "'j json_lib \<Rightarrow> ('j, 'j) result_lib \<Rightarrow> text_tools \<Rightarrow> canister_net \<Rightarrow> lite_rpc
    \<Rightarrow> string \<Rightarrow> ('j, string) outcome" where
  "lite_get_best_block J R X net rpc key =
     lite_call J R X net rpc ''parallel_call_all_ok'' key ''eth_getBlockByNumber''
       [jn_string J ''latest'', jn_bool J False]"

definition lite_send_raw_transaction :: "'j json_lib \<Rightarrow> ('j, string) result_lib \<Rightarrow> text_tools \<Rightarrow> canister_net \<Rightarrow> lite_rpc
    \<Rightarrow> string \<Rightarrow> string \<Rightarrow> (string, string) outcome" where
  "lite_send_raw_transaction J R X net rpc key raw_tx =
     lite_call J R X net rpc ''parallel_call_any_ok'' key ''eth_sendTransaction'' [jn_string J raw_tx]"

section \<open>The canister's methods\<close>

definition PROXY_CANISTER :: string where
  "PROXY_CANISTER = ''hpudd-yqaaa-aaaap-ahnbq-cai''"

definition lite_update_eth_chain_id :: "'j json_lib \<Rightarrow> ('j, string) result_lib \<Rightarrow> text_tools \<Rightarrow> canister_net
    \<Rightarrow> (string, string) outcome" where
  "lite_update_eth_chain_id J R X net =
     and_then (tx_principal_from_text X PROXY_CANISTER) (\<lambda>proxy.
       lite_eth_chain_id J R X net \<lparr>lr_provider = ''URL_CF_ETH'', lr_proxy = proxy, lr_api_token = None\<rparr> ''eth_chain_id'')"

definition lite_update_get_best_block :: "'j json_lib \<Rightarrow> ('j, 'j) result_lib \<Rightarrow> text_tools \<Rightarrow> canister_net \<Rightarrow> u64
    \<Rightarrow> (string, string) outcome" where
  "lite_update_get_best_block J R X net now =
     and_then (tx_principal_from_text X PROXY_CANISTER) (\<lambda>proxy.
       let rpc = \<lparr>lr_provider = ''https://rpc.ankr.com/eth'', lr_proxy = proxy, lr_api_token = None\<rparr>;
           ts = now div 1000000000;
           key = ''blk-best-'' @ show_decimal (unat ts)
       in and_then (lite_get_best_block J R X net rpc key) (\<lambda>res. jn_to_string J res))"

section \<open>The client on the proxy canister\<close>

text \<open>What a call of the proxy canister runs: one of the three methods of \<open>Canister_Api\<close>.\<close>

definition proxy_method_run :: "join_lib \<Rightarrow> cycles_accept \<Rightarrow> 'x uri_lib \<Rightarrow> call_env \<Rightarrow> string
    \<Rightarrow> (outcall_request \<Rightarrow> canister_place \<Rightarrow> call_result) option" where
  "proxy_method_run J acc X env meth =
     (if meth = ''proxy_http_request'' then Some (proxy_http_request acc X env)
      else if meth = ''parallel_call_all_ok'' then Some (parallel_call_all_ok J acc X env)
      else if meth = ''parallel_call_any_ok'' then Some (parallel_call_any_ok J acc X env)
      else None)"

text \<open>A reply to a call of \<open>cid\<close> is the reply of the method that was called, in the canister's state \<open>s\<close>.\<close>

definition served_by :: "join_lib \<Rightarrow> cycles_accept \<Rightarrow> 'x uri_lib \<Rightarrow> call_env \<Rightarrow> canister_state \<Rightarrow> principal
    \<Rightarrow> canister_net \<Rightarrow> bool" where
  "served_by J acc X env s cid net \<longleftrightarrow>
     (\<forall>meth req cycles res. net cid meth req cycles = Ok res \<longrightarrow>
        (\<exists>run q. proxy_method_run J acc X env meth = Some run \<and> run req (s, cycles) = (Ok res, q)))"

text \<open>The responses a client can get from a method, as far as they are successful.\<close>

definition delivered :: "string \<Rightarrow> (outcall_response, outcall_response) outcome list \<Rightarrow> outcall_response \<Rightarrow> bool" where
  "delivered meth rs res \<longleftrightarrow>
     (if meth = ''proxy_http_request'' then \<exists>i<length rs. rs ! i = Ok res \<and> (\<forall>j<i. \<exists>e. rs ! j = Err e)
      else if meth = ''parallel_call_all_ok'' then rs \<noteq> [] \<and> (\<forall>r\<in>set rs. r = Ok res)
      else Ok res \<in> set rs)"

lemma refused_not_success: "refused env s = Some res \<Longrightarrow> \<not> is_success res"
  by (auto simp: refused_def plain_response_def is_success_def split: if_splits)

lemma failed_not_success: "Err res \<in> set (call_all X env req as) \<Longrightarrow> \<not> is_success res"
  using call_all_Err_status [of res X env req as] by (auto simp: is_success_def)

lemma lite_call_rpc: "lite_call J R X net rpc pm = rpc_call J R (lite_proxy X net rpc pm)"
  by (intro ext) (simp add: lite_call_def rpc_call_def)

text \<open>A successful reply of a method was delivered by the agents; a refusal or a failure is no success.\<close>

lemma method_delivers:
  assumes "joins_documented J" and "set (ce_order env) = {..<length (cs_agents s)}" and "distinct (ce_order env)"
    and "\<forall>r\<in>set (call_all X env req (cs_agents s)). \<not> is_panic r"
    and "proxy_method_run J acc X env meth = Some run" and "run req (s, av) = (Ok res, q)" and "is_success res"
  shows "delivered meth (call_all X env req (cs_agents s)) res"
proof -
  let ?rs = "call_all X env req (cs_agents s)"
  have "refused env s = None"
  proof (rule ccontr)
    assume "refused env s \<noteq> None"
    then obtain e where e: "refused env s = Some e" by blast
    with assms(5,6) have "res = e"
      by (auto simp: proxy_method_run_def proxy_http_request_def parallel_call_all_ok_def parallel_call_any_ok_def
          start_parallel_def split: if_splits)
    with refused_not_success [OF e] assms(7) show False by simp
  qed
  note allowed = this
  have nofail: "Err res \<notin> set ?rs" using failed_not_success assms(7) by blast
  from assms(5) consider (seq) "meth = ''proxy_http_request''" "run = proxy_http_request acc X env"
    | (all) "meth = ''parallel_call_all_ok''" "run = parallel_call_all_ok J acc X env"
    | (any) "meth = ''parallel_call_any_ok''" "run = parallel_call_any_ok J acc X env"
    by (auto simp: proxy_method_run_def split: if_splits)
  then show ?thesis
  proof cases
    case seq
    have "?rs \<noteq> []" using allowed refused_None length_call_all by (metis length_0_conv)
    then have "last ?rs \<noteq> Err res" using nofail by (metis last_in_set)
    with proxy_http_request_failover [OF allowed assms(6) [unfolded seq(2)]] seq(1) show ?thesis
      unfolding delivered_def Let_def by auto
  next
    case all
    from all_ok_reply [OF assms(1-4) allowed] assms(6) all(2) nofail obtain base rest where
      rs: "?rs = map Ok (base # rest)" and a: "agreed_response J base rest = Ok res" by blast
    from agreed_response_Ok [OF a] assms(7) have "\<forall>r\<in>set rest. r = base" "res = base" by (auto simp: is_success_def)
    with rs all(1) show ?thesis by (auto simp: delivered_def)
  next
    case any
    from any_ok_reply [OF assms(1-4) allowed assms(6) [unfolded any(2)]] nofail any(1) show ?thesis
      by (simp add: delivered_def)
  qed
qed

interpretation lite: rpc_transport "lite_proxy X net rpc pm"
  "\<lambda>key body res. net (lr_proxy rpc) pm (lite_request rpc key body) 1000000000 = Ok res"
  for X net rpc pm
  by unfold_locales (auto simp: lite_proxy_def is_success_def split: if_splits)

lemma lite_call_delivered:
  assumes "joins_documented Jn" and "served_by Jn acc U env s (lr_proxy rpc) net"
    and "set (ce_order env) = {..<length (cs_agents s)}" and "distinct (ce_order env)"
    and "\<forall>req. \<forall>r\<in>set (call_all U env req (cs_agents s)). \<not> is_panic r"
    and "lite_call J R X net rpc pm key meth params = Ok v"
  shows "\<exists>input res. rpc_body J meth params = Ok input \<and> is_success res \<and> rpc_output J R (or_body res) = Ok v \<and>
    delivered pm (call_all U env (lite_request rpc key input) (cs_agents s)) res"
proof -
  from lite.call_Ok [OF assms(6) [unfolded lite_call_rpc]] obtain input res where
    i: "rpc_body J meth params = Ok input" and s: "is_success res" and o: "rpc_output J R (or_body res) = Ok v" and
    n: "net (lr_proxy rpc) pm (lite_request rpc key input) 1000000000 = Ok res" by blast
  from assms(2) n obtain run q where "proxy_method_run Jn acc U env pm = Some run"
    "run (lite_request rpc key input) (s, 1000000000) = (Ok res, q)" unfolding served_by_def by blast
  from method_delivers [OF assms(1,3,4) _ this s] assms(5) i s o show ?thesis by blast
qed

section \<open>A sample client\<close>

lemma agent_call_returns:
  assumes "\<And>u. \<not> is_panic (uri_parse X u)" and "\<And>r c. \<not> is_panic (f r c)"
  shows "\<not> is_panic (agent_call X f a req)"
proof -
  have "\<not> is_panic (build_request X a req)"
    by (simp add: build_request_def build_target_def assms(1) Let_def)
  moreover have "f r c \<noteq> Panic m" for r c m using assms(2) [of r c] by auto
  ultimately show ?thesis by (auto simp: agent_call_def split: outcome.splits)
qed

text \<open>JSON is text here, and a response's body is its result.\<close>

definition sample_json :: "string json_lib" where
  "sample_json = \<lparr>jn_string = (\<lambda>s. s), jn_bool = (\<lambda>b. if b then ''true'' else ''false''), jn_null = ''null'',
     jn_request_to_vec = (\<lambda>r. Ok (rq_method r)), jn_to_string = Ok\<rparr>"

definition sample_result :: "(string, string) result_lib" where
  "sample_result = \<lparr>rs_from_slice = (\<lambda>data. Ok \<lparr>rp_result = Some data, rp_error = None\<rparr>), rs_from_value = Ok\<rparr>"

definition sample_texts :: text_tools where
  "sample_texts = \<lparr>tx_principal_from_text = Ok, tx_principal_debug = (\<lambda>p. p), tx_nat = show_decimal\<rparr>"

definition sample_lite :: lite_rpc where
  "sample_lite = \<lparr>lr_provider = ''https://api.com/v1'', lr_proxy = ''p'', lr_api_token = None\<rparr>"

text \<open>The network in which the canister \<open>p\<close> runs in the state \<open>s\<close>.\<close>

definition net_of :: "join_lib \<Rightarrow> cycles_accept \<Rightarrow> 'x uri_lib \<Rightarrow> call_env \<Rightarrow> canister_state \<Rightarrow> canister_net" where
  "net_of J acc X env s cid meth req cycles =
     (case proxy_method_run J acc X env meth of
        None \<Rightarrow> Err (3, ''no such method'')
      | Some run \<Rightarrow> (case fst (run req (s, cycles)) of
          Ok res \<Rightarrow> Ok res | Err e \<Rightarrow> Err (5, e) | Panic m \<Rightarrow> Err (5, m)))"

lemma net_of_served: "served_by J acc X env s cid (net_of J acc X env s)"
  unfolding served_by_def net_of_def by (auto split: option.splits outcome.splits intro: prod_eqI simp: prod_eq_iff)

abbreviation sample_env :: call_env where
  "sample_env \<equiv> sample_answers 200"

abbreviation sample_input :: outcall_request where
  "sample_input \<equiv> lite_request sample_lite ''k1'' ''eth_getBlockByNumber''"

lemma sample_lite_calls:
  "call_all sample_uri sample_env sample_input (cs_agents sample_canister) =
     [Ok (plain_response 200 ''ok''), Ok (plain_response 200 ''ok'')]"
  by (simp add: call_all_def sample_canister_def agent_call_def sample_answers_def plain_response_def lite_request_def
      sample_lite_def build_request_def build_target_def sample_uri_def sample_agent_def has_header_def starts_with_def
      push_header_def Let_def)

lemma sample_lite_paid:
  "ingress_cost (cycles_calculator sample_canister) (ce_arg_size sample_env) +
     http_outcall_request_cost (cycles_calculator sample_canister)
       (count_request_bytes (cycles_calculator sample_canister) sample_input)
       (usize_len (cs_agents sample_canister)) \<le> 1000000000"
proof -
  let ?c = "cycles_calculator sample_canister"
  have n: "subnet_size ?c = 13" "service_fee ?c = 100000000"
    by (simp_all add: cycles_calculator_def sample_canister_def sample_state_def state_default_def)
  then have sz: "unat (subnet_size ?c) \<le> 2 ^ 20" by simp
  have "unat (ingress_cost ?c 100) = 18200000"
    by (simp add: ingress_cost_exact [OF sz] n spec_ingress_def)
  moreover have "count_request_bytes ?c sample_input = 150"
    by (simp add: count_request_bytes_def n lite_request_def sample_lite_def header_bytes_def usize_len_def LITE_APP_AGENT_def)
  then have "unat (http_outcall_request_cost ?c (count_request_bytes ?c sample_input) 2) = 227400000"
    by (simp add: request_cost_exact [OF sz] n spec_request_def)
  ultimately have "unat (ingress_cost ?c 100 + http_outcall_request_cost ?c (count_request_bytes ?c sample_input) 2) = 245600000"
    by (subst unat_add_exact) simp_all
  moreover have "usize_len (cs_agents sample_canister) = 2" "ce_arg_size sample_env = 100"
    by (simp_all add: usize_len_def sample_canister_def sample_answers_def)
  ultimately show ?thesis by (simp add: word_le_nat_alt)
qed

lemma sample_agents_return: "\<not> is_panic r" if "r \<in> set (call_all sample_uri sample_env req as)"
proof -
  have "\<not> is_panic (agent_call sample_uri (ce_outcall sample_env i) a req)" for i a
    by (rule agent_call_returns) (simp_all add: sample_uri_def sample_answers_def)
  with that show ?thesis by (auto simp: call_all_def)
qed

lemma sample_best_block:
  "lite_get_best_block sample_json sample_result sample_texts
     (net_of sample_joins min sample_uri sample_env sample_canister) sample_lite ''k1'' = Ok ''ok''"
proof -
  let ?rs = "call_all sample_uri sample_env sample_input (cs_agents sample_canister)"
  have others: "\<And>i. ce_others sample_env i = (\<lambda>s. s)" by (simp add: sample_answers_def)
  have "?rs = map Ok [plain_response 200 ''ok'', plain_response 200 ''ok'']" by (simp add: sample_lite_calls)
  from joins_documentedD(1) [OF sample_joins_documented _ sample_order(2) this] sample_order(1) have
    j: "jl_try_join_all sample_joins (ce_order sample_env) ?rs = Ok [plain_response 200 ''ok'', plain_response 200 ''ok'']"
    by simp
  have "fst (parallel_call_all_ok sample_joins min sample_uri sample_env sample_input (sample_canister, 1000000000)) =
      Ok (plain_response 200 ''ok'')"
    unfolding parallel_call_all_ok_def
    by (rule start_parallel_paid_rule [OF sample_cycles_documented sample_refused others sample_lite_paid])
      (simp add: finish_all_ok_def j receive_cycles_eq [OF sample_cycles_documented] agreed_response_def)
  then show ?thesis
    by (simp add: lite_get_best_block_def lite_call_def rpc_body_def sample_json_def lite_proxy_def net_of_def
        proxy_method_run_def plain_response_def rpc_output_def sample_result_def)
qed

section \<open>Properties\<close>

text \<open>
  C24: What an answer of the proxy canister means to its client. A best block that the client accepts is in
  the body that \<^emph>\<open>every\<close> agent's proxy responded with; a chain id is in the response of the first agent that
  did not fail; the result of a transaction is in the response of one of the agents. Each of these
  responses is a success, to the very request the client made, and carries no error; a refusal, a
  disagreement or a failure is never taken for a result.
\<close>
theorem client_results_come_from_agents:
  assumes "joins_documented Jn" and "served_by Jn acc U env s (lr_proxy rpc) net"
    and "set (ce_order env) = {..<length (cs_agents s)}" and "distinct (ce_order env)"
    and "\<forall>req. \<forall>r\<in>set (call_all U env req (cs_agents s)). \<not> is_panic r"
    and "asked = (\<lambda>input. call_all U env (lite_request rpc key input) (cs_agents s))"
  shows "(lite_get_best_block J R X net rpc key = Ok block \<longrightarrow>
      (\<exists>input res. rpc_body J ''eth_getBlockByNumber'' [jn_string J ''latest'', jn_bool J False] = Ok input \<and>
        is_success res \<and> rpc_output J R (or_body res) = Ok block \<and>
        asked input \<noteq> [] \<and> (\<forall>r\<in>set (asked input). r = Ok res))) \<and>
    (lite_eth_chain_id J R' X net rpc key = Ok chain \<longrightarrow>
      (\<exists>input res. rpc_body J ''eth_chainId'' [] = Ok input \<and>
        is_success res \<and> rpc_output J R' (or_body res) = Ok chain \<and>
        (\<exists>i<length (asked input). asked input ! i = Ok res \<and> (\<forall>j<i. \<exists>e. asked input ! j = Err e)))) \<and>
    (lite_send_raw_transaction J R' X net rpc key raw_tx = Ok hash \<longrightarrow>
      (\<exists>input res. rpc_body J ''eth_sendTransaction'' [jn_string J raw_tx] = Ok input \<and>
        is_success res \<and> rpc_output J R' (or_body res) = Ok hash \<and> Ok res \<in> set (asked input)))"
proof (intro conjI impI)
  note delivered = lite_call_delivered [OF assms(1-5), unfolded delivered_def]
  show "\<exists>input res. rpc_body J ''eth_getBlockByNumber'' [jn_string J ''latest'', jn_bool J False] = Ok input \<and>
      is_success res \<and> rpc_output J R (or_body res) = Ok block \<and>
      asked input \<noteq> [] \<and> (\<forall>r\<in>set (asked input). r = Ok res)"
    if "lite_get_best_block J R X net rpc key = Ok block"
    using delivered [OF that [unfolded lite_get_best_block_def]] by (simp add: assms(6))
  show "\<exists>input res. rpc_body J ''eth_chainId'' [] = Ok input \<and>
      is_success res \<and> rpc_output J R' (or_body res) = Ok chain \<and>
      (\<exists>i<length (asked input). asked input ! i = Ok res \<and> (\<forall>j<i. \<exists>e. asked input ! j = Err e))"
    if "lite_eth_chain_id J R' X net rpc key = Ok chain"
    using delivered [OF that [unfolded lite_eth_chain_id_def]] by (simp add: assms(6))
  show "\<exists>input res. rpc_body J ''eth_sendTransaction'' [jn_string J raw_tx] = Ok input \<and>
      is_success res \<and> rpc_output J R' (or_body res) = Ok hash \<and> Ok res \<in> set (asked input)"
    if "lite_send_raw_transaction J R' X net rpc key raw_tx = Ok hash"
    using delivered [OF that [unfolded lite_send_raw_transaction_def]] by (simp add: assms(6))
qed

lemma client_results_come_from_agents_witness:
  "lite_get_best_block sample_json sample_result sample_texts
     (net_of sample_joins min sample_uri sample_env sample_canister) sample_lite ''k1'' = Ok ''ok'' \<and>
   (\<exists>res. or_body res = ''ok'' \<and>
     (\<forall>r\<in>set (call_all sample_uri sample_env sample_input (cs_agents sample_canister)). r = Ok res))"
proof -
  have np: "\<forall>req. \<forall>r\<in>set (call_all sample_uri sample_env req (cs_agents sample_canister)). \<not> is_panic r"
    using sample_agents_return by blast
  have body: "rpc_body sample_json meth params = Ok meth" for meth params
    by (simp add: rpc_body_def sample_json_def)
  note client_results_come_from_agents [OF sample_joins_documented net_of_served sample_order np refl,
      where rpc = sample_lite and key = "''k1''" and J = sample_json and R = sample_result and X = sample_texts
        and R' = sample_result and acc = min and block = "''ok''", THEN conjunct1, THEN mp, OF sample_best_block]
  then obtain res where "rpc_output sample_json sample_result (or_body res) = Ok ''ok''"
    "\<forall>r\<in>set (call_all sample_uri sample_env sample_input (cs_agents sample_canister)). r = Ok res"
    by (auto simp: body)
  then show ?thesis using sample_best_block by (auto simp: rpc_output_def sample_result_def)
qed

end
