(* ===== verification/Eth_Canister.thy ===== *)
theory Eth_Canister
  imports Json_Rpc Canister_Server
begin

text \<open>
  The example \<open>src/examples/eth-canister\<close>: a canister that calls a proxy server itself, without the proxy
  canister, and so has agents, tokens and their refresh of its own. The signing service, the
  encodings and the management canister's \<open>http_request\<close> are parameters, as for the proxy canister.
\<close>

section \<open>Agents\<close>

record eth_agent =
  ea_name :: string
  ea_endpoint :: string
  ea_max_cycles :: u64
  ea_proxy_token :: "string option"
  ea_api_token :: "string option"

definition ETH_APP_AGENT :: string where
  "ETH_APP_AGENT = ''Mozilla/5.0 eth-canister eth-canister/0.1.0''"

definition eth_request :: "eth_agent \<Rightarrow> string \<Rightarrow> bytes \<Rightarrow> outcall_request" where
  "eth_request agent key body =
     (let headers = [\<lparr>hd_name = ''content-type'', hd_value = ''application/json''\<rparr>,
            \<lparr>hd_name = ''user-agent'', hd_value = ETH_APP_AGENT\<rparr>,
            \<lparr>hd_name = ''response-headers'', hd_value = ''date''\<rparr>,
            \<lparr>hd_name = ''idempotency-key'', hd_value = key\<rparr>];
          headers = (case ea_proxy_token agent of None \<Rightarrow> headers
            | Some t \<Rightarrow> headers @ [\<lparr>hd_name = ''proxy-authorization'', hd_value = ''Bearer '' @ t\<rparr>]);
          headers = (case ea_api_token agent of None \<Rightarrow> headers
            | Some t \<Rightarrow> headers @ [\<lparr>hd_name = ''authorization'', hd_value = t\<rparr>])
      in \<lparr>oq_url = ea_endpoint agent, oq_max_response_bytes = None, oq_method = POST, oq_headers = headers,
          oq_body = Some body, oq_transform = Some (''transform_jsonrpc'', [])\<rparr>)"

text \<open>\<open>post\<close>, with the text of a status (a candid \<open>Nat\<close>) as a parameter.\<close>

definition eth_post :: "(nat \<Rightarrow> string) \<Rightarrow> outcall \<Rightarrow> eth_agent \<Rightarrow> string \<Rightarrow> bytes \<Rightarrow> (bytes, string) outcome" where
  "eth_post show_nat http_request agent key body =
     (case http_request (eth_request agent key body) (ucast (ea_max_cycles agent)) of
        Ok res \<Rightarrow>
          if 200 \<le> or_status res \<and> or_status res < 300 then Ok (or_body res)
          else Err (''failed to request url: '' @ ea_endpoint agent @ '', idempotency-key: '' @ key
            @ '', status: '' @ show_nat (or_status res) @ '', body: '' @ utf8_or_empty (or_body res))
      | Err (code, message) \<Rightarrow>
          Err (''the http_request resulted into error. code: '' @ code @ '', error: '' @ message)
      | Panic m \<Rightarrow> Panic m)"

definition transform_jsonrpc :: "outcall_response \<Rightarrow> outcall_response" where
  "transform_jsonrpc res = \<lparr>or_status = or_status res, or_headers = [], or_body = or_body res\<rparr>"

section \<open>Signing\<close>

definition eth_sign_with :: "signing_net \<Rightarrow> string \<Rightarrow> bytes list \<Rightarrow> bytes \<Rightarrow> (bytes, string) outcome" where
  "eth_sign_with service key_name path message_hash =
     map_err (\<lambda>err. ''sign_with_ecdsa failed '' @ err)
       (sn_sign_with_ecdsa service \<lparr>sw_message_hash = message_hash, sw_derivation_path = path,
          sw_key_id = \<lparr>ek_curve = Secp256k1, ek_name = key_name\<rparr>\<rparr>)"

definition eth_public_key_with :: "signing_net \<Rightarrow> string \<Rightarrow> bytes list \<Rightarrow> (bytes, string) outcome" where
  "eth_public_key_with service key_name path =
     map_err (\<lambda>err. ''ecdsa_public_key failed '' @ err)
       (sn_ecdsa_public_key service \<lparr>pk_canister_id = None, pk_derivation_path = path,
          pk_key_id = \<lparr>ek_curve = Secp256k1, ek_name = key_name\<rparr>\<rparr>)"

definition get_proxy_token_public_key :: "token_tools \<Rightarrow> signing_net \<Rightarrow> string \<Rightarrow> (string, string) outcome" where
  "get_proxy_token_public_key T service key_name =
     map_ok (tt_base64 T) (eth_public_key_with service key_name [''sign_proxy_token''])"

text \<open>The errors of the signing service are texts already; those of the encoder are made texts by \<open>tt_format_error\<close>.\<close>

definition eth_sign_proxy_token :: "token_tools \<Rightarrow> signing_net \<Rightarrow> string \<Rightarrow> u64 \<Rightarrow> string \<Rightarrow> (string, string) outcome" where
  "eth_sign_proxy_token T service key_name expire_at message =
     and_then (expect ''failed to encode Token in CBOR format'' (cbor_pair (tt_tokens T) (expire_at, message))) (\<lambda>buf.
     let digest = tt_sha3 T buf
     in and_then (eth_sign_with service key_name [''sign_proxy_token''] digest) (\<lambda>sig.
        and_then (map_err (tt_format_error T) (cbor_token (tt_tokens T) (expire_at, message, sig))) (\<lambda>buf.
          Ok (tt_base64 T buf))))"

section \<open>State\<close>

record eth_state =
  es_ecdsa_key_name :: string
  rpc_proxy_public_key :: string
  rpc_agents :: "eth_agent list"

definition eth_state_default :: eth_state where
  "eth_state_default = \<lparr>es_ecdsa_key_name = [], rpc_proxy_public_key = [], rpc_agents = []\<rparr>"

record eth_codec =
  ec_encode :: "eth_state \<Rightarrow> (bytes, string) outcome"
  ec_decode :: "bytes \<Rightarrow> (eth_state, string) outcome"

definition eth_to_bytes :: "eth_codec \<Rightarrow> eth_state \<Rightarrow> (bytes, string) outcome" where
  "eth_to_bytes C s = expect ''failed to encode State data'' (ec_encode C s)"

definition eth_from_bytes :: "eth_codec \<Rightarrow> bytes \<Rightarrow> (eth_state, string) outcome" where
  "eth_from_bytes C b = expect ''failed to decode State data'' (ec_decode C b)"

definition eth_get_agent :: "eth_state \<Rightarrow> (eth_agent, string) outcome" where
  "eth_get_agent s = (case rpc_agents s of [] \<Rightarrow> Panic ''no RPCAgent'' | agent # rest \<Rightarrow> Ok agent)"

text \<open>The key that is written to the state when the service has replied, if any; a failure traps.\<close>

definition eth_init_ecdsa_public_key :: "token_tools \<Rightarrow> signing_net \<Rightarrow> eth_state \<Rightarrow> (string option, string) outcome" where
  "eth_init_ecdsa_public_key T service s =
     (if rpc_proxy_public_key s = [] \<and> es_ecdsa_key_name s \<noteq> []
      then (case get_proxy_token_public_key T service (es_ecdsa_key_name s) of
          Ok pk \<Rightarrow> Ok (Some pk)
        | Err err \<Rightarrow> Panic (''failed to retrieve ECDSA public key: '' @ err)
        | Panic m \<Rightarrow> Panic m)
      else Ok None)"

definition eth_load :: "eth_codec \<Rightarrow> bytes \<Rightarrow> (eth_state, string) outcome" where
  "eth_load C stored = eth_from_bytes C stored"

definition eth_save :: "eth_codec \<Rightarrow> eth_state \<Rightarrow> (bytes, string) outcome" where
  "eth_save C s = eth_to_bytes C s"

section \<open>Refreshing the tokens\<close>

definition REFRESH_PROXY_TOKEN_INTERVAL :: u64 where
  "REFRESH_PROXY_TOKEN_INTERVAL = 60 * 60"

definition ETH_SECONDS :: u64 where
  "ETH_SECONDS = 1000000000"

fun eth_update_loop :: "token_tools \<Rightarrow> (nat \<Rightarrow> u64) \<Rightarrow> (nat \<Rightarrow> signing_net) \<Rightarrow> string
    \<Rightarrow> nat \<Rightarrow> (string \<rightharpoonup> string) \<Rightarrow> eth_agent list \<Rightarrow> (eth_agent list, string) outcome" where
  "eth_update_loop T now service key_name i tokens [] = Ok []"
| "eth_update_loop T now service key_name i tokens (agent # rest) =
     (case tokens (ea_name agent) of
        Some token \<Rightarrow>
          map_ok (\<lambda>done. agent\<lparr>ea_proxy_token := Some token\<rparr> # done)
            (eth_update_loop T now service key_name (Suc i) tokens rest)
      | None \<Rightarrow>
          and_then (expect ''failed to sign proxy token''
            (eth_sign_proxy_token T (service i) key_name
              (now i div ETH_SECONDS + REFRESH_PROXY_TOKEN_INTERVAL + 120) (ea_name agent))) (\<lambda>token.
            map_ok (\<lambda>done. agent\<lparr>ea_proxy_token := Some token\<rparr> # done)
              (eth_update_loop T now service key_name (Suc i) (tokens(ea_name agent \<mapsto> token)) rest)))"

text \<open>The agents that are written to the state at the end, if any.\<close>

definition eth_update_proxy_token :: "token_tools \<Rightarrow> (nat \<Rightarrow> u64) \<Rightarrow> (nat \<Rightarrow> signing_net) \<Rightarrow> string
    \<Rightarrow> eth_agent list \<Rightarrow> (eth_agent list option, string) outcome" where
  "eth_update_proxy_token T now service key_name as =
     (if as = [] then Ok None
      else map_ok Some (eth_update_loop T now service key_name 0 Map.empty as))"

definition eth_refresh_proxy_token :: "token_tools \<Rightarrow> (nat \<Rightarrow> u64) \<Rightarrow> (nat \<Rightarrow> signing_net) \<Rightarrow> eth_state
    \<Rightarrow> (eth_agent list option, string) outcome" where
  "eth_refresh_proxy_token T now service s =
     eth_update_proxy_token T now service (es_ecdsa_key_name s) (rpc_agents s)"

section \<open>The canister's methods\<close>

definition eth_is_controller :: "(principal \<Rightarrow> bool) \<Rightarrow> principal \<Rightarrow> (unit, string) outcome" where
  "eth_is_controller controller caller =
     (if controller caller then Ok () else Err ''user is not a controller'')"

definition eth_admin_set_agents :: "(principal \<Rightarrow> bool) \<Rightarrow> token_tools \<Rightarrow> (nat \<Rightarrow> u64) \<Rightarrow> (nat \<Rightarrow> signing_net)
    \<Rightarrow> principal \<Rightarrow> eth_agent list \<Rightarrow> eth_state \<Rightarrow> (eth_agent list option, string) outcome" where
  "eth_admin_set_agents controller T now service caller as s =
     and_then (eth_is_controller controller caller) (\<lambda>_.
       if as = [] then Err ''agents cannot be empty''
       else eth_update_proxy_token T now service (es_ecdsa_key_name s) as)"

definition eth_get_state :: "(principal \<Rightarrow> bool) \<Rightarrow> principal \<Rightarrow> eth_state \<Rightarrow> (eth_state, unit) outcome" where
  "eth_get_state controller caller s =
     (case eth_is_controller controller caller of
        Ok u \<Rightarrow> Ok s
      | _ \<Rightarrow> Ok (s\<lparr>rpc_agents := []\<rparr>))"

definition eth_update_eth_chain_id :: "'j json_lib \<Rightarrow> ('j, string) result_lib \<Rightarrow> (nat \<Rightarrow> string) \<Rightarrow> outcall
    \<Rightarrow> eth_state \<Rightarrow> (string, string) outcome" where
  "eth_update_eth_chain_id J R show_nat http_request s =
     and_then (eth_get_agent s) (\<lambda>agent.
       rpc_eth_chain_id J R (eth_post show_nat http_request agent) ''eth_chain_id'')"

definition eth_update_get_best_block :: "'j json_lib \<Rightarrow> ('j, 'j) result_lib \<Rightarrow> (nat \<Rightarrow> string) \<Rightarrow> outcall
    \<Rightarrow> u64 \<Rightarrow> eth_state \<Rightarrow> (string, string) outcome" where
  "eth_update_get_best_block J R show_nat http_request now s =
     and_then (eth_get_agent s) (\<lambda>agent.
       let ts = now div ETH_SECONDS;
           key = ''blk-best-'' @ show_decimal (unat ts)
       in and_then (rpc_get_best_block J R (eth_post show_nat http_request agent) key) (\<lambda>res. jn_to_string J res))"

section \<open>Installation and upgrade\<close>

datatype eth_args = EthInit string | EthUpgrade

text \<open>What a timer runs, in this order.\<close>

datatype eth_job = InitPublicKey | RefreshTokens

definition eth_init :: "eth_args option \<Rightarrow> eth_state \<Rightarrow> (eth_state \<times> (timer \<times> eth_job list) list, string) outcome" where
  "eth_init args s =
     (case args of
        None \<Rightarrow> Panic ''Init args is missing''
      | Some (EthInit key_name) \<Rightarrow>
          Ok (s\<lparr>es_ecdsa_key_name := key_name\<rparr>,
            [(Once, [InitPublicKey, RefreshTokens]), (Every REFRESH_PROXY_TOKEN_INTERVAL, [RefreshTokens])])
      | Some EthUpgrade \<Rightarrow>
          Panic ''Cannot initialize the canister with an Upgrade args. Please provide an Init args.'')"

definition eth_post_upgrade :: "eth_codec \<Rightarrow> bytes \<Rightarrow> eth_args option
    \<Rightarrow> (eth_state \<times> (timer \<times> eth_job list) list, string) outcome" where
  "eth_post_upgrade C stored args =
     and_then (eth_load C stored) (\<lambda>s.
       case args of
         Some (EthInit key_name) \<Rightarrow>
           Panic ''Cannot upgrade the canister with an Init args. Please provide an Upgrade args.''
       | _ \<Rightarrow> Ok (s, [(Once, [RefreshTokens]), (Every REFRESH_PROXY_TOKEN_INTERVAL, [RefreshTokens])]))"

section \<open>Histories\<close>

text \<open>
  The operations that await the signing service read the state when they begin and write it when they end.
  A history is a state with the writes under way: an operation that ends well adds its write when
  it begins (one that fails writes nothing), any write under way may happen next, and an upgrade
  stops the rest. \<open>N\<close> are the signing services that occur.
\<close>

datatype eth_write = WriteKey string | WriteAgents "eth_agent list"

definition eth_apply :: "eth_write \<Rightarrow> eth_state \<Rightarrow> eth_state" where
  "eth_apply w s = (case w of WriteKey pk \<Rightarrow> s\<lparr>rpc_proxy_public_key := pk\<rparr> | WriteAgents as \<Rightarrow> s\<lparr>rpc_agents := as\<rparr>)"

inductive eth_reachable :: "eth_codec \<Rightarrow> (principal \<Rightarrow> bool) \<Rightarrow> token_tools \<Rightarrow> (signing_net \<Rightarrow> bool)
    \<Rightarrow> eth_state \<Rightarrow> eth_write list \<Rightarrow> bool"
  for C controller T N where
  install: "eth_init args eth_state_default = Ok (s, timers) \<Longrightarrow> eth_reachable C controller T N s []"
| key: "eth_reachable C controller T N s ws \<Longrightarrow> N service \<Longrightarrow>
    eth_init_ecdsa_public_key T service s = Ok (Some pk) \<Longrightarrow> eth_reachable C controller T N s (WriteKey pk # ws)"
| refresh: "eth_reachable C controller T N s ws \<Longrightarrow> (\<And>i. N (service i)) \<Longrightarrow>
    eth_refresh_proxy_token T now service s = Ok (Some as) \<Longrightarrow> eth_reachable C controller T N s (WriteAgents as # ws)"
| set_agents: "eth_reachable C controller T N s ws \<Longrightarrow> (\<And>i. N (service i)) \<Longrightarrow>
    eth_admin_set_agents controller T now service caller as s = Ok (Some bs) \<Longrightarrow>
    eth_reachable C controller T N s (WriteAgents bs # ws)"
| written: "eth_reachable C controller T N s ws \<Longrightarrow> w \<in> set ws \<Longrightarrow>
    eth_reachable C controller T N (eth_apply w s) (remove1 w ws)"
| upgrade: "eth_reachable C controller T N s ws \<Longrightarrow> eth_save C s = Ok b \<Longrightarrow>
    eth_post_upgrade C b args = Ok (s', timers) \<Longrightarrow> eth_reachable C controller T N s' []"

definition eth_codec_documented :: "eth_codec \<Rightarrow> bool" where
  "eth_codec_documented C \<longleftrightarrow> (\<forall>s b. ec_encode C s = Ok b \<longrightarrow> ec_decode C b = Ok s)"

section \<open>The proxy canister's view\<close>

text \<open>The tokens of this canister are those of the proxy canister, without a COSE canister and with a fixed interval.\<close>

definition as_agent :: "eth_agent \<Rightarrow> agent" where
  "as_agent a = \<lparr>ag_name = ea_name a, ag_endpoint = ea_endpoint a, ag_max_cycles = ea_max_cycles a,
     ag_proxy_token = ea_proxy_token a\<rparr>"

definition as_signer :: "string \<Rightarrow> signer" where
  "as_signer key_name = \<lparr>sg_key_name = key_name, sg_cose = None\<rparr>"

definition as_canister :: "eth_state \<Rightarrow> canister_state" where
  "as_canister s = state_default\<lparr>ecdsa_key_name := es_ecdsa_key_name s, proxy_token_public_key := rpc_proxy_public_key s,
     proxy_token_refresh_interval := REFRESH_PROXY_TOKEN_INTERVAL, cs_agents := map as_agent (rpc_agents s)\<rparr>"

lemma as_agent_simps [simp]:
  "ag_name (as_agent a) = ea_name a" "ag_proxy_token (as_agent a) = ea_proxy_token a"
  "as_agent (a\<lparr>ea_proxy_token := t\<rparr>) = (as_agent a)\<lparr>ag_proxy_token := t\<rparr>"
  by (simp_all add: as_agent_def)

lemma signer_as_canister: "signer (as_canister s) = as_signer (es_ecdsa_key_name s)"
  by (simp add: signer_def as_canister_def as_signer_def state_default_def)

lemma eth_sign_is_canisters:
  "eth_sign_proxy_token T service key_name e m = sign_proxy_token T service (as_signer key_name) e m"
  by (simp add: eth_sign_proxy_token_def sign_proxy_token_def sign_digest_def as_signer_def eth_sign_with_def
      sign_with_def SIGN_PROXY_TOKEN_PATH_def Let_def)

lemma map_ok_map_ok: "map_ok f (map_ok g r) = map_ok (\<lambda>x. f (g x)) r"
  by (cases r) simp_all

lemma map_ok_and_then: "map_ok f (and_then r g) = and_then r (\<lambda>x. map_ok f (g x))"
  by (cases r) simp_all

lemma eth_update_loop_is_canisters:
  "map_ok (map as_agent) (eth_update_loop T now service key_name i tokens as) =
   update_loop T now service (as_signer key_name) REFRESH_PROXY_TOKEN_INTERVAL i tokens (map as_agent as)"
proof (induction as arbitrary: i tokens)
  case (Cons a as)
  have "map_ok (\<lambda>done. as_agent (a\<lparr>ea_proxy_token := Some t\<rparr>) # map as_agent done)
      (eth_update_loop T now service key_name (Suc i) tok as) =
    map_ok (\<lambda>done. (as_agent a)\<lparr>ag_proxy_token := Some t\<rparr> # done)
      (update_loop T now service (as_signer key_name) REFRESH_PROXY_TOKEN_INTERVAL (Suc i) tok (map as_agent as))" for t tok
    by (simp add: Cons.IH [symmetric] map_ok_map_ok)
  then show ?case
    by (simp add: map_ok_map_ok map_ok_and_then eth_sign_is_canisters ETH_SECONDS_def SECONDS_def split: option.split)
qed simp

lemma eth_update_is_canisters:
  "map_ok (map_option (map as_agent)) (eth_update_proxy_token T now service key_name as) =
   update_proxy_token T now service (as_signer key_name) REFRESH_PROXY_TOKEN_INTERVAL (map as_agent as)"
  by (simp add: eth_update_proxy_token_def update_proxy_token_def map_ok_map_ok
      eth_update_loop_is_canisters [symmetric])

section \<open>Tokens in every state\<close>

definition eth_signed :: "token_tools \<Rightarrow> (signing_net \<Rightarrow> bool) \<Rightarrow> string \<Rightarrow> eth_agent \<Rightarrow> bool" where
  "eth_signed T N key_name a \<longleftrightarrow>
     (\<exists>t now service. ea_proxy_token a = Some t \<and> N service \<and>
        eth_sign_proxy_token T service key_name (now div ETH_SECONDS + REFRESH_PROXY_TOKEN_INTERVAL + 120) (ea_name a) = Ok t)"

lemma eth_update_signed:
  assumes "eth_update_proxy_token T now service key_name as = Ok (Some bs)" and "\<And>i. N (service i)" and "b \<in> set bs"
  shows "eth_signed T N key_name b"
proof -
  from assms(1) eth_update_is_canisters [of T now service key_name as]
  have "update_proxy_token T now service (as_signer key_name) REFRESH_PROXY_TOKEN_INTERVAL (map as_agent as) =
      Ok (Some (map as_agent bs))" by simp
  then have "update_loop T now service (as_signer key_name) REFRESH_PROXY_TOKEN_INTERVAL 0 Map.empty (map as_agent as) =
      Ok (map as_agent bs)"
    by (auto simp: update_proxy_token_def split: if_splits)
  from update_loop_signed [OF this, of "as_agent b"] assms(2,3) show ?thesis
    by (auto simp: eth_signed_def eth_sign_is_canisters ETH_SECONDS_def SECONDS_def)
qed

definition eth_ok :: "token_tools \<Rightarrow> (signing_net \<Rightarrow> bool) \<Rightarrow> eth_state \<Rightarrow> eth_write list \<Rightarrow> bool" where
  "eth_ok T N s ws \<longleftrightarrow>
     (\<forall>a\<in>set (rpc_agents s). eth_signed T N (es_ecdsa_key_name s) a) \<and>
     (\<forall>as. WriteAgents as \<in> set ws \<longrightarrow> (\<forall>a\<in>set as. eth_signed T N (es_ecdsa_key_name s) a))"

lemma eth_reachable_ok:
  assumes "eth_codec_documented C" and "eth_reachable C controller T N s ws"
  shows "eth_ok T N s ws"
  using assms(2)
proof (induction rule: eth_reachable.induct)
  case (install args s timers)
  then show ?case
    by (auto simp: eth_init_def eth_state_default_def eth_ok_def split: option.splits eth_args.splits)
next
  case (key s ws service pk)
  then show ?case by (simp add: eth_ok_def)
next
  case (refresh s ws service now as)
  then show ?case
    using eth_update_signed [of T now service "es_ecdsa_key_name s" "rpc_agents s" as N]
    by (auto simp: eth_ok_def eth_refresh_proxy_token_def)
next
  case (set_agents s ws service now caller as bs)
  then have "eth_update_proxy_token T now service (es_ecdsa_key_name s) as = Ok (Some bs)"
    by (auto simp: eth_admin_set_agents_def split: if_splits)
  with set_agents show ?case
    using eth_update_signed [of T now service "es_ecdsa_key_name s" as bs N] by (auto simp: eth_ok_def)
next
  case (written s ws w)
  then show ?case
    by (cases w) (auto simp: eth_ok_def eth_apply_def dest: notin_set_remove1)
next
  case (upgrade s ws b args s' timers)
  then have "s' = s"
    using assms(1)
    by (auto simp: eth_save_def eth_to_bytes_def eth_post_upgrade_def eth_load_def eth_from_bytes_def
        eth_codec_documented_def split: option.splits eth_args.splits)
  with upgrade show ?case by (simp add: eth_ok_def)
qed

section \<open>Posts\<close>

interpretation eth: rpc_transport "eth_post show_nat http_request a"
  "\<lambda>key body res. http_request (eth_request a key body) (ucast (ea_max_cycles a)) = Ok res"
  for show_nat http_request a
  by unfold_locales (auto simp: eth_post_def is_success_def split: outcome.splits if_splits)

text \<open>What the canister answers is in a successful response to a request of its first agent.\<close>

lemma eth_chain_id_from_proxy:
  assumes "eth_update_eth_chain_id J R show_nat http_request s = Ok v"
  shows "\<exists>a as input res. rpc_agents s = a # as \<and> rpc_body J ''eth_chainId'' [] = Ok input \<and>
    http_request (eth_request a ''eth_chain_id'' input) (ucast (ea_max_cycles a)) = Ok res \<and> is_success res \<and>
    rpc_output J R (or_body res) = Ok v"
proof -
  from assms obtain a as where a: "rpc_agents s = a # as" and
    c: "rpc_eth_chain_id J R (eth_post show_nat http_request a) ''eth_chain_id'' = Ok v"
    by (auto simp: eth_update_eth_chain_id_def eth_get_agent_def split: list.splits)
  from eth.call_Ok [OF c [unfolded rpc_eth_chain_id_def]] a show ?thesis by blast
qed

lemma eth_request_token:
  assumes "ea_proxy_token a = Some t"
  shows "map_of (map (\<lambda>h. (hd_name h, hd_value h)) (oq_headers (eth_request a key body))) ''proxy-authorization'' =
    Some (''Bearer '' @ t)"
  using assms by (simp add: eth_request_def Let_def map_add_def split: option.splits)

section \<open>Samples\<close>

definition sample_eth_agent :: eth_agent where
  "sample_eth_agent = \<lparr>ea_name = ''b'', ea_endpoint = ''https://proxy'', ea_max_cycles = 1000, ea_proxy_token = None,
     ea_api_token = Some ''api''\<rparr>"

definition sample_eth_state :: eth_state where
  "sample_eth_state = eth_state_default\<lparr>es_ecdsa_key_name := ''key_1''\<rparr>"

definition sample_eth_codec :: eth_codec where
  "sample_eth_codec = \<lparr>ec_encode = (\<lambda>s. Err ''io''), ec_decode = (\<lambda>b. Err ''io'')\<rparr>"

lemma sample_eth_codec_documented: "eth_codec_documented sample_eth_codec"
  by (simp add: eth_codec_documented_def sample_eth_codec_def)

section \<open>Properties\<close>

text \<open>
  C28: The example's tokens are the proxy canister's. In the view that forgets the API tokens, a refresh and a
  change of the agents by a controller give in every situation the agents that those of the proxy
  canister give (a canister with the same key name, no COSE canister, and one hour between the refreshes):
  the same tokens from the same replies of the signing service, in the same order, and a trap for a trap.
\<close>
theorem eth_tokens_are_the_canisters:
  "map_ok (map_option (map as_agent)) (eth_refresh_proxy_token T now service s) =
     refresh_proxy_token T now service (as_canister s) \<and>
   (controller caller \<longrightarrow>
     map_ok (map_option (map as_agent)) (eth_admin_set_agents controller T now service caller as s) =
       admin_set_agents controller T now service caller (map as_agent as) (as_canister s))"
proof -
  have s: "proxy_token_refresh_interval (as_canister s) = REFRESH_PROXY_TOKEN_INTERVAL"
    "cs_agents (as_canister s) = map as_agent (rpc_agents s)"
    by (simp_all add: as_canister_def)
  show ?thesis
    by (simp add: eth_refresh_proxy_token_def refresh_proxy_token_def eth_admin_set_agents_def admin_set_agents_def
        eth_is_controller_def is_controller_or_manager_def validate_admin_set_agents_def eth_update_is_canisters
        signer_as_canister s)
qed

lemma eth_tokens_are_the_canisters_witness:
  "map_ok (map_option (map as_agent))
     (eth_admin_set_agents (\<lambda>p. p = ''root'') sample_tools (\<lambda>_. 0) (\<lambda>_. sample_service) ''root'' [sample_eth_agent] sample_eth_state) =
   admin_set_agents (\<lambda>p. p = ''root'') sample_tools (\<lambda>_. 0) (\<lambda>_. sample_service) ''root'' [as_agent sample_eth_agent]
     (as_canister sample_eth_state)"
  using eth_tokens_are_the_canisters [of sample_tools "\<lambda>_. 0" "\<lambda>_. sample_service" sample_eth_state
      "\<lambda>p. p = ''root''" "''root''" "[sample_eth_agent]"] by simp

text \<open>
  C27: No request without a valid token. In every state the example can reach, however refreshes, changes of the
  agents and upgrades interleave, every agent it may call has a token: whatever it posts passes the access
  control of every server that has the canister's public key and does not exclude the agent's name, from
  the moment the token was signed until 130 seconds after the refresh that is due an hour later.
\<close>
theorem eth_requests_pass_access_control:
  assumes "eth_reachable C controller T N s ws" and "eth_codec_documented C"
    and "tools_documented T (base64_decode (net L))" and "tt_tokens T = tok L" and "token_codec_documented (tok L)"
    and "\<forall>service. N service \<longrightarrow> service_documented (ecdsa_lib L) vk (as_signer (es_ecdsa_key_name s)) service"
    and "vk \<in> set (ecdsa_pub_keys app)" and "agents app = [] \<or> ea_name a \<in> set (agents app)"
    and "eth_get_agent s = Ok a" and "presents (http L) (eth_request a key body) req"
  shows "\<exists>t service signed_at. ea_proxy_token a = Some t \<and> N service \<and>
    eth_sign_proxy_token T service (es_ecdsa_key_name s)
      (signed_at div ETH_SECONDS + REFRESH_PROXY_TOKEN_INTERVAL + 120) (ea_name a) = Ok t \<and>
    (\<forall>ms. unat ms div 1000 \<le> unat signed_at div 10 ^ 9 + 3600 + 130 \<longrightarrow> access_control L app req ms = Ok (ea_name a))"
proof -
  have "a \<in> set (rpc_agents s)" using assms(9) by (auto simp: eth_get_agent_def split: list.splits)
  with eth_reachable_ok [OF assms(2,1)] have "eth_signed T N (es_ecdsa_key_name s) a" by (simp add: eth_ok_def)
  then obtain t now service where t: "ea_proxy_token a = Some t" and n: "N service" and
    sig: "sign_proxy_token T service (as_signer (es_ecdsa_key_name s))
      (now div SECONDS + REFRESH_PROXY_TOKEN_INTERVAL + 120) (ea_name a) = Ok t"
    by (auto simp: eth_signed_def eth_sign_is_canisters ETH_SECONDS_def SECONDS_def)
  have codec: "token_codec_documented (tt_tokens T)" using assms(4,5) by simp
  from assms(6) n have "service_documented (ecdsa_lib L) vk (as_signer (es_ecdsa_key_name s)) service" by blast
  from signed_token_accepted [OF assms(3) codec this sig assms(7)] obtain data sg where
    d: "base64_decode (net L) t = Ok data" and
    v: "\<And>ms. \<not> token_expired (Token (now div SECONDS + REFRESH_PROXY_TOKEN_INTERVAL + 120) (ea_name a) sg) ms \<Longrightarrow>
      ecdsa_verify (tok L) (ecdsa_lib L) (ecdsa_pub_keys app) data ms =
        Ok (Token (now div SECONDS + REFRESH_PROXY_TOKEN_INTERVAL + 120) (ea_name a) sg)"
    using assms(4) by auto
  have "ecdsa_pub_keys app \<noteq> []" using assms(7) by auto
  note let_in = access_control_bearer [OF eth_request_token [OF t] assms(10) d this v assms(8)]
  have "unat REFRESH_PROXY_TOKEN_INTERVAL = 3600" by (simp add: REFRESH_PROXY_TOKEN_INTERVAL_def)
  then have "\<forall>ms. unat ms div 1000 \<le> unat now div 10 ^ 9 + 3600 + 130 \<longrightarrow> access_control L app req ms = Ok (ea_name a)"
    using let_in not_expired [of REFRESH_PROXY_TOKEN_INTERVAL _ now "ea_name a" sg] by simp
  with t n sig show ?thesis unfolding eth_sign_is_canisters ETH_SECONDS_def SECONDS_def by blast
qed

lemma eth_requests_pass_access_control_witness:
  "\<exists>s a. eth_reachable sample_eth_codec (\<lambda>p. p = ''root'') sample_tools (\<lambda>service. service = sample_service) s [] \<and>
     eth_get_agent s = Ok a \<and>
     access_control sample_libs sample_server (sample_arrival (eth_request a ''k1'' ''body'')) 190000 = Ok ''b''"
proof -
  let ?R = "eth_reachable sample_eth_codec (\<lambda>p. p = ''root'') sample_tools (\<lambda>service. service = sample_service)"
  have key: "as_signer ''key_1'' = sample_key1" by (simp add: as_signer_def sample_key1_def)
  obtain t where "eth_sign_proxy_token sample_tools sample_service ''key_1''
      (0 div ETH_SECONDS + REFRESH_PROXY_TOKEN_INTERVAL + 120) ''b'' = Ok t"
    using sample_signs key by (auto simp: eth_sign_is_canisters)
  then have set: "eth_admin_set_agents (\<lambda>p. p = ''root'') sample_tools (\<lambda>_. 0) (\<lambda>_. sample_service) ''root''
      [sample_eth_agent] sample_eth_state = Ok (Some [sample_eth_agent\<lparr>ea_proxy_token := Some t\<rparr>])"
    by (simp add: eth_admin_set_agents_def eth_is_controller_def eth_update_proxy_token_def sample_eth_state_def sample_eth_agent_def)
  let ?a = "sample_eth_agent\<lparr>ea_proxy_token := Some t\<rparr>"
  let ?s = "eth_apply (WriteAgents [?a]) sample_eth_state"
  have "eth_init (Some (EthInit ''key_1'')) eth_state_default = Ok (sample_eth_state,
      [(Once, [InitPublicKey, RefreshTokens]), (Every REFRESH_PROXY_TOKEN_INTERVAL, [RefreshTokens])])"
    by (simp add: eth_init_def sample_eth_state_def)
  then have "?R sample_eth_state []" by (rule eth_reachable.install)
  from eth_reachable.set_agents [OF this _ set] have "?R sample_eth_state [WriteAgents [?a]]" by simp
  from eth_reachable.written [OF this, of "WriteAgents [?a]"] have r: "?R ?s []" by simp
  have a: "eth_get_agent ?s = Ok ?a" and k: "es_ecdsa_key_name ?s = ''key_1''"
    by (simp_all add: eth_get_agent_def eth_apply_def sample_eth_state_def)
  let ?q = "eth_request ?a ''k1'' ''body''"
  have p: "presents (http sample_libs) ?q (sample_arrival ?q)"
    by (rule sample_arrives) (simp add: eth_request_def sample_eth_agent_def)
  have n: "\<forall>service. service = sample_service \<longrightarrow>
      service_documented (ecdsa_lib sample_libs) CHR ''k'' (as_signer (es_ecdsa_key_name ?s)) service"
    using sample_trust(5) unfolding k key by blast
  have srv: "agents sample_server = [] \<or> ea_name ?a \<in> set (agents sample_server)"
    using sample_trust(6) by (simp add: sample_eth_agent_def)
  from eth_requests_pass_access_control [OF r sample_eth_codec_documented sample_trust(1-3) n sample_trust(4) srv a p] obtain signed_at :: u64 where
    "\<forall>ms. unat ms div 1000 \<le> unat signed_at div 10 ^ 9 + 3600 + 130 \<longrightarrow>
       access_control sample_libs sample_server (sample_arrival ?q) ms = Ok (ea_name ?a)" by blast
  from spec [OF this, of 190000] have "access_control sample_libs sample_server (sample_arrival ?q) 190000 = Ok (ea_name ?a)"
    by simp
  with r a show ?thesis by (auto simp: sample_eth_agent_def)
qed

end
