(* ===== verification/Replicated_Outcalls.thy ===== *)
theory Replicated_Outcalls
  imports Canister_Server Proxy_System
begin

text \<open>
  What the two parts of the program are for, together: every replica of the canister makes the same outcall,
  and the server answers all of them as one. The replicas' requests are tasks of the interleaved server
  (\<open>Proxy_System\<close>); what they receive goes through the canister's transform (\<open>Canister_Agent\<close>) before
  the replicas compare it.
\<close>

section \<open>From an outcall to a task and back\<close>

text \<open>An outcall's response as a replica reads it: the server's status and body, with any headers.\<close>

definition received :: "('h, 'v) http_lib \<Rightarrow> response_data \<Rightarrow> outcall_response \<Rightarrow> bool" where
  "received H rd res \<longleftrightarrow>
     (\<exists>r. into_response H rd = Ok r \<and> or_status res = unat (resp_status r) \<and> or_body res = resp_body r)"

lemma received_same: "received H rd res \<Longrightarrow> received H rd res' \<Longrightarrow>
    inner_transform_response res = inner_transform_response res'"
  by (auto simp: received_def inner_transform_response_def)

lemma build_request_headers:
  "build_request X a oq = Ok oq' \<Longrightarrow> \<exists>hs. oq_headers oq' = oq_headers oq @ hs"
  by (cases "starts_with (oq_url oq) ''URL_''"; cases "ag_proxy_token a")
    (auto simp: build_request_def build_target_def Let_def split: if_splits)

lemma build_request_key:
  assumes "build_request X a oq = Ok oq'"
    and "map_of (map (\<lambda>h. (hd_name h, hd_value h)) (oq_headers oq)) ''idempotency-key'' = Some ik"
  shows "map_of (map (\<lambda>h. (hd_name h, hd_value h)) (oq_headers oq')) ''idempotency-key'' = Some ik"
  using build_request_headers [OF assms(1)] assms(2) by (auto simp: map_add_def)

text \<open>A request that is let in, whose target is served, waits for the key of its agent, method and idempotency key.\<close>

lemma begin_task_key:
  assumes "access_control L app req ms = Ok name" and "target_url L app req = Ok u"
    and "presents (http L) oq req" and "ik \<noteq> []"
    and "map_of (map (\<lambda>h. (hd_name h, hd_value h)) (oq_headers oq)) ''idempotency-key'' = Some ik"
  shows "begin_task L app req ms =
    Obtaining req \<lparr>adm_agent = name, adm_url = u, adm_key = cache_key name (req_method req) ik\<rparr>"
proof -
  have "extract_header (http L) (req_headers req) HEADER_IDEMPOTENCY_KEY [] = ik"
    using assms(3,5) unfolding presents_def HEADER_IDEMPOTENCY_KEY_def by blast
  with assms(1,2,4) show ?thesis by (simp add: begin_task_def admit_def idempotency_key_def)
qed

section \<open>Properties\<close>

text \<open>
  C7: Replicated outcalls are sent once and answered alike. Let an agent of the canister, with a token of a
  refresh, build the request for a client's call, and let any number of replicas send it to a server that
  has the canister's key: while the token is fresh, each of them becomes a task that waits for one and the same
  key. In every run of the server that starts without responses in the cache, with whatever else goes on, and as
  long as the lifetime of the key's first grant lasts, the key is not deleted, no \<open>set\<close> of it fails and
  no \<open>del\<close> of it is dropped between its locks, at most one request for that key goes upstream, and whichever of
  its tasks are answered, the replicas agree on what the canister sees of the answer.
\<close>
theorem replicated_outcalls_are_sent_once_and_agree:
  assumes "tools_documented T (base64_decode (net L))" and "tt_tokens T = tok L" and "token_codec_documented (tok L)"
    and "\<forall>i. service_documented (ecdsa_lib L) vk sg (service i)" and "vk \<in> set (ecdsa_pub_keys app)"
    and "unat interval < 2 ^ 63"
    and "update_proxy_token T now service sg interval as = Ok (Some bs)" and "b \<in> set bs"
    and "build_request X b oq = Ok oq'"
    and "\<forall>h\<in>set (oq_headers oq). hd_name h \<noteq> ''proxy-authorization''"
    and "map_of (map (\<lambda>h. (hd_name h, hd_value h)) (oq_headers oq)) ''idempotency-key'' = Some ik" and "ik \<noteq> []"
    and "agents app = [] \<or> ag_name b \<in> set (agents app)"
    and "k = cache_key (ag_name b) meth ik"
    and "redis_documented (redis L) view" and "response_codec_documented (codec L)"
    and "sys_run L app s0 tr s" and "tasks s0 = (\<lambda>_. Idle)"
    and "\<forall>k w. \<not> hybrid_source view (shared s0) (clock s0) k w" and "hybrid_ok k (shared s0)"
    and "unspoilt k tr" and "never_deleted k tr"
    and "no_overflow (clock s) (cache_ttl (shared s0))" and "within_lifetime k (cache_ttl (shared s0)) (clock s) tr"
  shows "(\<exists>i<length as. \<forall>req u ms. presents (http L) oq' req \<and> req_method req = meth \<and> target_url L app req = Ok u \<and>
      unat ms div 1000 \<le> unat (now i) div 10 ^ 9 + unat interval + 130 \<longrightarrow>
      begin_task L app req ms = Obtaining req \<lparr>adm_agent = ag_name b, adm_url = u, adm_key = k\<rparr>) \<and>
    length (sent_ids k tr) \<le> 1 \<and>
    (\<forall>x y rd rd' res res'. tasks s x = Finished (Some k) (Ok rd) \<and> tasks s y = Finished (Some k) (Ok rd') \<and>
      received (http L) rd res \<and> received (http L) rd' res' \<longrightarrow>
      inner_transform_response res = inner_transform_response res')"
proof (intro conjI)
  have "token_codec_documented (tt_tokens T)" using assms(2,3) by simp
  from refreshed_token_accepted [OF assms(1) this assms(4-8)] obtain t data i sig where
    t: "ag_proxy_token b = Some t" and d: "base64_decode (net L) t = Ok data" and i: "i < length as" and
    v: "\<And>ms. unat ms div 1000 \<le> unat (now i) div 10 ^ 9 + unat interval + 130 \<Longrightarrow>
       ecdsa_verify (tok L) (ecdsa_lib L) (ecdsa_pub_keys app) data ms =
         Ok (Token (now i div SECONDS + interval + 120) (ag_name b) sig)"
    using assms(2) by auto
  have "ecdsa_pub_keys app \<noteq> []" using assms(5) by auto
  note let_in = access_control_bearer [OF build_request_token [OF assms(9) t assms(10)] _ d this v assms(13)]
  note begun = begin_task_key [OF let_in _ _ assms(12) build_request_key [OF assms(9,11)]]
  show "\<exists>i<length as. \<forall>req u ms. presents (http L) oq' req \<and> req_method req = meth \<and> target_url L app req = Ok u \<and>
      unat ms div 1000 \<le> unat (now i) div 10 ^ 9 + unat interval + 130 \<longrightarrow>
      begin_task L app req ms = Obtaining req \<lparr>adm_agent = ag_name b, adm_url = u, adm_key = k\<rparr>"
    using begun i assms(14) by blast
  show "length (sent_ids k tr) \<le> 1"
    by (rule sys_run_sent_once [OF assms(15,17,18,20-24)])
  show "\<forall>x y rd rd' res res'. tasks s x = Finished (Some k) (Ok rd) \<and> tasks s y = Finished (Some k) (Ok rd') \<and>
      received (http L) rd res \<and> received (http L) rd' res' \<longrightarrow>
      inner_transform_response res = inner_transform_response res'"
    using sys_run_agree [OF assms(15-24)] received_same by blast
qed

text \<open>Two replicas send the request; the first task to take its key forwards it.\<close>

lemma sample_two_replicas:
  assumes "begin_task sample_libs sample_server req 1000 = Obtaining req adm" and "req_method req = ''GET''"
  shows "\<exists>h up. sys_run sample_libs sample_server (sample_at 1000 sample_cache Idle Idle)
    [(1000, Internal), (1000, Internal), (1000, Granted 0 (adm_key adm)), (1000, Sent 0 (adm_key adm))]
    (sample_at 1000 h (Waiting req (adm_key adm)) (Obtaining req adm))"
proof -
  let ?L = sample_libs and ?A = sample_server
  let ?h = "sample_locked (adm_key adm)"
  obtain up where "build_upstream ?L ?A req (adm_url adm) = Ok up"
    using assms(2) by (simp add: build_upstream_def sample_libs_def list_http_def)
  then have sending: "after_obtain ?L ?A req adm ?h (Ok True) = Sending req adm up"
    by (simp add: after_obtain_def)
  have s1: "sys_step ?L ?A (sample_at 1000 sample_cache Idle Idle) Internal (sample_at 1000 sample_cache (Obtaining req adm) Idle)"
    using sys_step.arrive [of "sample_at 1000 sample_cache Idle Idle" 0 ?L ?A req] by (simp add: assms(1))
  have s2: "sys_step ?L ?A (sample_at 1000 sample_cache (Obtaining req adm) Idle) Internal
      (sample_at 1000 sample_cache (Obtaining req adm) (Obtaining req adm))"
    using sys_step.arrive [of "sample_at 1000 sample_cache (Obtaining req adm) Idle" "Suc 0" ?L ?A req] by (simp add: assms(1))
  have s3: "sys_step ?L ?A (sample_at 1000 sample_cache (Obtaining req adm) (Obtaining req adm)) (Granted 0 (adm_key adm))
      (sample_at 1000 ?h (Sending req adm up) (Obtaining req adm))"
  proof -
    let ?s = "sample_at 1000 sample_cache (Obtaining req adm) (Obtaining req adm)"
    have o: "hybrid_obtain (redis ?L) (shared ?s) (clock ?s) (adm_key adm) (cache_ttl (shared ?s)) = (Ok True, ?h)"
      unfolding sample_at_simps by (rule sample_obtain)
    have t: "tasks ?s 0 = Obtaining req adm" by simp
    from sys_step.take [OF t o, of ?A] show ?thesis unfolding sending by simp
  qed
  have s4: "sys_step ?L ?A (sample_at 1000 ?h (Sending req adm up) (Obtaining req adm)) (Sent 0 (adm_key adm))
      (sample_at 1000 ?h (Waiting req (adm_key adm)) (Obtaining req adm))"
    using sys_step.send [of "sample_at 1000 ?h (Sending req adm up) (Obtaining req adm)" 0 req adm up ?L ?A] by simp
  note r = sys_run_trans [OF sys_run_one [OF s4] sys_run_trans [OF sys_run_one [OF s3]
      sys_run_trans [OF sys_run_one [OF s2] sys_run_one [OF s1]]]]
  from r show ?thesis by auto
qed

lemma replicated_outcalls_are_sent_once_and_agree_witness:
  "\<exists>s adm req. sys_run sample_libs sample_server (sample_at 1000 sample_cache Idle Idle)
       [(1000, Internal), (1000, Internal), (1000, Granted 0 ''b:GET:k1''), (1000, Sent 0 ''b:GET:k1'')] s \<and>
     tasks s 1 = Obtaining req adm \<and> adm_key adm = ''b:GET:k1'' \<and>
     length (sent_ids ''b:GET:k1'' [(1000, Internal), (1000, Internal), (1000, Granted 0 ''b:GET:k1''), (1000, Sent 0 ''b:GET:k1'')]) \<le> 1"
proof -
  let ?q = "sample_oq ''https://api.com/v1''"
  obtain bs b oq' where run: "update_proxy_token sample_tools (\<lambda>_. 5000000000) (\<lambda>_. sample_service) sample_key1 60 sample_agents = Ok (Some bs)"
    and b: "b \<in> set bs" "ag_name b = ''b''" and build: "build_request sample_uri b ?q = Ok oq'"
    and names: "\<forall>h\<in>set (oq_headers oq'). hd_name h \<noteq> []" using sample_refreshed by blast
  have q: "\<forall>h\<in>set (oq_headers ?q). hd_name h \<noteq> ''proxy-authorization''" "''k1'' \<noteq> []"
    "map_of (map (\<lambda>h. (hd_name h, hd_value h)) (oq_headers ?q)) ''idempotency-key'' = Some ''k1''"
    by (simp_all add: sample_oq_def)
  have k: "''b:GET:k1'' = cache_key (ag_name b) ''GET'' ''k1''" by (simp add: cache_key_def b)
  have more: "\<forall>i::nat. service_documented (ecdsa_lib sample_libs) CHR ''k'' sample_key1 sample_service"
    "unat (60 :: u64) < 2 ^ 63" "agents sample_server = [] \<or> ag_name b \<in> set (agents sample_server)"
    using sample_trust by (simp_all add: b)
  have R: "redis_documented (redis sample_libs) ref_view" "response_codec_documented (codec sample_libs)"
    using ref_redis_documented sample_codec_documented by (simp_all add: sample_libs_def)
  let ?init = "sample_at 1000 sample_cache Idle Idle"
  have e: "\<forall>k w. \<not> hybrid_source ref_view (shared ?init) (clock ?init) k w" by (simp add: sample_empty)
  have ok: "hybrid_ok ''b:GET:k1'' (shared ?init)" by (simp add: sample_full_facts(4))
  note capstone = replicated_outcalls_are_sent_once_and_agree
    [OF sample_trust(1-3) more(1) sample_trust(4) more(2) run b(1) build q(1,3,2) more(3) k R _ sample_config(2) e ok]
  have none: "unspoilt ''b:GET:k1'' []" "never_deleted ''b:GET:k1'' []" "no_overflow (clock ?init) (cache_ttl (shared ?init))"
    "within_lifetime ''b:GET:k1'' (cache_ttl (shared ?init)) (clock ?init) []"
    by (simp_all add: sample_config(1) no_overflow_def within_lifetime_def)
  let ?req = "sample_arrival oq'" and ?adm = "\<lparr>adm_agent = ag_name b, adm_url = ''https://a'', adm_key = ''b:GET:k1''\<rparr>"
  have "presents (http sample_libs) oq' ?req" by (rule sample_arrives [OF names])
  moreover have "req_method ?req = ''GET''" by (simp add: sample_arrival_def sample_request_def)
  moreover have "target_url sample_libs sample_server ?req = Ok ''https://a''"
    by (simp add: target_url_def sample_arrival_def sample_request_def sample_server_def sample_app_def starts_with_def
        strip_prefix_def sample_libs_def sample_net_def)
  ultimately have "begin_task sample_libs sample_server ?req 1000 = Obtaining ?req ?adm"
    using capstone [OF run_start none] by force
  from sample_two_replicas [OF this] obtain h where
    two: "sys_run sample_libs sample_server ?init
      [(1000, Internal), (1000, Internal), (1000, Granted 0 ''b:GET:k1''), (1000, Sent 0 ''b:GET:k1'')]
      (sample_at 1000 h (Waiting ?req ''b:GET:k1'') (Obtaining ?req ?adm))" (is "sys_run _ _ _ ?tr ?fin")
    by (auto simp: sample_arrival_def sample_request_def)
  have "unspoilt ''b:GET:k1'' ?tr" "never_deleted ''b:GET:k1'' ?tr" by (auto simp: unspoilt_def never_deleted_def)
  moreover have "no_overflow (clock ?fin) (cache_ttl (shared ?init))"
    using none(3) unfolding sample_at_simps by blast
  moreover have "within_lifetime ''b:GET:k1'' (cache_ttl (shared ?init)) (clock ?fin) ?tr"
    by (auto simp: within_lifetime_def sample_config(1))
  ultimately have "length (sent_ids ''b:GET:k1'' ?tr) \<le> 1" using capstone [OF two] by blast
  with two show ?thesis
    by (intro exI [of _ ?fin] exI [of _ ?adm] exI [of _ ?req]) simp
qed

end
