(* ===== verification/Base64_Url.thy ===== *)
theory Base64_Url
  imports Prelude
begin

text \<open>
  \<open>bytesToBase64Url\<close> and \<open>base64ToBytes\<close> of \<open>src/idempotent-proxy-cf-worker/src/auth.ts\<close>, with the functions
  of JavaScript they use: \<open>btoa\<close>, \<open>atob\<close> (the forgiving decoder of the standard) and \<open>replaceAll\<close>. A
  JavaScript string of code units below 256 (a header's value, a \<open>btoa\<close>) is a list of 8-bit \<open>char\<close>, and
  a thrown exception is an \<open>Err\<close>.
\<close>

section \<open>JavaScript's base64\<close>

definition b64_char :: "nat \<Rightarrow> char" where
  "b64_char n = char_of (if n < 26 then n + 65 else if n < 52 then n + 71 else if n < 62 then n - 4
     else if n = 62 then 43 else (47 :: nat))"

definition b64_val :: "char \<Rightarrow> nat option" where
  "b64_val c = (let n = of_char c :: nat in
     if 65 \<le> n \<and> n \<le> 90 then Some (n - 65) else if 97 \<le> n \<and> n \<le> 122 then Some (n - 71)
     else if 48 \<le> n \<and> n \<le> 57 then Some (n + 4) else if n = 43 then Some 62 else if n = 47 then Some 63 else None)"

abbreviation byte :: "char \<Rightarrow> nat" where
  "byte c \<equiv> of_char c"

fun btoa :: "bytes \<Rightarrow> string" where
  "btoa [] = []"
| "btoa [a] = [b64_char (byte a div 4), b64_char (byte a mod 4 * 16), CHR ''='', CHR ''='']"
| "btoa [a, b] = [b64_char (byte a div 4), b64_char (byte a mod 4 * 16 + byte b div 16),
     b64_char (byte b mod 16 * 4), CHR ''='']"
| "btoa (a # b # c # cs) = b64_char (byte a div 4) # b64_char (byte a mod 4 * 16 + byte b div 16) #
     b64_char (byte b mod 16 * 4 + byte c div 64) # b64_char (byte c mod 64) # btoa cs"

text \<open>The bits of the digits, eight at a time; what is left of the last digit is dropped.\<close>

fun b64_bytes :: "nat list \<Rightarrow> bytes" where
  "b64_bytes (v # w # x # y # vs) =
     char_of (v * 4 + w div 16) # char_of (w mod 16 * 16 + x div 4) # char_of (x mod 4 * 64 + y) # b64_bytes vs"
| "b64_bytes [v, w, x] = [char_of (v * 4 + w div 16), char_of (w mod 16 * 16 + x div 4)]"
| "b64_bytes [v, w] = [char_of (v * 4 + w div 16)]"
| "b64_bytes [v] = []"
| "b64_bytes [] = []"

definition ascii_space :: "char \<Rightarrow> bool" where
  "ascii_space c \<longleftrightarrow> c \<in> {CHR 0x09, CHR 0x0A, CHR 0x0C, CHR 0x0D, CHR '' ''}"

definition strip_padding :: "string \<Rightarrow> string" where
  "strip_padding s =
     (if length s mod 4 \<noteq> 0 then s
      else if suffix ''=='' s then butlast (butlast s) else if suffix ''='' s then butlast s else s)"

definition atob :: "string \<Rightarrow> (bytes, string) outcome" where
  "atob s =
     (let t = strip_padding (filter (\<lambda>c. \<not> ascii_space c) s)
      in if length t mod 4 = 1 \<or> (\<exists>c\<in>set t. b64_val c = None) then Err ''InvalidCharacterError''
         else Ok (b64_bytes (map (\<lambda>c. the (b64_val c)) t)))"

section \<open>The functions of auth.ts\<close>

definition replace_all :: "char \<Rightarrow> string \<Rightarrow> string \<Rightarrow> string" where
  "replace_all c r s = concat (map (\<lambda>x. if x = c then r else [x]) s)"

definition bytesToBase64Url :: "bytes \<Rightarrow> string" where
  "bytesToBase64Url bs =
     replace_all CHR ''='' [] (replace_all CHR ''/'' ''_'' (replace_all CHR ''+'' ''-'' (btoa bs)))"

definition base64ToBytes :: "string \<Rightarrow> (bytes, string) outcome" where
  "base64ToBytes str = atob (replace_all CHR ''_'' ''/'' (replace_all CHR ''-'' ''+'' str))"

section \<open>Lemmas\<close>

lemma replace_all_simps [simp]:
  "replace_all c r [] = []" "replace_all c r (x # xs) = (if x = c then r else [x]) @ replace_all c r xs"
  "replace_all c r (xs @ ys) = replace_all c r xs @ replace_all c r ys"
  by (simp_all add: replace_all_def)

lemma replace_all_absent: "c \<notin> set s \<Longrightarrow> replace_all c r s = s"
  by (induction s) auto

lemma b64_char_byte: "n < 64 \<Longrightarrow> byte (b64_char n) =
    (if n < 26 then n + 65 else if n < 52 then n + 71 else if n < 62 then n - 4 else if n = 62 then 43 else 47)"
  by (simp add: b64_char_def)

lemma b64_val_char [simp]: "n < 64 \<Longrightarrow> b64_val (b64_char n) = Some n"
  by (cases "n < 26"; cases "n < 52"; cases "n < 62"; cases "n = 62") (auto simp: b64_val_def b64_char_byte Let_def)

lemma byte_less [simp]: "byte c < 256"
  by (rule nat_of_char_less_256)

text \<open>The digits as the URL alphabet has them, and back.\<close>

definition url_digit :: "nat \<Rightarrow> char" where
  "url_digit n = (if n = 62 then CHR ''-'' else if n = 63 then CHR ''_'' else b64_char n)"

lemma b64_char_eq: "n < 64 \<Longrightarrow> b64_char n = c \<longleftrightarrow> b64_val c = Some n"
proof
  assume "n < 64" and "b64_val c = Some n"
  then have "byte (b64_char n) = byte c"
    by (auto simp: b64_val_def b64_char_byte Let_def split: if_splits)
  then show "b64_char n = c" by simp
qed auto

lemma b64_vals: "b64_val CHR ''+'' = Some 62" "b64_val CHR ''/'' = Some 63" "b64_val CHR ''='' = None"
  "b64_val CHR ''-'' = None" "b64_val CHR ''_'' = None"
  by (simp_all add: b64_val_def)

lemma b64_char_special:
  "n < 64 \<Longrightarrow> b64_char n = CHR ''+'' \<longleftrightarrow> n = 62" "n < 64 \<Longrightarrow> b64_char n = CHR ''/'' \<longleftrightarrow> n = 63"
  "n < 64 \<Longrightarrow> b64_char n \<noteq> CHR ''=''" "n < 64 \<Longrightarrow> b64_char n \<noteq> CHR ''-''" "n < 64 \<Longrightarrow> b64_char n \<noteq> CHR ''_''"
  by (auto simp: b64_char_eq b64_vals)

text \<open>The digits a sequence of bytes is written with.\<close>

fun b64_digits :: "bytes \<Rightarrow> nat list" where
  "b64_digits [] = []"
| "b64_digits [a] = [byte a div 4, byte a mod 4 * 16]"
| "b64_digits [a, b] = [byte a div 4, byte a mod 4 * 16 + byte b div 16, byte b mod 16 * 4]"
| "b64_digits (a # b # c # cs) = byte a div 4 # (byte a mod 4 * 16 + byte b div 16) #
     (byte b mod 16 * 4 + byte c div 64) # byte c mod 64 # b64_digits cs"

lemma digit_bounds:
  "byte a div 4 < 64" "byte a mod 4 * 16 < 64" "byte a mod 4 * 16 + byte b div 16 < 64"
  "byte b mod 16 * 4 < 64" "byte b mod 16 * 4 + byte c div 64 < 64" "byte c mod 64 < 64"
proof -
  have a: "byte a < 256" "byte b < 256" "byte c < 256" by simp_all
  then have "byte a div 4 < 64" "byte b div 16 < 16" "byte c div 64 < 4" by (simp_all add: div_less_iff_less_mult)
  moreover have "byte a mod 4 < 4" "byte b mod 16 < 16" by simp_all
  ultimately show "byte a div 4 < 64" "byte a mod 4 * 16 < 64" "byte a mod 4 * 16 + byte b div 16 < 64"
    "byte b mod 16 * 4 < 64" "byte b mod 16 * 4 + byte c div 64 < 64" "byte c mod 64 < 64" by linarith+
qed

lemma b64_digits_less: "d \<in> set (b64_digits bs) \<Longrightarrow> d < 64"
  by (induction bs rule: b64_digits.induct) (auto simp: digit_bounds)

lemma b64_digits_length: "length (b64_digits bs) mod 4 \<noteq> 1"
  by (induction bs rule: b64_digits.induct) auto

lemma regroup:
  "k < 16 \<Longrightarrow> char_of (byte a div 4 * 4 + (byte a mod 4 * 16 + k) div 16) = a"
  "k < 4 \<Longrightarrow> char_of ((j * 16 + byte b div 16) mod 16 * 16 + (byte b mod 16 * 4 + k) div 4) = b"
  "char_of ((j * 4 + byte c div 64) mod 4 * 64 + byte c mod 64) = c"
proof -
  have d: "byte a div 4 * 4 + byte a mod 4 = byte a" "byte b div 16 * 16 + byte b mod 16 = byte b"
    "byte c div 64 * 64 + byte c mod 64 = byte c" by simp_all
  have l: "byte b div 16 < 16" "byte c div 64 < 4" by (simp_all add: div_less_iff_less_mult)
  show "k < 16 \<Longrightarrow> char_of (byte a div 4 * 4 + (byte a mod 4 * 16 + k) div 16) = a"
    by (simp add: d(1))
  show "k < 4 \<Longrightarrow> char_of ((j * 16 + byte b div 16) mod 16 * 16 + (byte b mod 16 * 4 + k) div 4) = b"
    using l by (simp add: d(2))
  show "char_of ((j * 4 + byte c div 64) mod 4 * 64 + byte c mod 64) = c"
    using l by (simp add: d(3))
qed

lemma b64_bytes_digits: "b64_bytes (b64_digits bs) = bs"
proof (induction bs rule: b64_digits.induct)
  case (2 a)
  then show ?case using regroup(1) [of 0 a] by simp
next
  case (3 a b)
  have "byte b div 16 < 16" by (simp add: div_less_iff_less_mult)
  then show ?case using regroup(1) [of "byte b div 16" a] regroup(2) [of 0 "byte a mod 4" b] by simp
next
  case (4 a b c cs)
  have "byte b div 16 < 16" "byte c div 64 < 4" by (simp_all add: div_less_iff_less_mult)
  with 4 show ?case
    using regroup(1) [of "byte b div 16" a] regroup(2) [of "byte c div 64" "byte a mod 4" b] regroup(3) [of "byte b mod 16" c]
    by simp
qed simp

text \<open>The text in the URL alphabet, and what the decoder makes of it.\<close>

lemma replace_all_digit:
  "n < 64 \<Longrightarrow> replace_all CHR ''='' [] (replace_all CHR ''/'' ''_'' (replace_all CHR ''+'' ''-'' [b64_char n])) = [url_digit n]"
  by (auto simp: url_digit_def b64_char_special)

lemma replace_all_Cons: "replace_all c r (x # xs) = replace_all c r [x] @ replace_all c r xs"
  by simp

lemma bytesToBase64Url_eq: "bytesToBase64Url bs = map url_digit (b64_digits bs)"
proof -
  let ?r = "\<lambda>s. replace_all CHR ''='' [] (replace_all CHR ''/'' ''_'' (replace_all CHR ''+'' ''-'' s))"
  have c: "?r (b64_char n # xs) = url_digit n # ?r xs" if "n < 64" for n xs
    using replace_all_digit [OF that] by (simp add: replace_all_Cons [of _ _ "b64_char n" xs] del: replace_all_simps(2))
  have "?r (btoa bs) = map url_digit (b64_digits bs)"
    by (induction bs rule: btoa.induct) (simp_all add: c digit_bounds del: replace_all_simps(2), simp_all)
  then show ?thesis by (simp add: bytesToBase64Url_def)
qed

lemma url_digits_back:
  "\<forall>d\<in>set ds. d < 64 \<Longrightarrow>
     replace_all CHR ''_'' ''/'' (replace_all CHR ''-'' ''+'' (map url_digit ds)) = map b64_char ds"
proof -
  have "CHR ''+'' = b64_char 62" "CHR ''/'' = b64_char 63"
    using b64_char_special(1) [of 62] b64_char_special(2) [of 63] by simp_all
  then show "\<forall>d\<in>set ds. d < 64 \<Longrightarrow> ?thesis"
    by (induction ds) (auto simp: url_digit_def b64_char_special)
qed

lemma atob_digits:
  assumes "\<forall>d\<in>set ds. d < 64" and "length ds mod 4 \<noteq> 1"
  shows "atob (map b64_char ds) = Ok (b64_bytes ds)"
proof -
  have sp: "\<not> ascii_space (b64_char d)" if "d < 64" for d
    using that by (auto simp: ascii_space_def b64_char_eq b64_val_def)
  have f: "filter (\<lambda>c. \<not> ascii_space c) (map b64_char ds) = map b64_char ds"
    using assms(1) by (auto simp: filter_id_conv sp)
  have "CHR ''='' \<notin> set (map b64_char ds)" using assms(1) b64_char_special(3) by force
  then have n: "\<not> suffix ''=='' (map b64_char ds)" "\<not> suffix ''='' (map b64_char ds)"
    by (auto dest: set_mono_suffix)
  have "strip_padding (map b64_char ds) = map b64_char ds" using n by (simp add: strip_padding_def)
  moreover have "map (\<lambda>c. the (b64_val c)) (map b64_char ds) = ds"
    using assms(1) by (simp add: map_idI)
  ultimately show ?thesis
    using assms by (auto simp: atob_def f Let_def)
qed

lemma base64_round_trip: "base64ToBytes (bytesToBase64Url bs) = Ok bs"
  using url_digits_back [of "b64_digits bs"] atob_digits [of "b64_digits bs"] b64_digits_less [of _ bs] b64_digits_length [of bs]
  by (simp add: base64ToBytes_def bytesToBase64Url_eq b64_bytes_digits)

end
