(* ===== verification/Worker_Token.thy ===== *)
theory Worker_Token
  imports Base64_Url Auth
begin

text \<open>
  Tokens in the Cloudflare worker: \<open>src/idempotent-proxy-cf-worker/src/auth.ts\<close> and the class \<open>EnvVars\<close> of
  \<open>util.ts\<close>. A JavaScript value is a \<open>js_value\<close>; a thrown exception is an \<open>Err\<close> with its text. The
  libraries (\<open>cborg\<close>, \<open>@noble/curves\<close>, \<open>@noble/hashes\<close>) and the coercions of values other than the
  declared ones are the parameter \<open>worker_lib\<close>.
\<close>

section \<open>Values and libraries\<close>

text \<open>Integers up to \<open>2^53\<close> are numbers, larger ones \<open>BigInt\<close>s; \<open>JsOther\<close> is any other value.\<close>

datatype js_value =
    JsUndefined
  | JsNull
  | JsBool bool
  | JsNumber int
  | JsBigInt int
  | JsString string
  | JsBytes bytes
  | JsArray "js_value list"
  | JsOther nat

record worker_lib =
  cborg_decode :: "bytes \<Rightarrow> (js_value, string) outcome"
  cborg_encode :: "js_value \<Rightarrow> (bytes, string) outcome"
  noble_sha3 :: "bytes \<Rightarrow> bytes"
  noble_ed25519_sign :: "bytes \<Rightarrow> bytes \<Rightarrow> (js_value, string) outcome"
  noble_ed25519_verify :: "js_value \<Rightarrow> bytes \<Rightarrow> bytes \<Rightarrow> (bool, string) outcome"
  noble_secp256k1_sign :: "bytes \<Rightarrow> bytes \<Rightarrow> (js_value, string) outcome"
  noble_secp256k1_verify :: "js_value \<Rightarrow> bytes \<Rightarrow> bytes \<Rightarrow> (bool, string) outcome"
  other_text :: "js_value \<Rightarrow> string"
  other_index :: "nat \<Rightarrow> nat \<Rightarrow> js_value"
  other_expired :: "js_value \<Rightarrow> nat \<Rightarrow> (bool, string) outcome"

text \<open>What the code uses of JavaScript: truth of a value, its text, \<open>v[i]\<close>, \<open>v.slice(0, 2)\<close>.\<close>

fun js_falsy :: "js_value \<Rightarrow> bool" where
  "js_falsy JsUndefined = True"
| "js_falsy JsNull = True"
| "js_falsy (JsBool b) = (\<not> b)"
| "js_falsy (JsNumber n) = (n = 0)"
| "js_falsy (JsBigInt n) = (n = 0)"
| "js_falsy (JsString s) = (s = [])"
| "js_falsy v = False"

fun js_text :: "worker_lib \<Rightarrow> js_value \<Rightarrow> string" where
  "js_text W (JsString s) = s"
| "js_text W v = other_text W v"

fun js_index :: "worker_lib \<Rightarrow> js_value \<Rightarrow> nat \<Rightarrow> (js_value, string) outcome" where
  "js_index W (JsArray xs) i = Ok (if i < length xs then xs ! i else JsUndefined)"
| "js_index W (JsBytes bs) i = Ok (if i < length bs then JsNumber (of_char (bs ! i)) else JsUndefined)"
| "js_index W (JsString s) i = Ok (if i < length s then JsString [s ! i] else JsUndefined)"
| "js_index W (JsOther n) i = Ok (other_index W n i)"
| "js_index W JsUndefined i = Err ''TypeError''"
| "js_index W JsNull i = Err ''TypeError''"
| "js_index W v i = Ok JsUndefined"

fun js_slice2 :: "js_value \<Rightarrow> (js_value, string) outcome" where
  "js_slice2 (JsArray xs) = Ok (JsArray (take 2 xs))"
| "js_slice2 (JsBytes bs) = Ok (JsBytes (take 2 bs))"
| "js_slice2 (JsString s) = Ok (JsString (take 2 s))"
| "js_slice2 v = Err ''TypeError''"

section \<open>auth.ts\<close>

definition PERMITTED_DRIFT_S :: int where
  "PERMITTED_DRIFT_S = 10"

text \<open>
  \<open>token[0] + PERMITTED_DRIFT < Date.now() / 1000\<close>, with the time in milliseconds: the quotient is not
  rounded, a \<open>BigInt\<close> cannot be added to a number, and \<open>undefined\<close> gives a false comparison.
\<close>

fun js_expired :: "worker_lib \<Rightarrow> js_value \<Rightarrow> nat \<Rightarrow> (bool, string) outcome" where
  "js_expired W (JsNumber n) now = Ok ((n + PERMITTED_DRIFT_S) * 1000 < int now)"
| "js_expired W (JsBigInt n) now = Err ''TypeError''"
| "js_expired W JsUndefined now = Ok False"
| "js_expired W v now = other_expired W v now"

fun js_try_keys :: "(bytes \<Rightarrow> (bool, string) outcome) \<Rightarrow> bytes list \<Rightarrow> js_value \<Rightarrow> string \<Rightarrow> (js_value, string) outcome" where
  "js_try_keys verify [] token msg = Err msg"
| "js_try_keys verify (key # keys) token msg =
     and_then (verify key) (\<lambda>ok. if ok then Ok token else js_try_keys verify keys token msg)"

definition ed25519Sign :: "worker_lib \<Rightarrow> bytes \<Rightarrow> int \<Rightarrow> string \<Rightarrow> (bytes, string) outcome" where
  "ed25519Sign W privateKey expire_at agent =
     and_then (cborg_encode W (JsArray [JsNumber expire_at, JsString agent])) (\<lambda>msg.
     and_then (noble_ed25519_sign W msg privateKey) (\<lambda>sig.
       cborg_encode W (JsArray [JsNumber expire_at, JsString agent, sig])))"

definition ed25519Verify :: "worker_lib \<Rightarrow> bytes list \<Rightarrow> bytes \<Rightarrow> nat \<Rightarrow> (js_value, string) outcome" where
  "ed25519Verify W pubKeys data now =
     and_then (cborg_decode W data) (\<lambda>token.
     and_then (js_index W token 0) (\<lambda>expire_at.
     and_then (js_expired W expire_at now) (\<lambda>expired.
       if expired then Err ''token expired''
       else and_then (js_slice2 token) (\<lambda>pair.
            and_then (cborg_encode W pair) (\<lambda>msg.
              js_try_keys (\<lambda>pubKey. and_then (js_index W token 2) (\<lambda>sig. noble_ed25519_verify W sig msg pubKey))
                pubKeys token ''failed to verify Ed25519 signature'')))))"

definition ecdsaSign :: "worker_lib \<Rightarrow> bytes \<Rightarrow> int \<Rightarrow> string \<Rightarrow> (bytes, string) outcome" where
  "ecdsaSign W privateKey expire_at agent =
     and_then (cborg_encode W (JsArray [JsNumber expire_at, JsString agent])) (\<lambda>msg.
     and_then (noble_secp256k1_sign W (noble_sha3 W msg) privateKey) (\<lambda>sig.
       cborg_encode W (JsArray [JsNumber expire_at, JsString agent, sig])))"

definition ecdsaVerify :: "worker_lib \<Rightarrow> bytes list \<Rightarrow> bytes \<Rightarrow> nat \<Rightarrow> (js_value, string) outcome" where
  "ecdsaVerify W pubKeys data now =
     and_then (cborg_decode W data) (\<lambda>token.
     and_then (js_index W token 0) (\<lambda>expire_at.
     and_then (js_expired W expire_at now) (\<lambda>expired.
       if expired then Err ''token expired''
       else and_then (js_slice2 token) (\<lambda>pair.
            and_then (cborg_encode W pair) (\<lambda>msg.
              let digest = noble_sha3 W msg in
              js_try_keys (\<lambda>pubKey. and_then (js_index W token 2) (\<lambda>sig. noble_secp256k1_verify W sig digest pubKey))
                pubKeys token ''failed to verify ECDSA/Secp256k1 signature'')))))"

section \<open>EnvVars\<close>

text \<open>The bindings of the worker, as its own properties in their order, and the keys found in them.\<close>

type_synonym js_env = "(string \<times> js_value) list"

record pubkeys =
  pk_ecdsa :: "bytes list"
  pk_ed25519 :: "bytes list"

definition getString :: "worker_lib \<Rightarrow> js_env \<Rightarrow> string \<Rightarrow> string" where
  "getString W env key =
     (case map_of env key of None \<Rightarrow> [] | Some v \<Rightarrow> if js_falsy v then [] else js_text W v)"

fun key_bytes :: "js_value \<Rightarrow> (bytes, string) outcome" where
  "key_bytes (JsString s) = base64ToBytes s"
| "key_bytes v = Err ''TypeError''"

fun parse_keys :: "js_env \<Rightarrow> pubkeys \<Rightarrow> (pubkeys, string) outcome" where
  "parse_keys [] pks = Ok pks"
| "parse_keys ((key, v) # env) pks =
     (if starts_with key ''ECDSA_PUB_KEY''
      then and_then (key_bytes v) (\<lambda>b. parse_keys env (pks\<lparr>pk_ecdsa := pk_ecdsa pks @ [b]\<rparr>))
      else if starts_with key ''ED25519_PUB_KEY''
      then and_then (key_bytes v) (\<lambda>b. parse_keys env (pks\<lparr>pk_ed25519 := pk_ed25519 pks @ [b]\<rparr>))
      else parse_keys env pks)"

definition parsePubkeys :: "js_env \<Rightarrow> (pubkeys \<times> bool, string) outcome" where
  "parsePubkeys env =
     map_ok (\<lambda>pks. (pks, pk_ecdsa pks \<noteq> [] \<or> pk_ed25519 pks \<noteq> []))
       (parse_keys env \<lparr>pk_ecdsa = [], pk_ed25519 = []\<rparr>)"

definition verifyToken :: "worker_lib \<Rightarrow> pubkeys \<Rightarrow> string \<Rightarrow> nat \<Rightarrow> (js_value, string) outcome" where
  "verifyToken W pks token now =
     (if \<not> starts_with token ''Bearer '' then Err ''invalid bearer token''
      else and_then (base64ToBytes (drop 7 token)) (\<lambda>data.
        if pk_ecdsa pks \<noteq> [] then and_then (ecdsaVerify W (pk_ecdsa pks) data now) (\<lambda>t. js_index W t 1)
        else if pk_ed25519 pks \<noteq> [] then and_then (ed25519Verify W (pk_ecdsa pks) data now) (\<lambda>t. js_index W t 1)
        else Err ''no public key found''))"

section \<open>Lemmas\<close>

definition js_token :: "token \<Rightarrow> js_value" where
  "js_token t = JsArray [JsNumber (uint (tok_expire t)), JsString (tok_agent t), JsBytes (tok_sig t)]"

lemma js_try_keys_Ok:
  "(\<And>k. k \<in> set keys \<Longrightarrow> verify k = Ok (ok k)) \<Longrightarrow>
     js_try_keys verify keys token msg = Ok t \<longleftrightarrow> t = token \<and> (\<exists>k\<in>set keys. ok k)"
  by (induction keys) auto

lemma js_try_no_keys [simp]: "js_try_keys verify [] token msg \<noteq> Ok t"
  by simp

text \<open>The last millisecond at which the worker and the server let a token in.\<close>

lemma worker_expiry: "(uint e + 10) * 1000 < int now \<longleftrightarrow> \<not> now \<le> (unat (e :: u64) + 10) * 1000"
proof -
  have "((int n + 10) * 1000 < int now) = (\<not> now \<le> (n + 10) * 1000)" for n by presburger
  from this [of "unat e"] show ?thesis by (simp only: uint_nat [of e])
qed

lemma seconds_after: "n + 10 < now div 1000 \<longleftrightarrow> \<not> now < (n + 11) * (1000 :: nat)"
proof -
  have "n + 11 \<le> now div 1000 \<longleftrightarrow> (n + 11) * 1000 \<le> now" by (rule less_eq_div_iff_mult_less_eq) simp
  then show ?thesis by linarith
qed

lemma server_expiry:
  assumes "uint e < 2 ^ 53" and "now < 2 ^ 64"
  shows "e + PERMITTED_DRIFT < word_of_nat now div 1000 \<longleftrightarrow> \<not> now < (unat e + 11) * 1000"
proof -
  have e: "unat e < 2 ^ 53"
    using assms(1) by (metis int_ops(3) nat_int_comparison(2) of_nat_numeral of_nat_power uint_nat)
  have "unat (e + PERMITTED_DRIFT) = unat e + 10"
    using e by (subst unat_add_no_overflow) (simp_all add: no_overflow_def PERMITTED_DRIFT_def)
  moreover have "unat (word_of_nat now div (1000 :: u64)) = now div 1000"
    using assms(2) by (simp add: unat_div unat_of_nat)
  ultimately have "e + PERMITTED_DRIFT < word_of_nat now div 1000 \<longleftrightarrow> unat e + 10 < now div 1000"
    by (simp only: word_less_nat_alt)
  then show ?thesis by (simp only: seconds_after)
qed

text \<open>
  The libraries of the worker and of the server agree on a token and the given keys: both decode it, encode
  the signed part alike, hash alike, and find its signature valid under the same keys.
\<close>

definition ecdsa_agree :: "worker_lib \<Rightarrow> token_lib \<Rightarrow> ('sk, 'vk, 'sig) sign_lib \<Rightarrow> (bytes \<Rightarrow> 'vk) \<Rightarrow> bytes list \<Rightarrow> bytes
    \<Rightarrow> token \<Rightarrow> bool" where
  "ecdsa_agree W A E pk keys data t \<longleftrightarrow>
     cborg_decode W data = Ok (js_token t) \<and> token_from_reader A data = Some t \<and> uint (tok_expire t) < 2 ^ 53 \<and>
     (\<exists>msg. cborg_encode W (JsArray [JsNumber (uint (tok_expire t)), JsString (tok_agent t)]) = Ok msg \<and>
        cbor_pair A (tok_expire t, tok_agent t) = Ok msg \<and> noble_sha3 W msg = sha3_256 A msg \<and>
        (\<forall>k\<in>set keys. noble_secp256k1_verify W (JsBytes (tok_sig t)) (sha3_256 A msg) k =
           Ok (case sig_parse E (tok_sig t) of None \<Rightarrow> False | Some s \<Rightarrow> sig_verify E (pk k) (sha3_256 A msg) s)))"

text \<open>What the worker does with a token it can decode and whose signature it can check.\<close>

lemma ecdsaVerify_token:
  assumes "cborg_decode W data = Ok (js_token t)"
    and "cborg_encode W (JsArray [JsNumber (uint (tok_expire t)), JsString (tok_agent t)]) = Ok msg"
    and "\<And>k. k \<in> set keys \<Longrightarrow> noble_secp256k1_verify W (JsBytes (tok_sig t)) (noble_sha3 W msg) k = Ok (valid k)"
  shows "ecdsaVerify W keys data now = Ok (js_token t) \<longleftrightarrow>
      (\<exists>k\<in>set keys. valid k) \<and> now \<le> (unat (tok_expire t) + 10) * 1000"
    and "ecdsaVerify W keys data now = Ok v \<Longrightarrow> v = js_token t"
proof -
  have late: "(uint (tok_expire t) + 10) * 1000 < int now \<longleftrightarrow> \<not> now \<le> (unat (tok_expire t) + 10) * 1000"
    by (rule worker_expiry)
  have tries: "js_try_keys (noble_secp256k1_verify W (JsBytes (tok_sig t)) (noble_sha3 W msg)) keys (js_token t) e = Ok v \<longleftrightarrow>
      v = js_token t \<and> (\<exists>k\<in>set keys. valid k)" for e v
    by (rule js_try_keys_Ok) (rule assms(3))
  have "ecdsaVerify W keys data now =
     (if (uint (tok_expire t) + 10) * 1000 < int now then Err ''token expired''
      else js_try_keys (noble_secp256k1_verify W (JsBytes (tok_sig t)) (noble_sha3 W msg)) keys (js_token t)
        ''failed to verify ECDSA/Secp256k1 signature'')"
    using assms(1,2) by (simp add: ecdsaVerify_def js_token_def PERMITTED_DRIFT_S_def Let_def)
  with late tries show "ecdsaVerify W keys data now = Ok (js_token t) \<longleftrightarrow>
      (\<exists>k\<in>set keys. valid k) \<and> now \<le> (unat (tok_expire t) + 10) * 1000"
    and "ecdsaVerify W keys data now = Ok v \<Longrightarrow> v = js_token t"
    by (auto split: if_splits)
qed

lemma ecdsaVerify_agrees:
  assumes "ecdsa_agree W A E pk keys data t" and "now < 2 ^ 64"
  shows "ecdsaVerify W keys data now = Ok (js_token t) \<longleftrightarrow>
      (\<exists>k\<in>set keys. ecdsa_authentic A E (pk k) t) \<and> now \<le> (unat (tok_expire t) + 10) * 1000"
    and "ecdsa_verify A E (map pk keys) data (word_of_nat now) = Ok t \<longleftrightarrow>
      (\<exists>k\<in>set keys. ecdsa_authentic A E (pk k) t) \<and> now < (unat (tok_expire t) + 11) * 1000"
proof -
  from assms(1) obtain msg where m: "cborg_decode W data = Ok (js_token t)" "token_from_reader A data = Some t"
    "uint (tok_expire t) < 2 ^ 53"
    "cborg_encode W (JsArray [JsNumber (uint (tok_expire t)), JsString (tok_agent t)]) = Ok msg"
    "cbor_pair A (tok_expire t, tok_agent t) = Ok msg" "noble_sha3 W msg = sha3_256 A msg"
    and v: "\<And>k. k \<in> set keys \<Longrightarrow> noble_secp256k1_verify W (JsBytes (tok_sig t)) (noble_sha3 W msg) k =
       Ok (case sig_parse E (tok_sig t) of None \<Rightarrow> False | Some s \<Rightarrow> sig_verify E (pk k) (sha3_256 A msg) s)"
    by (auto simp: ecdsa_agree_def)
  have auth: "ecdsa_authentic A E (pk k) t \<longleftrightarrow>
      (case sig_parse E (tok_sig t) of None \<Rightarrow> False | Some s \<Rightarrow> sig_verify E (pk k) (sha3_256 A msg) s)" for k
    using m(5) by (auto simp: ecdsa_authentic_def split: option.splits)
  show "ecdsaVerify W keys data now = Ok (js_token t) \<longleftrightarrow>
      (\<exists>k\<in>set keys. ecdsa_authentic A E (pk k) t) \<and> now \<le> (unat (tok_expire t) + 10) * 1000"
    using ecdsaVerify_token(1) [OF m(1,4) v] by (simp add: auth)
  show "ecdsa_verify A E (map pk keys) data (word_of_nat now) = Ok t \<longleftrightarrow>
      (\<exists>k\<in>set keys. ecdsa_authentic A E (pk k) t) \<and> now < (unat (tok_expire t) + 11) * 1000"
    using m(2) server_expiry [OF m(3) assms(2)] by (auto simp: ecdsa.ver_Ok token_expired_def)
qed

end
