(* ===== verification/Worker_Response.thy ===== *)
theory Worker_Response
  imports Worker_Token Response
begin

text \<open>
  \<open>ResponseData\<close> and \<open>proxyRequestHeaders\<close> of \<open>src/idempotent-proxy-cf-worker/src/util.ts\<close>, and how they
  compare with the server's \<open>ResponseData\<close> (theory \<open>Response\<close>). \<open>Headers\<close>, \<open>JSON\<close> and \<open>cborg\<close> are the
  parameter \<open>fetch_lib\<close>.
\<close>

section \<open>Data and libraries\<close>

record js_response =
  js_status :: nat
  js_headers :: "(string \<times> string) list"
  js_body :: "bytes option"
  js_mime :: string

text \<open>
  \<open>'h\<close> is \<open>Headers\<close>, \<open>'j\<close> a value of JSON or CBOR: iterating and reading headers, making and changing
  them (which throws on an invalid name or value), \<open>JSON.parse\<close> of a decoded text, \<open>Object.hasOwn\<close>
  (which throws on \<open>null\<close>), \<open>JSON.stringify\<close> as bytes, and \<open>cborg\<close> on such values.
\<close>

record ('h, 'j) fetch_lib =
  headers_iter :: "'h \<Rightarrow> (string \<times> string) list"
  headers_get :: "'h \<Rightarrow> string \<Rightarrow> string option"
  headers_new :: "(string \<times> string) list \<Rightarrow> ('h, string) outcome"
  headers_append :: "'h \<Rightarrow> string \<Rightarrow> string \<Rightarrow> ('h, string) outcome"
  headers_set :: "'h \<Rightarrow> string \<Rightarrow> string \<Rightarrow> ('h, string) outcome"
  json_parse :: "bytes \<Rightarrow> ('j, string) outcome"
  has_own :: "'j \<Rightarrow> string \<Rightarrow> (bool, string) outcome"
  get_own :: "'j \<Rightarrow> string \<Rightarrow> 'j"
  new_object :: 'j
  set_own :: "'j \<Rightarrow> string \<Rightarrow> 'j \<Rightarrow> 'j"
  json_stringify :: "'j \<Rightarrow> (bytes, string) outcome"
  cbor_decode :: "bytes \<Rightarrow> ('j, string) outcome"
  cbor_encode :: "'j \<Rightarrow> (bytes, string) outcome"
  rd_encode :: "js_response \<Rightarrow> (bytes, string) outcome"
  rd_decode :: "bytes \<Rightarrow> (js_response, string) outcome"

text \<open>\<open>trim\<close> and \<open>toLocaleLowerCase\<close> on the text of a header, whose code units are below 256.\<close>

definition js_space :: "char \<Rightarrow> bool" where
  "js_space c \<longleftrightarrow> c \<in> {CHR 0x09, CHR 0x0A, CHR 0x0B, CHR 0x0C, CHR 0x0D, CHR '' '', CHR 0xA0}"

definition js_trim :: "string \<Rightarrow> string" where
  "js_trim s = rev (dropWhile js_space (rev (dropWhile js_space s)))"

definition js_lower_char :: "char \<Rightarrow> char" where
  "js_lower_char c = (let n = of_char c :: nat in
     if 65 \<le> n \<and> n \<le> 90 \<or> 0xC0 \<le> n \<and> n \<le> 0xDE \<and> n \<noteq> 0xD7 then char_of (n + 32) else c)"

definition js_lower :: "string \<Rightarrow> string" where
  "js_lower s = map js_lower_char s"

section \<open>Operations\<close>

definition js_response_new :: "nat \<Rightarrow> js_response" where
  "js_response_new status = \<lparr>js_status = status, js_headers = [], js_body = None, js_mime = ''text/plain''\<rparr>"

definition js_filtering :: "string \<Rightarrow> string list" where
  "js_filtering filtering = filter (\<lambda>v. v \<noteq> []) (map js_trim (split_char CHR '','' filtering))"

definition js_take_header :: "string list \<Rightarrow> string \<times> string \<Rightarrow> js_response \<Rightarrow> js_response" where
  "js_take_header fi kv rd =
     (case kv of (key, v) \<Rightarrow>
        if key = ''content-type'' then rd\<lparr>js_mime := v\<rparr>
        else if key \<noteq> ''content-length'' \<and> key \<noteq> ''transfer-encoding'' \<and> (fi = [] \<or> key \<in> set fi)
        then rd\<lparr>js_headers := js_headers rd @ [(key, v)]\<rparr>
        else rd)"

definition setHeaders :: "('h, 'j) fetch_lib \<Rightarrow> js_response \<Rightarrow> 'h \<Rightarrow> string \<Rightarrow> js_response" where
  "setHeaders F rd headers filtering =
     fold (js_take_header (js_filtering (js_lower filtering))) (headers_iter F headers) rd"

text \<open>The loop over the mask, which copies the properties the object has.\<close>

fun js_mask :: "('h, 'j) fetch_lib \<Rightarrow> 'j \<Rightarrow> string list \<Rightarrow> 'j \<Rightarrow> ('j, string) outcome" where
  "js_mask F obj [] newObj = Ok newObj"
| "js_mask F obj (key # fi) newObj =
     and_then (has_own F obj key) (\<lambda>has.
       js_mask F obj fi (if has then set_own F newObj key (get_own F obj key) else newObj))"

definition setBody :: "('h, 'j) fetch_lib \<Rightarrow> js_response \<Rightarrow> bytes \<Rightarrow> string \<Rightarrow> (js_response, string) outcome" where
  "setBody F rd body filtering =
     (let fi = js_filtering filtering in
      if fi \<noteq> [] \<and> js_status rd < 300 \<and> str_contains (js_mime rd) ''application/json'' then
        and_then (json_parse F body) (\<lambda>obj.
        and_then (js_mask F obj fi (new_object F)) (\<lambda>newObj.
        and_then (json_stringify F newObj) (\<lambda>b. Ok (rd\<lparr>js_body := Some b\<rparr>))))
      else if fi \<noteq> [] \<and> js_status rd < 300 \<and> str_contains (js_mime rd) ''application/cbor'' then
        and_then (cbor_decode F body) (\<lambda>obj.
        and_then (js_mask F obj fi (new_object F)) (\<lambda>newObj.
        and_then (cbor_encode F newObj) (\<lambda>b. Ok (rd\<lparr>js_body := Some b\<rparr>))))
      else Ok (rd\<lparr>js_body := Some body\<rparr>))"

definition toBytes :: "('h, 'j) fetch_lib \<Rightarrow> js_response \<Rightarrow> (bytes, string) outcome" where
  "toBytes F rd = rd_encode F rd"

definition fromBytes :: "('h, 'j) fetch_lib \<Rightarrow> bytes \<Rightarrow> (js_response, string) outcome" where
  "fromBytes F data =
     map_ok (\<lambda>obj. (js_response_new (js_status obj))
       \<lparr>js_headers := js_headers obj, js_body := js_body obj, js_mime := js_mime obj\<rparr>) (rd_decode F data)"

text \<open>The \<open>Response\<close> a client gets.\<close>

record 'h js_reply =
  rp_status :: nat
  rp_headers :: 'h
  rp_body :: "bytes option"

definition toResponse :: "('h, 'j) fetch_lib \<Rightarrow> js_response \<Rightarrow> ('h js_reply, string) outcome" where
  "toResponse F rd =
     and_then (headers_new F (js_headers rd)) (\<lambda>headers.
     and_then (headers_set F headers ''content-type'' (js_mime rd)) (\<lambda>headers.
       Ok \<lparr>rp_status = 200, rp_headers = headers, rp_body = js_body rd\<rparr>))"

definition filterHeaders :: "string list" where
  "filterHeaders = [''host'', ''forwarded'', ''proxy-authorization'', ''x-forwarded-for'', ''x-forwarded-host'',
     ''x-forwarded-proto'', ''idempotency-key'']"

fun copy_headers :: "worker_lib \<Rightarrow> ('h, 'j) fetch_lib \<Rightarrow> js_env \<Rightarrow> (string \<times> string) list \<Rightarrow> 'h \<Rightarrow> ('h, string) outcome" where
  "copy_headers W F env [] newHeaders = Ok newHeaders"
| "copy_headers W F env ((key, v) # hs) newHeaders =
     (if key \<in> set filterHeaders then copy_headers W F env hs newHeaders
      else and_then (headers_append F newHeaders key (if starts_with v ''HEADER_'' then getString W env v else v))
        (copy_headers W F env hs))"

definition proxyRequestHeaders :: "worker_lib \<Rightarrow> ('h, 'j) fetch_lib \<Rightarrow> js_env \<Rightarrow> 'h \<Rightarrow> ('h, string) outcome" where
  "proxyRequestHeaders W F env headers =
     and_then (headers_new F []) (copy_headers W F env (headers_iter F headers))"

section \<open>The worker's filters and the server's\<close>

definition ascii :: "string \<Rightarrow> bool" where
  "ascii s \<longleftrightarrow> (\<forall>c\<in>set s. of_char c < (0x80 :: nat))"

lemma ascii_simps [simp]:
  "ascii []" "ascii (c # s) \<longleftrightarrow> of_char c < (0x80 :: nat) \<and> ascii s" "ascii (rev s) \<longleftrightarrow> ascii s"
  by (auto simp: ascii_def)

lemma ascii_subset: "ascii s \<Longrightarrow> set t \<subseteq> set s \<Longrightarrow> ascii t"
  by (auto simp: ascii_def)

lemma js_lower_ascii: "ascii s \<Longrightarrow> js_lower s = to_ascii_lowercase s"
  by (induction s) (auto simp: js_lower_def to_ascii_lowercase_def js_lower_char_def ascii_lower_def Let_def)

lemma ascii_lowercase: "ascii s \<Longrightarrow> ascii (to_ascii_lowercase s)"
  by (induction s) (auto simp: to_ascii_lowercase_def ascii_lower_def Let_def)

lemma strip_white_ascii:
  assumes "of_char c < (0x80 :: nat)"
  shows "strip_any white_space (c # s) = (if js_space c then Some s else None)"
    and "strip_any (map rev white_space) (c # s) = (if js_space c then Some s else None)"
proof -
  have c: "c \<noteq> CHR 0xC2" "c \<noteq> CHR 0xE1" "c \<noteq> CHR 0xE2" "c \<noteq> CHR 0xE3" "c \<noteq> CHR 0x85" "c \<noteq> CHR 0xA0" "c \<noteq> CHR 0x80"
    "c \<noteq> CHR 0x81" "c \<noteq> CHR 0x82" "c \<noteq> CHR 0x83" "c \<noteq> CHR 0x84" "c \<noteq> CHR 0x86" "c \<noteq> CHR 0x87" "c \<noteq> CHR 0x88"
    "c \<noteq> CHR 0x89" "c \<noteq> CHR 0x8A" "c \<noteq> CHR 0xA8" "c \<noteq> CHR 0xA9" "c \<noteq> CHR 0xAF" "c \<noteq> CHR 0x9F"
    using assms by auto
  show "strip_any white_space (c # s) = (if js_space c then Some s else None)"
    using c by (auto simp: white_space_def js_space_def)
  show "strip_any (map rev white_space) (c # s) = (if js_space c then Some s else None)"
    using c by (auto simp: white_space_def js_space_def)
qed

lemma trim_start_ascii:
  "ascii s \<Longrightarrow> trim_start_by white_space s = dropWhile js_space s"
  "ascii s \<Longrightarrow> trim_start_by (map rev white_space) s = dropWhile js_space s"
  by (induction s; simp add: strip_white_ascii trim_start_by.simps [of _ "_ # _"])+

lemma js_trim_ascii: "ascii s \<Longrightarrow> js_trim s = trim s"
proof -
  assume s: "ascii s"
  then have "ascii (dropWhile js_space s)" by (rule ascii_subset) (auto dest: set_dropWhileD)
  then show ?thesis using s by (simp add: js_trim_def trim_def trim_start_ascii)
qed

lemma set_split_char: "p \<in> set (split_char c s) \<Longrightarrow> set p \<subseteq> set s"
  by (induction s arbitrary: p) (fastforce split: list.splits if_splits)+

lemma js_filtering_ascii: "ascii f \<Longrightarrow> js_filtering f = split_filtering f"
proof -
  assume f: "ascii f"
  have "map js_trim (split_char CHR '','' f) = map trim (split_char CHR '','' f)"
    using ascii_subset [OF f set_split_char] by (auto intro: js_trim_ascii)
  then show ?thesis by (simp only: js_filtering_def split_filtering_def)
qed

text \<open>A worker's response as the server would hold it.\<close>

definition as_response :: "js_response \<Rightarrow> response_data" where
  "as_response rd = \<lparr>rd_status = word_of_nat (js_status rd), rd_headers = js_headers rd,
     rd_body = (case js_body rd of None \<Rightarrow> [] | Some b \<Rightarrow> b), rd_mime = js_mime rd\<rparr>"

lemma as_response_new: "as_response (js_response_new st) = response_new (word_of_nat st)"
  by (simp add: as_response_def js_response_new_def response_new_def)

text \<open>
  Both libraries have parsed the headers \<open>raw\<close> of an upstream response, all of them text. Iterating \<open>Headers\<close>
  gives one pair for each name, with its values joined by a comma and a space (the values of \<open>set-cookie\<close>
  apart), sorted by name; iterating a \<open>HeaderMap\<close> gives every value once, in an arbitrary order.
\<close>

fun comma_join :: "string list \<Rightarrow> string" where
  "comma_join [] = []"
| "comma_join [v] = v"
| "comma_join (v # w # vs) = v @ '', '' @ comma_join (w # vs)"

definition combined :: "string \<Rightarrow> string list \<Rightarrow> string list" where
  "combined n vs = (if n = ''set-cookie'' \<or> vs = [] then vs else [comma_join vs])"

definition parsed_headers :: "('h, 'j) fetch_lib \<Rightarrow> ('g, 'v) http_lib \<Rightarrow> (string \<times> string) list \<Rightarrow> 'h \<Rightarrow> 'g \<Rightarrow> bool" where
  "parsed_headers F H raw headers hm \<longleftrightarrow>
     (\<forall>n. values_of n (headers_iter F headers) = combined n (values_of n raw)) \<and>
     (\<forall>n. mset (map (hv_to_str H) (values_of n (hm_iter H hm))) = mset (map Some (values_of n raw)))"

definition header_kept :: "string list \<Rightarrow> string \<Rightarrow> bool" where
  "header_kept names n \<longleftrightarrow>
     n \<notin> {''content-type'', ''content-length'', ''transfer-encoding''} \<and> (names = [] \<or> n \<in> set names)"

lemma js_take_values:
  "values_of n (js_headers (js_take_header fi x rd)) =
     values_of n (js_headers rd) @ (if header_kept fi n then values_of n [x] else [])"
  by (cases x) (auto simp: js_take_header_def header_kept_def)

lemma js_fold_values:
  "values_of n (js_headers (fold (js_take_header fi) xs rd)) =
     values_of n (js_headers rd) @ (if header_kept fi n then values_of n xs else [])"
  by (induction xs arbitrary: rd) (simp_all add: js_take_values)

lemma js_fold_mime:
  "js_mime (fold (js_take_header fi) xs rd) = last (js_mime rd # values_of ''content-type'' xs)"
proof (induction xs arbitrary: rd)
  case (Cons x xs)
  then show ?case by (cases x) (auto simp: js_take_header_def)
qed simp

lemma js_fold_rest:
  "js_status (fold (js_take_header fi) xs rd) = js_status rd" "js_body (fold (js_take_header fi) xs rd) = js_body rd"
  by (induction xs arbitrary: rd) (auto simp: js_take_header_def split: prod.splits)

lemma kept_headers_values:
  "\<forall>x\<in>set xs. hv_to_str H (snd x) \<noteq> None \<Longrightarrow>
     map Some (values_of n (kept_headers H fs xs)) =
       (if header_kept fs n then map (hv_to_str H) (values_of n xs) else [])"
proof (induction xs)
  case (Cons x xs)
  have "map Some (values_of n (kept_headers H fs [x])) =
      (if header_kept fs n then map (hv_to_str H) (values_of n [x]) else [])"
    using Cons.prems by (auto simp: kept_headers_def header_kept_def)
  with Cons show ?case
    by (subst kept_headers_Cons) simp
qed (simp add: kept_headers_def)

lemma last_mime_values:
  "\<forall>x\<in>set xs. hv_to_str H (snd x) \<noteq> None \<Longrightarrow>
     Some (last_mime H m xs) = last (Some m # map (hv_to_str H) (values_of ''content-type'' xs))"
proof (induction xs arbitrary: m)
  case (Cons x xs)
  then show ?case by (cases x) (auto simp: last_mime_Cons [of H m x xs] last_mime_def)
qed (simp add: last_mime_def)

lemma parsed_headers_text:
  assumes "parsed_headers F H raw headers hm" and "x \<in> set (hm_iter H hm)"
  shows "hv_to_str H (snd x) \<noteq> None"
proof
  assume "hv_to_str H (snd x) = None"
  then have "None \<in> set (map (hv_to_str H) (values_of (fst x) (hm_iter H hm)))"
    using assms(2) by (force simp: values_of_def)
  moreover have "set (map (hv_to_str H) (values_of (fst x) (hm_iter H hm))) = set (map Some (values_of (fst x) raw))"
    using assms(1) by (metis parsed_headers_def set_mset_mset)
  ultimately show False by auto
qed

lemma setHeaders_values:
  assumes "ascii f" and "parsed_headers F H raw headers hm"
  shows "values_of n (js_headers (setHeaders F (js_response_new st) headers f)) =
    (if header_kept (split_filtering (to_ascii_lowercase f)) n then combined n (values_of n raw) else [])"
  using assms js_filtering_ascii [OF ascii_lowercase [of f]]
  by (simp add: setHeaders_def js_lower_ascii js_fold_values js_response_new_def parsed_headers_def)

lemma with_headers_values:
  assumes "parsed_headers F H raw headers hm"
  shows "mset (values_of n (rd_headers (with_headers H (response_new st) hm f))) =
    (if header_kept (split_filtering (to_ascii_lowercase f)) n then mset (values_of n raw) else {#})"
proof -
  let ?vs = "values_of n (rd_headers (with_headers H (response_new st) hm f))"
  have "map Some ?vs = (if header_kept (split_filtering (to_ascii_lowercase f)) n
      then map (hv_to_str H) (values_of n (hm_iter H hm)) else [])"
    using kept_headers_values [of "hm_iter H hm" H n] parsed_headers_text [OF assms]
    by (simp add: with_headers_eq response_new_def)
  then have "mset (map Some ?vs) = mset (map Some (if header_kept (split_filtering (to_ascii_lowercase f)) n then values_of n raw else []))"
    using assms by (simp add: parsed_headers_def)
  then have "image_mset the (image_mset Some (mset ?vs)) =
      image_mset the (image_mset Some (mset (if header_kept (split_filtering (to_ascii_lowercase f)) n then values_of n raw else [])))"
    by simp
  then show ?thesis by (simp add: multiset.map_comp o_def split: if_splits)
qed

lemma headers_mime:
  assumes "parsed_headers F H raw headers hm" and "length (values_of ''content-type'' raw) \<le> 1"
  shows "js_mime (setHeaders F (js_response_new st) headers f) = rd_mime (with_headers H (response_new st') hm f')"
proof -
  have j: "js_mime (setHeaders F (js_response_new st) headers f) =
      last (''text/plain'' # combined ''content-type'' (values_of ''content-type'' raw))"
    using assms(1) by (simp add: setHeaders_def js_fold_mime js_response_new_def parsed_headers_def)
  have r: "Some (rd_mime (with_headers H (response_new st') hm f')) =
      last (Some ''text/plain'' # map (hv_to_str H) (values_of ''content-type'' (hm_iter H hm)))"
    using last_mime_values [of "hm_iter H hm" H] parsed_headers_text [OF assms(1)]
    by (simp add: with_headers_eq response_new_def)
  have m: "mset (map (hv_to_str H) (values_of ''content-type'' (hm_iter H hm))) = mset (map Some (values_of ''content-type'' raw))"
    using assms(1) by (simp add: parsed_headers_def)
  show ?thesis
  proof (cases "values_of ''content-type'' raw")
    case Nil
    with m have "map (hv_to_str H) (values_of ''content-type'' (hm_iter H hm)) = []" by simp
    with j r Nil show ?thesis by (simp add: combined_def)
  next
    case (Cons v vs)
    with assms(2) have v: "values_of ''content-type'' raw = [v]" by simp
    have "mset (map (hv_to_str H) (values_of ''content-type'' (hm_iter H hm))) = {#Some v#}"
      using m unfolding v by simp
    then have "map (hv_to_str H) (values_of ''content-type'' (hm_iter H hm)) = [Some v]" by (simp only: mset_single_iff)
    with j r v show ?thesis by (simp add: combined_def)
  qed
qed

section \<open>Masked bodies\<close>

text \<open>An object of the libraries has the properties that were set on it.\<close>

definition objects_documented :: "('h, 'j) fetch_lib \<Rightarrow> bool" where
  "objects_documented F \<longleftrightarrow>
     (\<forall>k. has_own F (new_object F) k = Ok False) \<and>
     (\<forall>obj k v k' b. has_own F obj k' = Ok b \<longrightarrow> has_own F (set_own F obj k v) k' = Ok (b \<or> k' = k)) \<and>
     (\<forall>obj k v k'. get_own F (set_own F obj k v) k' = (if k' = k then v else get_own F obj k'))"

definition owns :: "('h, 'j) fetch_lib \<Rightarrow> 'j \<Rightarrow> string \<Rightarrow> bool" where
  "owns F obj k \<longleftrightarrow> has_own F obj k = Ok True"

definition is_object :: "('h, 'j) fetch_lib \<Rightarrow> 'j \<Rightarrow> bool" where
  "is_object F obj \<longleftrightarrow> (\<forall>k. has_own F obj k = Ok (owns F obj k))"

lemma set_own_object:
  assumes "objects_documented F" and "is_object F obj"
  shows "is_object F (set_own F obj k v) \<and> owns F (set_own F obj k v) k' = (owns F obj k' \<or> k' = k)"
proof -
  have "has_own F (set_own F obj k v) j = Ok (owns F obj j \<or> j = k)" for j
    using assms by (simp add: objects_documented_def is_object_def)
  then show ?thesis by (simp add: is_object_def owns_def)
qed

lemma js_mask_own:
  "objects_documented F \<Longrightarrow> js_mask F obj fi o1 = Ok o2 \<Longrightarrow> is_object F o1 \<Longrightarrow>
     is_object F o2 \<and> (\<forall>k. owns F o2 k \<longleftrightarrow> owns F o1 k \<or> k \<in> set fi \<and> owns F obj k) \<and>
     (\<forall>k. get_own F o2 k = (if k \<in> set fi \<and> owns F obj k then get_own F obj k else get_own F o1 k))"
proof (induction fi arbitrary: o1)
  case (Cons k fi)
  from Cons.prems(2) obtain has where h: "has_own F obj k = Ok has"
    and m: "js_mask F obj fi (if has then set_own F o1 k (get_own F obj k) else o1) = Ok o2" by auto
  let ?o = "if has then set_own F o1 k (get_own F obj k) else o1"
  have has: "has \<longleftrightarrow> owns F obj k" using h by (simp add: owns_def)
  have ob: "is_object F ?o" and own: "\<And>j. owns F ?o j \<longleftrightarrow> owns F o1 j \<or> has \<and> j = k"
    using set_own_object [OF Cons.prems(1,3)] Cons.prems(3) by auto
  have get: "get_own F ?o j = (if has \<and> j = k then get_own F obj k else get_own F o1 j)" for j
    using Cons.prems(1) by (auto simp: objects_documented_def)
  from Cons.IH [OF Cons.prems(1) m ob] show ?case
    unfolding own get by (auto simp: has)
qed simp

lemma setBody_json:
  assumes "objects_documented F" and "setBody F rd body f = Ok rd'"
    and "js_filtering f \<noteq> []" and "js_status rd < 300" and "str_contains (js_mime rd) ''application/json''"
  obtains obj sent b where "json_parse F body = Ok obj" and "json_stringify F sent = Ok b" and "js_body rd' = Some b"
    and "\<forall>k. owns F sent k \<longleftrightarrow> k \<in> set (js_filtering f) \<and> owns F obj k"
    and "\<forall>k. owns F sent k \<longrightarrow> get_own F sent k = get_own F obj k"
proof -
  from assms(2-5) obtain obj sent b where o: "json_parse F body = Ok obj"
    "js_mask F obj (js_filtering f) (new_object F) = Ok sent" "json_stringify F sent = Ok b" "rd' = rd\<lparr>js_body := Some b\<rparr>"
    by (auto simp: setBody_def Let_def)
  have "is_object F (new_object F)" "\<not> owns F (new_object F) k" for k
    using assms(1) by (auto simp: objects_documented_def is_object_def owns_def)
  with js_mask_own [OF assms(1) o(2)] o show ?thesis by (intro that [of obj sent b]) auto
qed

section \<open>What is forwarded and what is sent back\<close>

text \<open>The client's status is 200 for every response that is kept, also for an error of the upstream.\<close>

lemma toResponse_status: "toResponse F rd = Ok r \<Longrightarrow> rp_status r = 200 \<and> rp_body r = js_body rd"
  by (auto simp: toResponse_def)

text \<open>
  What \<open>append\<close> does to what \<open>entries\<close> lists: the same names with the values in the order they were
  appended (a law for headers without repeated names).
\<close>

definition appends_documented :: "('h, 'j) fetch_lib \<Rightarrow> bool" where
  "appends_documented F \<longleftrightarrow>
     (\<forall>h. headers_new F [] = Ok h \<longrightarrow> headers_iter F h = []) \<and>
     (\<forall>h k v h'. headers_append F h k v = Ok h' \<longrightarrow> k \<notin> fst ` set (headers_iter F h) \<longrightarrow>
        set (headers_iter F h') = insert (k, v) (set (headers_iter F h)))"

definition forwarded_value :: "worker_lib \<Rightarrow> js_env \<Rightarrow> string \<Rightarrow> string" where
  "forwarded_value W env v = (if starts_with v ''HEADER_'' then getString W env v else v)"

lemma copy_headers_iter:
  "appends_documented F \<Longrightarrow> copy_headers W F env hs h = Ok h' \<Longrightarrow> distinct (map fst hs) \<Longrightarrow>
     fst ` set (headers_iter F h) \<inter> fst ` set hs = {} \<Longrightarrow>
     set (headers_iter F h') = set (headers_iter F h) \<union>
       (\<lambda>(k, v). (k, forwarded_value W env v)) ` {x \<in> set hs. fst x \<notin> set filterHeaders}"
proof (induction W F env hs h rule: copy_headers.induct)
  case (2 W F env key v hs h)
  show ?case
  proof (cases "key \<in> set filterHeaders")
    case True
    with 2 show ?thesis by auto
  next
    case False
    with 2(4) obtain h1 where a: "headers_append F h key (forwarded_value W env v) = Ok h1"
      and c: "copy_headers W F env hs h1 = Ok h'" by (auto simp: forwarded_value_def)
    have i: "set (headers_iter F h1) = insert (key, forwarded_value W env v) (set (headers_iter F h))"
      using 2(3,6) a by (auto simp: appends_documented_def)
    have d: "fst ` set (headers_iter F h1) \<inter> fst ` set hs = {}" using 2(5,6) i by force
    have "set (headers_iter F h') = set (headers_iter F h1) \<union>
       (\<lambda>(k, v). (k, forwarded_value W env v)) ` {x \<in> set hs. fst x \<notin> set filterHeaders}"
      using 2(2) [OF False 2(3) c _ d] 2(5) by simp
    with i False show ?thesis by auto
  qed
qed simp

end
