(* ===== verification/Worker_Object.thy ===== *)
theory Worker_Object
  imports Prelude
begin

text \<open>
  The Durable Object \<open>Cacher\<close> of \<open>src/idempotent-proxy-cf-worker/src/index.ts\<close>: one object per key, which
  is the lock and the cache entry of that key. Its state is the field \<open>status\<close> in memory, its durable
  storage (the entries \<open>s\<close> and \<open>v\<close>) and its alarm. The platform delivers no other event to the object
  while one of its storage operations is awaited, so every method is one atomic step. Times are
  milliseconds, as \<open>Date.now()\<close> gives them.
\<close>

section \<open>State and methods\<close>

record cacher_object =
  do_status :: nat
  stored_s :: "nat option"
  stored_v :: "bytes option"
  alarm_at :: "nat option"

definition fresh_object :: cacher_object where
  "fresh_object = \<lparr>do_status = 0, stored_s = None, stored_v = None, alarm_at = None\<rparr>"

definition object_ttl :: "nat \<Rightarrow> nat" where
  "object_ttl request_timeout = (if request_timeout = 0 then 10 * 1000 else request_timeout)"

text \<open>
  The constructor, for a new object and after every eviction: the status is read from the storage.
  \<open>getAlarm()\<close> is a promise, and \<open>promise == null\<close> is false whatever it resolves to.
\<close>

definition promise_is_null :: "nat option \<Rightarrow> bool" where
  "promise_is_null resolved = False"

definition do_construct :: "nat \<Rightarrow> nat \<Rightarrow> cacher_object \<Rightarrow> cacher_object" where
  "do_construct request_timeout now ob =
     (let ob = ob\<lparr>do_status := (case stored_s ob of None \<Rightarrow> 0 | Some s \<Rightarrow> s)\<rparr>
      in if promise_is_null (alarm_at ob) then ob\<lparr>alarm_at := Some (now + object_ttl request_timeout)\<rparr> else ob)"

definition do_obtain :: "cacher_object \<Rightarrow> bool \<times> cacher_object" where
  "do_obtain ob =
     (if do_status ob = 0 then (True, ob\<lparr>do_status := 1, stored_s := Some 1\<rparr>) else (False, ob))"

definition do_get :: "cacher_object \<Rightarrow> (bytes option, string) outcome" where
  "do_get ob =
     (if do_status ob = 0 then Err ''Error: not obtained''
      else if do_status ob \<noteq> 2 then Ok None
      else Ok (stored_v ob))"

definition do_set :: "nat \<Rightarrow> nat \<Rightarrow> bytes \<Rightarrow> cacher_object \<Rightarrow> cacher_object" where
  "do_set request_timeout now val ob =
     ob\<lparr>do_status := 2, alarm_at := Some (now + object_ttl request_timeout), stored_s := Some 2, stored_v := Some val\<rparr>"

definition do_del :: "cacher_object \<Rightarrow> cacher_object" where
  "do_del ob = ob\<lparr>do_status := 0, alarm_at := None, stored_s := None, stored_v := None\<rparr>"

text \<open>The alarm handler; an alarm that fires is no longer set.\<close>

definition do_alarm :: "cacher_object \<Rightarrow> cacher_object" where
  "do_alarm ob = do_del (ob\<lparr>alarm_at := None\<rparr>)"

text \<open>What can happen to an object beside \<open>obtain\<close> (\<open>get\<close> changes nothing), and which of it frees the lock.\<close>

datatype object_event = SetValue nat nat bytes | Del | Alarm | Evicted nat nat

fun apply_event :: "object_event \<Rightarrow> cacher_object \<Rightarrow> cacher_object" where
  "apply_event (SetValue timeout now v) ob = do_set timeout now v ob"
| "apply_event Del ob = do_del ob"
| "apply_event Alarm ob = do_alarm ob"
| "apply_event (Evicted timeout now) ob = do_construct timeout now ob"

fun event_frees :: "object_event \<Rightarrow> bool" where
  "event_frees Del = True"
| "event_frees Alarm = True"
| "event_frees e = False"

section \<open>The interface: a lock\<close>

text \<open>
  What the worker relies on: \<open>obtain\<close> succeeds exactly on a lock that is not taken and takes it, and only
  some events free a taken lock. \<open>valid\<close> is the invariant of the provider.
\<close>

locale lock_cell =
  fixes valid :: "'s \<Rightarrow> bool" and taken :: "'s \<Rightarrow> bool" and obt :: "'s \<Rightarrow> bool \<times> 's"
    and event :: "'e \<Rightarrow> 's \<Rightarrow> 's" and frees :: "'e \<Rightarrow> bool"
  assumes obt_iff: "fst (obt s) \<longleftrightarrow> \<not> taken s"
    and obt_takes: "taken (snd (obt s))"
    and obt_valid: "valid s \<Longrightarrow> valid (snd (obt s))"
    and event_valid: "valid s \<Longrightarrow> valid (event e s)"
    and event_keeps: "valid s \<Longrightarrow> taken s \<Longrightarrow> \<not> frees e \<Longrightarrow> taken (event e s)"
begin

text \<open>The grants a lock can still owe: none while it is taken; a freeing event allows one more.\<close>

definition held :: "'s \<Rightarrow> nat" where
  "held s = (if taken s then 1 else 0)"

lemma held_obt: "held (snd (obt s)) = held s + (if fst (obt s) then 1 else 0)"
  by (simp add: held_def obt_iff obt_takes)

lemma held_event: "valid s \<Longrightarrow> held s \<le> held (event e s) + (if frees e then 1 else 0)"
  by (simp add: held_def event_keeps)

text \<open>Any sequence of calls on one lock: \<open>None\<close> is an \<open>obtain\<close>.\<close>

fun calls :: "'e option list \<Rightarrow> 's \<Rightarrow> 's" where
  "calls [] s = s"
| "calls (None # cs) s = calls cs (snd (obt s))"
| "calls (Some e # cs) s = calls cs (event e s)"

fun grants :: "'e option list \<Rightarrow> 's \<Rightarrow> nat" where
  "grants [] s = 0"
| "grants (None # cs) s = (if fst (obt s) then 1 else 0) + grants cs (snd (obt s))"
| "grants (Some e # cs) s = grants cs (event e s)"

fun freeings :: "'e option list \<Rightarrow> nat" where
  "freeings [] = 0"
| "freeings (None # cs) = freeings cs"
| "freeings (Some e # cs) = (if frees e then 1 else 0) + freeings cs"

lemma grants_held: "valid s \<Longrightarrow> grants cs s + held s \<le> freeings cs + held (calls cs s)"
proof (induction cs arbitrary: s)
  case (Cons c cs)
  show ?case
  proof (cases c)
    case None
    with Cons.IH [OF obt_valid [OF Cons.prems]] held_obt [of s] show ?thesis by simp
  next
    case (Some e)
    with Cons.IH [OF event_valid [OF Cons.prems, of e]] held_event [OF Cons.prems, of e] show ?thesis by simp
  qed
qed simp

lemma grants_bounded: "valid s \<Longrightarrow> grants cs s \<le> 1 + freeings cs"
  using grants_held [of s cs] by (simp add: held_def split: if_splits)

end

section \<open>The object provides it\<close>

text \<open>
  Memory and storage agree, a pending lock (1) has neither value nor alarm, and a value (2) comes with
  both.
\<close>

definition object_ok :: "cacher_object \<Rightarrow> bool" where
  "object_ok ob \<longleftrightarrow> do_status ob \<le> 2 \<and>
     stored_s ob = (if do_status ob = 0 then None else Some (do_status ob)) \<and>
     (stored_v ob \<noteq> None \<longleftrightarrow> do_status ob = 2) \<and> (alarm_at ob \<noteq> None \<longleftrightarrow> do_status ob = 2)"

definition object_taken :: "cacher_object \<Rightarrow> bool" where
  "object_taken ob \<longleftrightarrow> do_status ob \<noteq> 0"

lemmas object_defs = do_construct_def promise_is_null_def do_obtain_def do_get_def do_set_def do_del_def do_alarm_def
  object_ok_def object_taken_def Let_def

lemma object_event_ok: "object_ok ob \<Longrightarrow> object_ok (apply_event e ob)"
  by (cases e) (auto simp: object_defs)

interpretation cell: lock_cell object_ok object_taken do_obtain apply_event event_frees
proof
  fix ob e
  assume "object_ok ob" and "object_taken ob" and "\<not> event_frees e"
  then show "object_taken (apply_event e ob)" by (cases e) (auto simp: object_defs)
next
  fix ob e
  assume "object_ok ob"
  then show "object_ok (apply_event e ob)" by (rule object_event_ok)
qed (auto simp: object_defs)

lemma fresh_object_ok: "object_ok fresh_object" "\<not> object_taken fresh_object"
  by (simp_all add: object_ok_def object_taken_def fresh_object_def)

lemma evicted_same: "object_ok ob \<Longrightarrow> do_construct timeout now ob = ob"
  by (auto simp: object_defs)

lemma object_event_pending:
  "object_ok ob \<Longrightarrow> do_status ob = 1 \<Longrightarrow> e \<noteq> Del \<Longrightarrow> e \<noteq> Alarm \<Longrightarrow> \<forall>t n v. e \<noteq> SetValue t n v \<Longrightarrow> apply_event e ob = ob"
  by (cases e) (auto simp: evicted_same)

end
