(* ===== verification/Worker_System.thy ===== *)
theory Worker_System
  imports Worker_Response Worker_Object
begin

text \<open>
  The Cloudflare worker as a whole (\<open>src/idempotent-proxy-cf-worker/src/index.ts\<close>): the handler \<open>fetch\<close>
  and \<open>polling_get\<close>, cut at their \<open>await\<close>s, for any number of requests at once, with the Durable Objects
  (\<open>Worker_Object\<close>) they call. A call of an object can fail before or after the object has executed it; a
  \<open>stub.del()\<close> is not awaited, so it is executed at some later moment or lost; a request can be dropped at
  any \<open>await\<close>; an alarm fires when it is due; an object can be evicted and constructed again.
\<close>

section \<open>Requests, results and libraries\<close>

record 'u url_lib =
  url_new :: "string \<Rightarrow> ('u, string) outcome"
  url_pathname :: "'u \<Rightarrow> string"
  url_set_port :: "string \<Rightarrow> 'u \<Rightarrow> 'u"
  url_set_protocol :: "string \<Rightarrow> 'u \<Rightarrow> 'u"
  url_set_host :: "string \<Rightarrow> 'u \<Rightarrow> 'u"

record ('h, 'j, 'u) worker_libs =
  wlib :: worker_lib
  flib :: "('h, 'j) fetch_lib"
  ulib :: "'u url_lib"

record 'h worker_request =
  wr_method :: string
  wr_url :: string
  wr_headers :: 'h
  wr_body :: bytes

record ('h, 'u) fetch_request =
  fr_url :: 'u
  fr_method :: string
  fr_headers :: 'h
  fr_body :: bytes

record 'h fetch_answer =
  fa_status :: nat
  fa_headers :: 'h
  fa_bytes :: "(bytes, string) outcome"

text \<open>\<open>Env\<close>: the bindings that the handler reads by name (both times in milliseconds), and all of them.\<close>

record worker_env =
  POLL_INTERVAL :: nat
  REQUEST_TIMEOUT :: nat
  ALLOW_AGENTS :: "string list"
  bindings :: js_env

text \<open>A plain text reply, the reply of \<open>toResponse\<close>, or an exception that nobody caught.\<close>

datatype 'h worker_result = PlainReply nat string | CachedReply "'h js_reply" | Uncaught string

section \<open>The handler before the lock\<close>

fun uncaught :: "('a, string) outcome \<Rightarrow> ('a, 'e) outcome" where
  "uncaught (Ok x) = Ok x"
| "uncaught (Err e) = Panic e"
| "uncaught (Panic m) = Panic m"

text \<open>\<open>headers.get(name) || ''\<close>.\<close>

definition header_or_empty :: "('h, 'j) fetch_lib \<Rightarrow> 'h \<Rightarrow> string \<Rightarrow> string" where
  "header_or_empty F headers name = (case headers_get F headers name of None \<Rightarrow> [] | Some v \<Rightarrow> v)"

definition worker_agent :: "('h, 'j, 'u) worker_libs \<Rightarrow> worker_env \<Rightarrow> 'h worker_request \<Rightarrow> nat
    \<Rightarrow> (js_value, 'h worker_result) outcome" where
  "worker_agent L E req now =
     and_then (uncaught (parsePubkeys (bindings E))) (\<lambda>(pks, any).
     and_then
       (if any then map_err (PlainReply 407)
          (verifyToken (wlib L) pks (header_or_empty (flib L) (wr_headers req) HEADER_PROXY_AUTHORIZATION) now)
        else Ok (JsString ''ANON''))
       (\<lambda>agent.
          if ALLOW_AGENTS E \<noteq> [] \<and> agent \<notin> set (map JsString (ALLOW_AGENTS E))
          then Err (PlainReply 403 (''agent '' @ js_text (wlib L) agent @ '' is not allowed''))
          else Ok agent))"

definition worker_url :: "('h, 'j, 'u) worker_libs \<Rightarrow> worker_env \<Rightarrow> 'h worker_request \<Rightarrow> ('u, 'h worker_result) outcome" where
  "worker_url L E req =
     and_then (uncaught (url_new (ulib L) (wr_url req))) (\<lambda>url.
       if wr_method req = ''GET'' \<and> url_pathname (ulib L) url = ''/''
       then Err (PlainReply 200 ''idempotent-proxy-cf-worker'')
       else if starts_with (url_pathname (ulib L) url) ''/URL_''
       then uncaught (url_new (ulib L) (getString (wlib L) (bindings E) (drop 1 (url_pathname (ulib L) url))))
       else (let host = header_or_empty (flib L) (wr_headers req) HEADER_X_FORWARDED_HOST
             in if host = [] then Err (PlainReply 400 (''missing header: '' @ HEADER_X_FORWARDED_HOST))
                else Ok (url_set_host (ulib L) host (url_set_protocol (ulib L) ''https'' (url_set_port (ulib L) [] url)))))"

definition worker_key :: "string \<Rightarrow> string \<Rightarrow> string \<Rightarrow> string" where
  "worker_key agent m key = agent @ '':'' @ m @ '':'' @ key"

definition worker_admit :: "('h, 'j, 'u) worker_libs \<Rightarrow> worker_env \<Rightarrow> 'h worker_request \<Rightarrow> nat
    \<Rightarrow> ('u \<times> string, 'h worker_result) outcome" where
  "worker_admit L E req now =
     and_then (worker_agent L E req now) (\<lambda>agent.
     and_then (worker_url L E req) (\<lambda>url.
       let idempotencyKey = header_or_empty (flib L) (wr_headers req) HEADER_IDEMPOTENCY_KEY
       in if idempotencyKey = [] then Err (PlainReply 400 (''missing header: '' @ HEADER_IDEMPOTENCY_KEY))
          else Ok (url, worker_key (js_text (wlib L) agent) (wr_method req) idempotencyKey)))"

section \<open>The places between the awaits\<close>

datatype ('h, 'u) wpc =
    WIdle
  | WObtaining "'h worker_request" 'u string
  | WPolling string "nat option"
  | WFetching "'h worker_request" "('h, 'u) fetch_request" string
  | WWaiting "'h worker_request" string
  | WSetting string js_response bytes
  | WFinished "string option" "'h worker_result"
  | WGone

text \<open>
  The rounds \<open>Math.floor(REQUEST_TIMEOUT / POLL_INTERVAL)\<close>: \<open>None\<close> is \<open>Infinity\<close>, and \<open>0 / 0\<close> is
  \<open>NaN\<close>, which is not above zero.
\<close>

definition poll_counter :: "worker_env \<Rightarrow> nat option" where
  "poll_counter E =
     (if POLL_INTERVAL E = 0 then if REQUEST_TIMEOUT E = 0 then Some 0 else None
      else Some (REQUEST_TIMEOUT E div POLL_INTERVAL E))"

fun poll_next :: "nat option \<Rightarrow> nat option" where
  "poll_next None = None"
| "poll_next (Some n) = Some (n - 1)"

text \<open>
  What a request does until its next \<open>await\<close>, and how often it calls \<open>stub.del()\<close> meanwhile. The handler's
  \<open>catch\<close> turns any exception after the lock into a 500 and one such call.
\<close>

definition w_catch :: "string \<Rightarrow> string \<Rightarrow> ('h, 'u) wpc \<times> nat" where
  "w_catch key err = (WFinished (Some key) (PlainReply 500 err), 1)"

definition caught :: "string \<Rightarrow> ('a, string) outcome \<Rightarrow> ('a \<Rightarrow> ('h, 'u) wpc \<times> nat) \<Rightarrow> ('h, 'u) wpc \<times> nat" where
  "caught key r f = (case r of Ok x \<Rightarrow> f x | Err e \<Rightarrow> w_catch key e | Panic m \<Rightarrow> w_catch key m)"

definition w_begin :: "('h, 'j, 'u) worker_libs \<Rightarrow> worker_env \<Rightarrow> 'h worker_request \<Rightarrow> nat \<Rightarrow> ('h, 'u) wpc" where
  "w_begin L E req now =
     (case worker_admit L E req now of
        Ok (url, key) \<Rightarrow> WObtaining req url key
      | Err r \<Rightarrow> WFinished None r
      | Panic m \<Rightarrow> WFinished None (Uncaught m))"

definition w_after_obtain :: "('h, 'j, 'u) worker_libs \<Rightarrow> worker_env \<Rightarrow> 'h worker_request \<Rightarrow> 'u \<Rightarrow> string \<Rightarrow> bool
    \<Rightarrow> ('h, 'u) wpc \<times> nat" where
  "w_after_obtain L E req url key lock =
     (if \<not> lock then (WPolling key (poll_counter E), 0)
      else caught key (proxyRequestHeaders (wlib L) (flib L) (bindings E) (wr_headers req)) (\<lambda>hs.
        (WFetching req \<lparr>fr_url = url, fr_method = wr_method req, fr_headers = hs, fr_body = wr_body req\<rparr> key, 0)))"

definition w_after_poll :: "('h, 'j, 'u) worker_libs \<Rightarrow> string \<Rightarrow> nat option \<Rightarrow> (bytes option, string) outcome
    \<Rightarrow> ('h, 'u) wpc \<times> nat" where
  "w_after_poll L key n got =
     caught key got (\<lambda>v. case v of
        None \<Rightarrow> (WPolling key n, 0)
      | Some data \<Rightarrow> caught key (and_then (fromBytes (flib L) data) (toResponse (flib L))) (\<lambda>r.
          (WFinished (Some key) (CachedReply r), 0)))"

text \<open>
  With the upstream's answer: the response that is kept, or the status and text that are passed on
  (\<open>TextDecoder\<close> drops a byte order mark; \<open>new Response\<close> throws on a status outside 200 to 599).
\<close>

definition text_decode :: "bytes \<Rightarrow> string" where
  "text_decode bs =
     from_utf8_lossy (case strip_prefix bs [CHR 0xEF, CHR 0xBB, CHR 0xBF] of None \<Rightarrow> bs | Some r \<Rightarrow> r)"

definition keep_answer :: "('h, 'j, 'u) worker_libs \<Rightarrow> 'h worker_request \<Rightarrow> 'h fetch_answer \<Rightarrow> (js_response \<times> bytes, string) outcome" where
  "keep_answer L req res =
     and_then (fa_bytes res) (\<lambda>data.
     and_then (setBody (flib L)
        (setHeaders (flib L) (js_response_new (fa_status res)) (fa_headers res)
          (header_or_empty (flib L) (wr_headers req) HEADER_RESPONSE_HEADERS))
        data (header_or_empty (flib L) (wr_headers req) HEADER_X_JSON_MASK)) (\<lambda>rd.
     and_then (toBytes (flib L) rd) (\<lambda>bs. Ok (rd, bs))))"

definition del_too :: "('h, 'u) wpc \<times> nat \<Rightarrow> ('h, 'u) wpc \<times> nat" where
  "del_too x = (fst x, Suc (snd x))"

definition w_after_answer :: "('h, 'j, 'u) worker_libs \<Rightarrow> 'h worker_request \<Rightarrow> string \<Rightarrow> ('h fetch_answer, string) outcome
    \<Rightarrow> ('h, 'u) wpc \<times> nat" where
  "w_after_answer L req key answer =
     caught key answer (\<lambda>res.
       if 200 \<le> fa_status res \<and> fa_status res \<le> 500
       then caught key (keep_answer L req res) (\<lambda>(rd, data). (WSetting key rd data, 0))
       else del_too (caught key (map_ok text_decode (fa_bytes res)) (\<lambda>text.
         if 200 \<le> fa_status res \<and> fa_status res \<le> 599
         then (WFinished (Some key) (PlainReply (fa_status res) text), 0)
         else w_catch key ''RangeError'')))"

definition w_after_set :: "('h, 'j, 'u) worker_libs \<Rightarrow> string \<Rightarrow> js_response \<Rightarrow> ('h, 'u) wpc \<times> nat" where
  "w_after_set L key rd = caught key (toResponse (flib L) rd) (\<lambda>r. (WFinished (Some key) (CachedReply r), 0))"

section \<open>Steps and runs\<close>

record ('h, 'u) wsys =
  objects :: "string \<Rightarrow> cacher_object"
  wclock :: nat
  wtasks :: "nat \<Rightarrow> ('h, 'u) wpc"
  in_flight :: "string list"

datatype wlabel =
    WGranted nat string
  | WRefused nat string
  | WFetched nat string
  | WAnswered nat string js_response
  | WStored nat string
  | WDeleted string
  | WExpired string
  | WInternal

definition w_put :: "nat \<Rightarrow> string \<Rightarrow> ('h, 'u) wpc \<times> nat \<Rightarrow> ('h, 'u) wsys \<Rightarrow> ('h, 'u) wsys" where
  "w_put i key x s =
     s\<lparr>wtasks := (wtasks s)(i := fst x), in_flight := replicate (snd x) key @ in_flight s\<rparr>"

definition w_object :: "string \<Rightarrow> cacher_object \<Rightarrow> ('h, 'u) wsys \<Rightarrow> ('h, 'u) wsys" where
  "w_object key ob s = s\<lparr>objects := (objects s)(key := ob)\<rparr>"

definition obtain_label :: "nat \<Rightarrow> string \<Rightarrow> bool \<Rightarrow> wlabel" where
  "obtain_label i key lock = (if lock then WGranted i key else WRefused i key)"

definition answer_label :: "nat \<Rightarrow> string \<Rightarrow> ('h, 'u) wpc \<times> nat \<Rightarrow> wlabel" where
  "answer_label i key x = (case fst x of WSetting k rd data \<Rightarrow> WAnswered i key rd | _ \<Rightarrow> WInternal)"

text \<open>The object a request is calling.\<close>

fun calling :: "('h, 'u) wpc \<Rightarrow> string option" where
  "calling (WObtaining req url key) = Some key"
| "calling (WPolling key n) = Some key"
| "calling (WSetting key rd data) = Some key"
| "calling p = None"

inductive wstep :: "('h, 'j, 'u) worker_libs \<Rightarrow> worker_env \<Rightarrow> ('h, 'u) wsys \<Rightarrow> wlabel \<Rightarrow> ('h, 'u) wsys \<Rightarrow> bool"
  for L E where
  w_arrive: "wtasks s i = WIdle \<Longrightarrow>
    wstep L E s WInternal (s\<lparr>wtasks := (wtasks s)(i := w_begin L E req (wclock s))\<rparr>)"
| w_obtain: "wtasks s i = WObtaining req url key \<Longrightarrow> do_obtain (objects s key) = (lock, ob) \<Longrightarrow>
    wstep L E s (obtain_label i key lock) (w_put i key (w_after_obtain L E req url key lock) (w_object key ob s))"
| w_obtain_lost: "wtasks s i = WObtaining req url key \<Longrightarrow> do_obtain (objects s key) = (lock, ob) \<Longrightarrow>
    wstep L E s (obtain_label i key lock) (w_put i key (w_catch key err) (w_object key ob s))"
| w_timeout: "wtasks s i = WPolling key (Some 0) \<Longrightarrow>
    wstep L E s WInternal (w_put i key (w_catch key ''Error: polling get cache timeout'') s)"
| w_poll: "wtasks s i = WPolling key n \<Longrightarrow> n \<noteq> Some 0 \<Longrightarrow>
    wstep L E s WInternal (w_put i key (w_after_poll L key (poll_next n) (do_get (objects s key))) s)"
| w_fetch: "wtasks s i = WFetching req f key \<Longrightarrow>
    wstep L E s (WFetched i key) (w_put i key (WWaiting req key, 0) s)"
| w_answer: "wtasks s i = WWaiting req key \<Longrightarrow>
    wstep L E s (answer_label i key (w_after_answer L req key answer)) (w_put i key (w_after_answer L req key answer) s)"
| w_set: "wtasks s i = WSetting key rd data \<Longrightarrow>
    wstep L E s (WStored i key) (w_put i key (w_after_set L key rd)
      (w_object key (do_set (REQUEST_TIMEOUT E) (wclock s) data (objects s key)) s))"
| w_set_lost: "wtasks s i = WSetting key rd data \<Longrightarrow>
    wstep L E s (WStored i key) (w_put i key (w_catch key err)
      (w_object key (do_set (REQUEST_TIMEOUT E) (wclock s) data (objects s key)) s))"
| w_call_fails: "calling (wtasks s i) = Some key \<Longrightarrow> wstep L E s WInternal (w_put i key (w_catch key err) s)"
| w_del: "key \<in> set (in_flight s) \<Longrightarrow>
    wstep L E s (WDeleted key) ((w_object key (do_del (objects s key)) s)\<lparr>in_flight := remove1 key (in_flight s)\<rparr>)"
| w_del_lost: "wstep L E s WInternal (s\<lparr>in_flight := remove1 key (in_flight s)\<rparr>)"
| w_alarm: "alarm_at (objects s key) = Some t \<Longrightarrow> t \<le> wclock s \<Longrightarrow>
    wstep L E s (WExpired key) (w_object key (do_alarm (objects s key)) s)"
| w_evict: "wstep L E s WInternal (w_object key (do_construct (REQUEST_TIMEOUT E) (wclock s) (objects s key)) s)"
| w_drop: "wstep L E s WInternal (s\<lparr>wtasks := (wtasks s)(i := WGone)\<rparr>)"
| w_tick: "wclock s \<le> t \<Longrightarrow> wstep L E s WInternal (s\<lparr>wclock := t\<rparr>)"

inductive wrun :: "('h, 'j, 'u) worker_libs \<Rightarrow> worker_env \<Rightarrow> ('h, 'u) wsys \<Rightarrow> wlabel list \<Rightarrow> ('h, 'u) wsys \<Rightarrow> bool"
  for L E s0 where
  wrun_start: "wrun L E s0 [] s0"
| wrun_step: "wrun L E s0 tr s \<Longrightarrow> wstep L E s l s' \<Longrightarrow> wrun L E s0 (tr @ [l]) s'"

definition wsys_start :: "nat \<Rightarrow> ('h, 'u) wsys" where
  "wsys_start now = \<lparr>objects = (\<lambda>_. fresh_object), wclock = now, wtasks = (\<lambda>_. WIdle), in_flight = []\<rparr>"

lemma w_put_simps [simp]:
  "objects (w_put i key x s) = objects s" "wtasks (w_put i key x s) = (wtasks s)(i := fst x)"
  "wclock (w_put i key x s) = wclock s"
  "in_flight (w_put i key x s) = replicate (snd x) key @ in_flight s"
  "objects (w_object key ob s) = (objects s)(key := ob)" "wtasks (w_object key ob s) = wtasks s"
  "wclock (w_object key ob s) = wclock s" "in_flight (w_object key ob s) = in_flight s"
  by (simp_all add: w_put_def w_object_def)

section \<open>The objects of a run\<close>

text \<open>Each step does one thing to one object: nothing, an \<open>obtain\<close>, or an event.\<close>

definition l_granted :: "string \<Rightarrow> wlabel \<Rightarrow> bool" where
  "l_granted k l \<longleftrightarrow> (\<exists>i. l = WGranted i k)"

definition l_removed :: "string \<Rightarrow> wlabel \<Rightarrow> bool" where
  "l_removed k l \<longleftrightarrow> l = WDeleted k \<or> l = WExpired k"

definition l_fetched :: "string \<Rightarrow> wlabel \<Rightarrow> bool" where
  "l_fetched k l \<longleftrightarrow> (\<exists>i. l = WFetched i k)"

definition l_answered :: "string \<Rightarrow> wlabel \<Rightarrow> bool" where
  "l_answered k l \<longleftrightarrow> (\<exists>i rd. l = WAnswered i k rd)"

definition l_stored :: "string \<Rightarrow> wlabel \<Rightarrow> bool" where
  "l_stored k l \<longleftrightarrow> (\<exists>i. l = WStored i k)"

lemmas l_defs = l_granted_def l_removed_def l_fetched_def l_answered_def l_stored_def obtain_label_def answer_label_def

lemma wstep_object:
  assumes "wstep L E s l s'"
  shows "objects s' k = objects s k \<and> \<not> l_granted k l
    \<or> objects s' k = snd (do_obtain (objects s k)) \<and> (l_granted k l \<longleftrightarrow> fst (do_obtain (objects s k))) \<and> \<not> l_stored k l
    \<or> (\<exists>e. objects s' k = apply_event e (objects s k) \<and> \<not> l_granted k l \<and> (event_frees e \<longleftrightarrow> l_removed k l) \<and>
         ((\<exists>t n v. e = SetValue t n v) \<longleftrightarrow> l_stored k l))"
  using assms
proof (cases rule: wstep.cases)
  case (w_obtain i req url key lock ob)
  then show ?thesis by (cases "k = key") (auto simp: l_defs)
next
  case (w_obtain_lost i req url key lock ob err)
  then show ?thesis by (cases "k = key") (auto simp: l_defs)
next
  case (w_set i key rd data)
  then show ?thesis
    by (cases "k = key") (auto simp: l_defs intro!: exI [of _ "SetValue (REQUEST_TIMEOUT E) (wclock s) data"])
next
  case (w_set_lost i key rd data err)
  then show ?thesis
    by (cases "k = key") (auto simp: l_defs intro!: exI [of _ "SetValue (REQUEST_TIMEOUT E) (wclock s) data"])
next
  case (w_del key)
  then show ?thesis by (cases "k = key") (auto simp: l_defs intro!: exI [of _ Del])
next
  case (w_alarm key t)
  then show ?thesis by (cases "k = key") (auto simp: l_defs intro!: exI [of _ Alarm])
next
  case (w_evict key)
  then show ?thesis
    by (cases "k = key") (auto simp: l_defs intro!: exI [of _ "Evicted (REQUEST_TIMEOUT E) (wclock s)"])
qed (auto simp: l_defs split: wpc.splits)

lemma wstep_objects_ok:
  assumes "wstep L E s l s'" and "\<forall>k. object_ok (objects s k)"
  shows "object_ok (objects s' k)"
proof -
  have ok: "object_ok (objects s k)" using assms(2) ..
  from wstep_object [OF assms(1), of k] show ?thesis
    by (elim disjE conjE exE) (simp_all only: ok cell.obt_valid [OF ok] cell.event_valid [OF ok])
qed

lemma wrun_objects_ok: "wrun L E s0 tr s \<Longrightarrow> \<forall>k. object_ok (objects s0 k) \<Longrightarrow> \<forall>k. object_ok (objects s k)"
  by (induction rule: wrun.induct) (auto dest: wstep_objects_ok)

lemma wsys_start_ok: "object_ok (objects (wsys_start now) k)"
  by (simp add: wsys_start_def fresh_object_ok)

text \<open>The grants of a key are at most the removals of its object, and one more while it is taken.\<close>

definition times :: "(wlabel \<Rightarrow> bool) \<Rightarrow> wlabel list \<Rightarrow> nat" where
  "times P tr = length (filter P tr)"

lemma times_simps [simp]:
  "times P [] = 0" "times P (xs @ ys) = times P xs + times P ys" "times P [l] = (if P l then 1 else 0)"
  by (simp_all add: times_def)

lemma times_0: "times P tr = 0 \<longleftrightarrow> (\<forall>l\<in>set tr. \<not> P l)"
  by (auto simp: times_def filter_empty_conv)

lemma times_mem: "l \<in> set tr \<Longrightarrow> P l \<Longrightarrow> 0 < times P tr"
  by (metis neq0_conv times_0)

lemma times_two:
  "l \<in> set tr \<Longrightarrow> l' \<in> set tr \<Longrightarrow> l \<noteq> l' \<Longrightarrow> P l \<Longrightarrow> P l' \<Longrightarrow> 2 \<le> times P tr"
proof (induction tr rule: rev_induct)
  case (snoc x xs)
  then show ?case using times_mem [of l xs P] times_mem [of l' xs P] by auto
qed simp

lemma wstep_held:
  assumes "wstep L E s l s'" and "object_ok (objects s k)"
  shows "(if l_granted k l then 1 else 0) + cell.held (objects s k) \<le>
    cell.held (objects s' k) + (if l_removed k l then 1 else 0)"
  using wstep_object [OF assms(1), of k]
proof (elim disjE conjE exE)
  assume "objects s' k = snd (do_obtain (objects s k))" "l_granted k l \<longleftrightarrow> fst (do_obtain (objects s k))"
  then show ?thesis using cell.held_obt [of "objects s k"] by simp
next
  fix e
  assume "objects s' k = apply_event e (objects s k)" "\<not> l_granted k l" "event_frees e \<longleftrightarrow> l_removed k l"
  then show ?thesis using cell.held_event [OF assms(2), of e] by simp
qed simp

lemma wrun_grants:
  "wrun L E s0 tr s \<Longrightarrow> \<forall>k. object_ok (objects s0 k) \<Longrightarrow>
     times (l_granted k) tr + cell.held (objects s0 k) \<le> cell.held (objects s k) + times (l_removed k) tr"
proof (induction rule: wrun.induct)
  case (wrun_step tr s l s')
  have "object_ok (objects s k)" using wrun_objects_ok [OF wrun_step.hyps(1) wrun_step.prems] ..
  from wrun_step.IH [OF wrun_step.prems] wstep_held [OF wrun_step.hyps(2) this] show ?case by simp
qed simp

section \<open>The requests of a run\<close>

text \<open>A request that may still fetch, and one that waits for its answer.\<close>

fun owes :: "string \<Rightarrow> ('h, 'u) wpc \<Rightarrow> bool" where
  "owes k (WFetching req f key) = (key = k)"
| "owes k p = False"

fun waits :: "string \<Rightarrow> ('h, 'u) wpc \<Rightarrow> bool" where
  "waits k (WWaiting req key) = (key = k)"
| "waits k p = False"

definition advances :: "string \<Rightarrow> ('h, 'u) wpc \<Rightarrow> wlabel \<Rightarrow> ('h, 'u) wpc \<Rightarrow> bool" where
  "advances k p l p' \<longleftrightarrow>
     (owes k p' \<longrightarrow> owes k p \<or> l_granted k l) \<and>
     (l_fetched k l \<longrightarrow> owes k p \<and> \<not> owes k p') \<and>
     (waits k p' \<longrightarrow> waits k p \<or> l_fetched k l) \<and>
     (l_answered k l \<longrightarrow> waits k p \<and> \<not> waits k p') \<and> \<not> (l_granted k l \<and> l_fetched k l) \<and> \<not> (l_fetched k l \<and> l_answered k l)"

lemma after_owes:
  "owes k (fst (w_after_obtain L E req url key lock)) \<Longrightarrow> key = k \<and> lock"
  "\<not> waits k (fst (w_after_obtain L E req url key lock))"
  "\<not> owes k (fst (w_after_poll L key n g))" "\<not> waits k (fst (w_after_poll L key n g))"
  "\<not> owes k (fst (w_after_answer L req key a))" "\<not> waits k (fst (w_after_answer L req key a))"
  "\<not> owes k (fst (w_after_set L key rd))" "\<not> waits k (fst (w_after_set L key rd))"
  "\<not> owes k (w_begin L E req now)" "\<not> waits k (w_begin L E req now)"
  "\<not> owes k (fst (w_catch key err))" "\<not> waits k (fst (w_catch key err))"
  by (auto simp: w_after_obtain_def w_after_poll_def w_after_answer_def w_after_set_def w_begin_def caught_def w_catch_def del_too_def
      split: outcome.splits option.splits prod.splits if_splits)

lemma answer_label_key: "l_answered k (answer_label i key (w_after_answer L req key' a)) \<Longrightarrow> key = k"
  "\<not> l_fetched k (answer_label i key x)" "\<not> l_granted k (answer_label i key x)"
  by (auto simp: l_defs split: wpc.splits)

lemma advances_same [simp]: "advances k p WInternal p" "advances k p (WDeleted d) p" "advances k p (WExpired d) p"
  by (auto simp: advances_def l_defs)

lemma wstep_advances:
  assumes "wstep L E s l s'"
  shows "\<exists>i p. wtasks s' = (wtasks s)(i := p) \<and> (\<forall>k. advances k (wtasks s i) l p)"
proof -
  have same: "\<exists>i p. wtasks s = (wtasks s)(i := p) \<and> (\<forall>k. advances k (wtasks s i) l p)"
    if "l = WInternal \<or> l = WDeleted d \<or> l = WExpired d" for d
    using that by (intro exI [of _ 0] exI [of _ "wtasks s 0"]) auto
  from assms show ?thesis
  proof (cases rule: wstep.cases)
    case (w_arrive i req)
    then show ?thesis by (intro exI [of _ i] exI [of _ "w_begin L E req (wclock s)"]) (auto simp: advances_def after_owes l_defs)
  next
    case (w_obtain i req url key lock ob)
    then show ?thesis
      by (intro exI [of _ i] exI [of _ "fst (w_after_obtain L E req url key lock)"])
        (auto simp: advances_def after_owes l_defs dest: after_owes(1))
  next
    case (w_obtain_lost i req url key lock ob err)
    then show ?thesis
      by (intro exI [of _ i] exI [of _ "fst (w_catch key err)"]) (auto simp: advances_def after_owes l_defs)
  next
    case (w_timeout i key)
    then show ?thesis
      by (intro exI [of _ i] exI [of _ "fst (w_catch key ''Error: polling get cache timeout'')"])
        (auto simp: advances_def after_owes l_defs)
  next
    case (w_poll i key n)
    then show ?thesis
      by (intro exI [of _ i] exI [of _ "fst (w_after_poll L key (poll_next n) (do_get (objects s key)))"])
        (auto simp: advances_def after_owes l_defs)
  next
    case (w_fetch i req f key)
    then show ?thesis
      by (intro exI [of _ i] exI [of _ "WWaiting req key"]) (auto simp: advances_def l_defs)
  next
    case (w_answer i req key answer)
    then show ?thesis
      by (intro exI [of _ i] exI [of _ "fst (w_after_answer L req key answer)"])
        (auto simp: advances_def after_owes answer_label_key(2,3) dest: answer_label_key(1))
  next
    case (w_set i key rd data)
    then show ?thesis
      by (intro exI [of _ i] exI [of _ "fst (w_after_set L key rd)"]) (auto simp: advances_def after_owes l_defs)
  next
    case (w_set_lost i key rd data err)
    then show ?thesis
      by (intro exI [of _ i] exI [of _ "fst (w_catch key err)"]) (auto simp: advances_def after_owes l_defs)
  next
    case (w_call_fails i key err)
    then show ?thesis
      by (intro exI [of _ i] exI [of _ "fst (w_catch key err)"]) (auto simp: advances_def after_owes l_defs)
  next
    case (w_drop i)
    then show ?thesis by (intro exI [of _ i] exI [of _ WGone]) (auto simp: advances_def l_defs)
  qed (use same in simp_all)
qed

text \<open>Counting the tasks at a place.\<close>

definition at_place :: "('p \<Rightarrow> bool) \<Rightarrow> (nat \<Rightarrow> 'p) \<Rightarrow> nat set" where
  "at_place P f = {i. P (f i)}"

lemma at_place_upd:
  "finite (at_place P f) \<Longrightarrow> finite (at_place P (f(i := p))) \<and>
     card (at_place P (f(i := p))) + (if P (f i) then 1 else 0) = card (at_place P f) + (if P p then 1 else 0)"
proof -
  assume f: "finite (at_place P f)"
  have e: "at_place P (f(i := p)) = (if P p then insert i (at_place P f) else at_place P f - {i})"
    by (auto simp: at_place_def)
  have m: "i \<in> at_place P f \<longleftrightarrow> P (f i)" by (simp add: at_place_def)
  show ?thesis
  proof (cases "P (f i)")
    case True
    then have "0 < card (at_place P f)" using f m by (auto simp: card_gt_0_iff)
    with True f m show ?thesis by (simp add: e insert_absorb)
  next
    case False
    with f m show ?thesis by (simp add: e)
  qed
qed

definition accounted :: "string \<Rightarrow> wlabel list \<Rightarrow> (nat \<Rightarrow> ('h, 'u) wpc) \<Rightarrow> bool" where
  "accounted k tr ts \<longleftrightarrow>
     finite (at_place (owes k) ts) \<and> times (l_fetched k) tr + card (at_place (owes k) ts) \<le> times (l_granted k) tr \<and>
     finite (at_place (waits k) ts) \<and> times (l_answered k) tr + card (at_place (waits k) ts) \<le> times (l_fetched k) tr"

lemma accounted_step:
  assumes "accounted k tr ts" and "advances k (ts i) l p"
  shows "accounted k (tr @ [l]) (ts(i := p))"
proof -
  note a = assms(1) [unfolded accounted_def] and b = assms(2) [unfolded advances_def]
  from a at_place_upd [of "owes k" ts i p] at_place_upd [of "waits k" ts i p] b
  show ?thesis unfolding accounted_def
    by (cases "l_fetched k l"; cases "l_granted k l"; cases "l_answered k l"; cases "owes k p"; cases "waits k p";
        cases "owes k (ts i)"; cases "waits k (ts i)") simp_all
qed

lemma wrun_accounted:
  "wrun L E s0 tr s \<Longrightarrow> wtasks s0 = (\<lambda>_. WIdle) \<Longrightarrow> accounted k tr (wtasks s)"
proof (induction rule: wrun.induct)
  case wrun_start
  then show ?case by (simp add: accounted_def at_place_def)
next
  case (wrun_step tr s l s')
  from wstep_advances [OF wrun_step.hyps(2)] obtain i p where
    "wtasks s' = (wtasks s)(i := p)" "advances k (wtasks s i) l p" by blast
  with accounted_step [OF wrun_step.IH [OF wrun_step.prems]] show ?case by (simp only:)
qed

lemma wrun_fetches:
  assumes "wrun L E s0 tr s" and "wtasks s0 = (\<lambda>_. WIdle)" and "\<forall>k. object_ok (objects s0 k)"
  shows "times (l_fetched k) tr \<le> 1 + times (l_removed k) tr"
    and "times (l_answered k) tr \<le> 1 + times (l_removed k) tr"
proof -
  have "cell.held (objects s k) \<le> 1" by (simp add: cell.held_def)
  then show "times (l_fetched k) tr \<le> 1 + times (l_removed k) tr"
    and "times (l_answered k) tr \<le> 1 + times (l_removed k) tr"
    using wrun_grants [OF assms(1,3), of k] wrun_accounted [OF assms(1,2), of k] by (simp_all add: accounted_def)
qed

end
