(* ===== verification/Worker_Properties.thy ===== *)
theory Worker_Properties
  imports Worker_System
begin

text \<open>
  The properties of the Cloudflare worker (\<open>src/idempotent-proxy-cf-worker\<close>), and the instance of its
  libraries on which the witnesses run it.
\<close>

section \<open>Where the answers come from\<close>

definition rd_codec_documented :: "('h, 'j) fetch_lib \<Rightarrow> bool" where
  "rd_codec_documented F \<longleftrightarrow> (\<forall>rd data. rd_encode F rd = Ok data \<longrightarrow> rd_decode F data = Ok rd)"

lemma fromBytes_toBytes: "rd_codec_documented F \<Longrightarrow> toBytes F rd = Ok data \<Longrightarrow> fromBytes F data = Ok rd"
  by (cases rd) (simp add: rd_codec_documented_def toBytes_def fromBytes_def js_response_new_def)

definition answered :: "wlabel list \<Rightarrow> string \<Rightarrow> js_response \<Rightarrow> bool" where
  "answered tr k rd \<longleftrightarrow> (\<exists>j. WAnswered j k rd \<in> set tr)"

lemma answered_more: "answered tr k rd \<Longrightarrow> answered (tr @ xs) k rd"
  by (auto simp: answered_def)

fun task_from :: "('h, 'j) fetch_lib \<Rightarrow> wlabel list \<Rightarrow> ('h, 'u) wpc \<Rightarrow> bool" where
  "task_from F tr (WSetting key rd data) = (answered tr key rd \<and> toBytes F rd = Ok data)"
| "task_from F tr (WFinished x (CachedReply r)) = (\<exists>k rd. x = Some k \<and> answered tr k rd \<and> toResponse F rd = Ok r)"
| "task_from F tr p = True"

definition object_from :: "('h, 'j) fetch_lib \<Rightarrow> wlabel list \<Rightarrow> string \<Rightarrow> cacher_object \<Rightarrow> bool" where
  "object_from F tr k ob \<longleftrightarrow> (\<forall>v. stored_v ob = Some v \<longrightarrow> (\<exists>rd. answered tr k rd \<and> toBytes F rd = Ok v))"

definition sys_from :: "('h, 'j) fetch_lib \<Rightarrow> wlabel list \<Rightarrow> ('h, 'u) wsys \<Rightarrow> bool" where
  "sys_from F tr s \<longleftrightarrow> (\<forall>i. task_from F tr (wtasks s i)) \<and> (\<forall>k. object_from F tr k (objects s k))"

lemma task_from_more: "task_from F tr p \<Longrightarrow> task_from F (tr @ xs) p"
proof (cases p)
  case (WFinished x r)
  then show "task_from F tr p \<Longrightarrow> ?thesis" by (cases r) (auto intro: answered_more)
qed (auto intro: answered_more)

lemma object_from_more: "object_from F tr k ob \<Longrightarrow> object_from F (tr @ xs) k ob"
  by (auto simp: object_from_def dest: answered_more)

lemma object_from_kept:
  "object_from F tr k ob \<Longrightarrow> object_from F tr k (snd (do_obtain ob))"
  "object_from F tr k (do_del ob)" "object_from F tr k (do_alarm ob)"
  "object_from F tr k ob \<Longrightarrow> object_from F tr k (do_construct t now ob)"
  by (simp_all add: object_from_def object_defs)

lemma sys_from_put:
  "sys_from F tr s \<Longrightarrow> task_from F (tr @ [l]) (fst x) \<Longrightarrow> sys_from F (tr @ [l]) (w_put i key x s)"
  by (auto simp: sys_from_def intro: task_from_more object_from_more)

lemma sys_from_object:
  "sys_from F tr s \<Longrightarrow> object_from F tr key ob \<Longrightarrow> sys_from F tr (w_object key ob s)"
  by (auto simp: sys_from_def)

lemma task_from_after:
  "task_from F tr (fst (w_catch key err))" "task_from F tr (fst (w_after_obtain L E req url key lock))"
  by (auto simp: w_catch_def w_after_obtain_def caught_def split: outcome.splits)

lemma task_from_poll:
  assumes "rd_codec_documented (flib L)" and "object_from (flib L) tr key ob"
  shows "task_from (flib L) tr (fst (w_after_poll L key n (do_get ob)))"
proof -
  have "\<exists>k rd. Some key = Some k \<and> answered tr k rd \<and> toResponse (flib L) rd = Ok r"
    if "do_get ob = Ok (Some data)" "and_then (fromBytes (flib L) data) (toResponse (flib L)) = Ok r" for data r
  proof -
    from that(1) have "stored_v ob = Some data" by (auto simp: do_get_def split: if_splits)
    with assms(2) obtain rd where "answered tr key rd" "toBytes (flib L) rd = Ok data"
      by (auto simp: object_from_def)
    with that(2) fromBytes_toBytes [OF assms(1)] show ?thesis by auto
  qed
  then show ?thesis
    by (auto simp: w_after_poll_def caught_def w_catch_def split: outcome.splits option.splits)
qed

lemma task_from_answer:
  "task_from (flib L) (tr @ [answer_label i key (w_after_answer L req key a)]) (fst (w_after_answer L req key a))"
  by (auto simp: w_after_answer_def caught_def w_catch_def del_too_def answer_label_def answered_def keep_answer_def
      split: outcome.splits prod.splits if_splits)

lemma task_from_set:
  "answered tr key rd \<Longrightarrow> task_from (flib L) tr (fst (w_after_set L key rd))"
  by (auto simp: w_after_set_def caught_def w_catch_def split: outcome.splits)

lemma outcome_Err:
  "and_then r f = Err e \<longleftrightarrow> r = Err e \<or> (\<exists>x. r = Ok x \<and> f x = Err e)"
  "map_err g t = Err e \<longleftrightarrow> (\<exists>x. t = Err x \<and> e = g x)" "uncaught u \<noteq> Err e"
  by ((cases r; simp), (cases t; auto), (cases u; simp))

lemma worker_admit_plain: "worker_admit L E req now = Err r \<Longrightarrow> \<exists>n t. r = PlainReply n t"
  by (auto simp: worker_admit_def worker_agent_def worker_url_def Let_def outcome_Err split: if_splits)

lemma w_begin_from: "task_from F tr (w_begin L E req now)"
  using worker_admit_plain [of L E req now]
  by (auto simp: w_begin_def split: outcome.splits)

lemma wstep_from:
  assumes C: "rd_codec_documented (flib L)" and "wstep L E s l s'" and S: "sys_from (flib L) tr s"
  shows "sys_from (flib L) (tr @ [l]) s'"
proof -
  have O: "object_from (flib L) tr k (objects s k)" and T: "task_from (flib L) tr (wtasks s i)" for k i
    using S by (simp_all add: sys_from_def)
  have O': "object_from (flib L) (tr @ xs) k (objects s k)" for k xs
    using O by (rule object_from_more)
  have more: "sys_from (flib L) (tr @ xs) s" for xs
    using S by (auto simp: sys_from_def intro: task_from_more object_from_more)
  have set: "object_from (flib L) tr key (do_set t now data (objects s key))"
    if "wtasks s i = WSetting key rd data" for i key rd data t now
    using T [of i] that by (auto simp: object_from_def do_set_def)
  from assms(2) show ?thesis
  proof (cases rule: wstep.cases)
    case (w_arrive i req)
    with more w_begin_from show ?thesis by (auto simp: sys_from_def)
  next
    case (w_obtain i req url key lock ob)
    have "object_from (flib L) tr key ob" using object_from_kept(1) [OF O, of key] w_obtain(4) by simp
    with w_obtain show ?thesis by (auto intro!: sys_from_put sys_from_object S task_from_after)
  next
    case (w_obtain_lost i req url key lock ob err)
    have "object_from (flib L) tr key ob" using object_from_kept(1) [OF O, of key] w_obtain_lost(4) by simp
    with w_obtain_lost show ?thesis by (auto intro!: sys_from_put sys_from_object S task_from_after)
  next
    case (w_poll i key n)
    with O' show ?thesis by (auto intro!: sys_from_put S task_from_poll [OF C])
  next
    case (w_answer i req key answer)
    then show ?thesis by (auto intro!: sys_from_put S task_from_answer)
  next
    case (w_set i key rd data)
    have "answered (tr @ [l]) key rd" using T [of i] w_set(3) by (auto intro: answered_more)
    with w_set set [OF w_set(3)] show ?thesis by (auto intro!: sys_from_put sys_from_object S task_from_set)
  next
    case (w_set_lost i key rd data err)
    with set [OF w_set_lost(3)] show ?thesis by (auto intro!: sys_from_put sys_from_object S task_from_after)
  next
    case (w_del key)
    with more [of "[l]"] object_from_kept(2) show ?thesis by (auto simp: sys_from_def)
  next
    case (w_alarm key t)
    with more [of "[l]"] object_from_kept(3) show ?thesis by (auto simp: sys_from_def)
  next
    case (w_evict key)
    with more [of "[l]"] object_from_kept(4) [OF O'] show ?thesis by (auto simp: sys_from_def)
  next
    case (w_drop i)
    with more [of "[l]"] show ?thesis by (auto simp: sys_from_def)
  qed (use more [of "[l]"] in \<open>auto simp: sys_from_def intro!: sys_from_put S task_from_after\<close>)
qed

lemma wrun_from:
  assumes "rd_codec_documented (flib L)"
  shows "wrun L E s0 tr s \<Longrightarrow> sys_from (flib L) [] s0 \<Longrightarrow> sys_from (flib L) tr s"
  by (induction rule: wrun.induct) (auto intro: wstep_from [OF assms])

lemma wsys_start_from: "sys_from F [] (wsys_start now)"
  by (simp add: sys_from_def wsys_start_def object_from_def fresh_object_def)

lemma wsys_start_tasks: "wtasks (wsys_start now) = (\<lambda>_. WIdle)"
  by (simp add: wsys_start_def)

section \<open>Pending locks\<close>

lemma expired_had_alarm: "wstep L E s (WExpired k) s' \<Longrightarrow> alarm_at (objects s k) \<noteq> None"
  by (erule wstep.cases) (auto simp: l_defs split: wpc.splits if_splits)

lemma wstep_pending:
  assumes "wstep L E s l s'" and ok: "object_ok (objects s k)" and p: "do_status (objects s k) = 1"
    and "l \<noteq> WDeleted k" and "\<not> l_stored k l"
  shows "objects s' k = objects s k \<and> \<not> l_granted k l"
proof -
  have "alarm_at (objects s k) = None" using ok p by (simp add: object_ok_def)
  with assms(1) have "l \<noteq> WExpired k" using expired_had_alarm by blast
  with assms(4) have r: "\<not> l_removed k l" by (simp add: l_removed_def)
  have ob: "do_obtain (objects s k) = (False, objects s k)" using p by (simp add: do_obtain_def)
  from wstep_object [OF assms(1), of k] show ?thesis
  proof (elim disjE conjE exE)
    fix e
    assume e: "objects s' k = apply_event e (objects s k)" "\<not> l_granted k l" "event_frees e \<longleftrightarrow> l_removed k l"
      "(\<exists>t n v. e = SetValue t n v) \<longleftrightarrow> l_stored k l"
    then have "e \<noteq> Del" "e \<noteq> Alarm" "\<forall>t n v. e \<noteq> SetValue t n v" using r assms(5) by auto
    from object_event_pending [OF ok p this] e(1,2) show ?thesis by simp
  qed (simp_all add: ob)
qed

lemma wrun_pending:
  assumes "\<forall>k. object_ok (objects s0 k)" and "do_status (objects s0 k) = 1"
  shows "wrun L E s0 tr s \<Longrightarrow> WDeleted k \<notin> set tr \<Longrightarrow> times (l_stored k) tr = 0 \<Longrightarrow>
     objects s k = objects s0 k \<and> times (l_granted k) tr = 0"
proof (induction rule: wrun.induct)
  case (wrun_step tr s l s')
  then have ih: "objects s k = objects s0 k" "times (l_granted k) tr = 0" and n: "\<not> l_stored k l" "l \<noteq> WDeleted k"
    by (auto split: if_splits)
  have ok: "object_ok (objects s k)" using wrun_objects_ok [OF wrun_step.hyps(1) assms(1)] ..
  have "do_status (objects s k) = 1" using ih(1) assms(2) by simp
  from wstep_pending [OF wrun_step.hyps(2) ok this n(2,1)] ih show ?case by simp
qed simp

section \<open>An instance\<close>

datatype js_json = JObj "(string \<times> js_json) list" | JText bytes

definition sample_js_rd :: js_response where
  "sample_js_rd = \<lparr>js_status = 200, js_headers = [], js_body = Some ''hi'', js_mime = ''text/plain''\<rparr>"

definition sample_fetch :: "((string \<times> string) list, js_json) fetch_lib" where
  "sample_fetch = \<lparr>headers_iter = (\<lambda>h. h), headers_get = map_of, headers_new = Ok,
     headers_append = (\<lambda>h k v. Ok (h @ [(k, v)])),
     headers_set = (\<lambda>h k v. Ok (filter (\<lambda>x. fst x \<noteq> k) h @ [(k, v)])),
     json_parse = (\<lambda>b. Ok (JObj [(''a'', JText b)])),
     has_own = (\<lambda>ob k. case ob of JObj xs \<Rightarrow> Ok (map_of xs k \<noteq> None) | JText t \<Rightarrow> Err ''TypeError''),
     get_own = (\<lambda>ob k. case ob of JObj xs \<Rightarrow> (case map_of xs k of Some v \<Rightarrow> v | None \<Rightarrow> JText []) | JText t \<Rightarrow> JText []),
     new_object = JObj [],
     set_own = (\<lambda>ob k v. case ob of JObj xs \<Rightarrow> JObj ((k, v) # xs) | JText t \<Rightarrow> JObj [(k, v)]),
     json_stringify = (\<lambda>ob. Ok ''{}''), cbor_decode = (\<lambda>b. Ok (JObj [])), cbor_encode = (\<lambda>ob. Ok ''m''),
     rd_encode = (\<lambda>rd. if rd = sample_js_rd then Ok ''rd'' else Err ''unknown''),
     rd_decode = (\<lambda>b. if b = ''rd'' then Ok sample_js_rd else Err ''unknown'')\<rparr>"

definition sample_wlib :: worker_lib where
  "sample_wlib = \<lparr>cborg_decode = (\<lambda>b. if b = ''t'' then Ok (js_token (Token 1000 ''bob'' ''km'')) else Err ''bad''),
     cborg_encode = (\<lambda>v. Ok ''m''), noble_sha3 = (\<lambda>b. b),
     noble_ed25519_sign = (\<lambda>m k. Ok (JsBytes (k @ m))), noble_ed25519_verify = (\<lambda>s m k. Ok (s = JsBytes (k @ m))),
     noble_secp256k1_sign = (\<lambda>m k. Ok (JsOther 0)), noble_secp256k1_verify = (\<lambda>s m k. Ok (s = JsBytes (k @ m))),
     other_text = (\<lambda>v. ''[object Object]''), other_index = (\<lambda>n i. JsUndefined),
     other_expired = (\<lambda>v now. Ok False)\<rparr>"

definition sample_ulib :: "string url_lib" where
  "sample_ulib = \<lparr>url_new = Ok, url_pathname = (\<lambda>u. ''/x''), url_set_port = (\<lambda>p u. u),
     url_set_protocol = (\<lambda>p u. u), url_set_host = (\<lambda>h u. h @ u)\<rparr>"

definition sample_wlibs :: "((string \<times> string) list, js_json, string) worker_libs" where
  "sample_wlibs = \<lparr>wlib = sample_wlib, flib = sample_fetch, ulib = sample_ulib\<rparr>"

definition sample_wenv :: worker_env where
  "sample_wenv = \<lparr>POLL_INTERVAL = 100, REQUEST_TIMEOUT = 20000, ALLOW_AGENTS = [], bindings = []\<rparr>"

definition sample_wreq :: "(string \<times> string) list worker_request" where
  "sample_wreq = \<lparr>wr_method = ''GET'', wr_url = ''/x'',
     wr_headers = [(''idempotency-key'', ''k''), (''x-forwarded-host'', ''h'')], wr_body = []\<rparr>"

definition sample_wreply :: "(string \<times> string) list js_reply" where
  "sample_wreply = \<lparr>rp_status = 200, rp_headers = [(''content-type'', ''text/plain'')], rp_body = Some ''hi''\<rparr>"

lemma sample_fetch_documented:
  "rd_codec_documented sample_fetch" "objects_documented sample_fetch" "appends_documented sample_fetch"
  by (auto simp: rd_codec_documented_def objects_documented_def appends_documented_def sample_fetch_def
      split: js_json.splits if_splits)

abbreviation wkey :: string where
  "wkey \<equiv> ''ANON:GET:k''"

abbreviation wfr :: "((string \<times> string) list, string) fetch_request" where
  "wfr \<equiv> \<lparr>fr_url = ''h/x'', fr_method = ''GET'', fr_headers = [], fr_body = []\<rparr>"

lemma sample_w_begin: "w_begin sample_wlibs sample_wenv sample_wreq now = WObtaining sample_wreq ''h/x'' wkey"
  by (simp add: w_begin_def worker_admit_def worker_agent_def worker_url_def sample_wlibs_def sample_wenv_def
      sample_wreq_def sample_fetch_def sample_ulib_def parsePubkeys_def header_or_empty_def worker_key_def
      HEADER_X_FORWARDED_HOST_def HEADER_IDEMPOTENCY_KEY_def starts_with_def Let_def)

lemma sample_w_obtained:
  "w_after_obtain sample_wlibs sample_wenv sample_wreq ''h/x'' wkey True = (WFetching sample_wreq wfr wkey, 0)"
  "w_after_obtain sample_wlibs sample_wenv sample_wreq ''h/x'' wkey False = (WPolling wkey (Some 200), 0)"
  by (simp_all add: w_after_obtain_def caught_def proxyRequestHeaders_def sample_wlibs_def sample_fetch_def
      sample_wreq_def sample_wenv_def filterHeaders_def poll_counter_def)

definition sample_wanswer :: "(string \<times> string) list fetch_answer" where
  "sample_wanswer = \<lparr>fa_status = 200, fa_headers = [(''content-type'', ''text/plain'')], fa_bytes = Ok ''hi''\<rparr>"

lemma sample_w_answered:
  "w_after_answer sample_wlibs sample_wreq wkey (Ok sample_wanswer) = (WSetting wkey sample_js_rd ''rd'', 0)"
proof -
  have f: "js_filtering [] = []" by (simp add: js_filtering_def js_trim_def)
  have "keep_answer sample_wlibs sample_wreq sample_wanswer = Ok (sample_js_rd, ''rd'')"
    by (simp add: keep_answer_def sample_wanswer_def setBody_def setHeaders_def js_lower_def f js_take_header_def
        js_response_new_def sample_wlibs_def sample_wreq_def header_or_empty_def toBytes_def sample_fetch_def
        HEADER_RESPONSE_HEADERS_def HEADER_X_JSON_MASK_def sample_js_rd_def)
  then show ?thesis by (simp add: w_after_answer_def caught_def sample_wanswer_def)
qed

lemma sample_w_reply: "toResponse sample_fetch sample_js_rd = Ok sample_wreply"
  by (simp add: toResponse_def sample_fetch_def sample_js_rd_def sample_wreply_def)

lemma sample_w_set: "w_after_set sample_wlibs wkey sample_js_rd = (WFinished (Some wkey) (CachedReply sample_wreply), 0)"
  by (simp add: w_after_set_def caught_def sample_w_reply sample_wlibs_def)

lemma sample_w_polled:
  "w_after_poll sample_wlibs wkey n (Ok (Some ''rd'')) = (WFinished (Some wkey) (CachedReply sample_wreply), 0)"
  by (simp add: w_after_poll_def caught_def sample_w_reply sample_wlibs_def fromBytes_def sample_fetch_def
      sample_js_rd_def js_response_new_def sample_wreply_def toResponse_def)

text \<open>Two requests with one key: the first is forwarded, the second gets its response from the object.\<close>

definition w_at :: "cacher_object \<Rightarrow> ((string \<times> string) list, string) wpc \<Rightarrow> ((string \<times> string) list, string) wpc
    \<Rightarrow> ((string \<times> string) list, string) wsys" where
  "w_at ob p q = \<lparr>objects = (\<lambda>_. fresh_object)(wkey := ob), wclock = 1000, wtasks = (\<lambda>_. WIdle)(0 := p, 1 := q), in_flight = []\<rparr>"

lemma w_at_simps [simp]:
  "objects (w_at ob p q) wkey = ob" "wtasks (w_at ob p q) 0 = p" "wtasks (w_at ob p q) (Suc 0) = q"
  "wclock (w_at ob p q) = 1000"
  "w_put 0 wkey (p', 0) (w_at ob p q) = w_at ob p' q" "w_put (Suc 0) wkey (p', 0) (w_at ob p q) = w_at ob p p'"
  "w_object wkey ob' (w_at ob p q) = w_at ob' p q"
  by (auto simp: w_at_def w_put_def w_object_def fun_upd_twist)

lemma w_at_start: "w_at fresh_object WIdle WIdle = wsys_start 1000"
  by (auto simp: w_at_def wsys_start_def)

definition sample_ob1 :: cacher_object where
  "sample_ob1 = fresh_object\<lparr>do_status := 1, stored_s := Some 1\<rparr>"

definition sample_ob2 :: cacher_object where
  "sample_ob2 = do_set 20000 1000 ''rd'' sample_ob1"

definition sample_wtrace :: "wlabel list" where
  "sample_wtrace = [WInternal, WGranted 0 wkey, WFetched 0 wkey, WAnswered 0 wkey sample_js_rd, WStored 0 wkey,
     WInternal, WRefused 1 wkey, WInternal]"

abbreviation wdone :: "((string \<times> string) list, string) wpc" where
  "wdone \<equiv> WFinished (Some wkey) (CachedReply sample_wreply)"

lemma sample_wrun: "wrun sample_wlibs sample_wenv (wsys_start 1000) sample_wtrace (w_at sample_ob2 wdone wdone)"
proof -
  let ?L = sample_wlibs and ?E = sample_wenv
  let ?a = "WObtaining sample_wreq ''h/x'' wkey" and ?b = "WFetching sample_wreq wfr wkey" and ?c = "WWaiting sample_wreq wkey"
    and ?d = "WSetting wkey sample_js_rd ''rd''"
  have o: "do_obtain fresh_object = (True, sample_ob1)" "do_obtain sample_ob2 = (False, sample_ob2)"
    by (simp_all add: do_obtain_def sample_ob1_def sample_ob2_def do_set_def fresh_object_def)
  have g: "do_get sample_ob2 = Ok (Some ''rd'')" by (simp add: do_get_def sample_ob2_def do_set_def)
  have s1: "wstep ?L ?E (w_at fresh_object WIdle WIdle) WInternal (w_at fresh_object ?a WIdle)"
    using w_arrive [of "w_at fresh_object WIdle WIdle" 0 ?L ?E sample_wreq]
    by (simp add: sample_w_begin) (simp add: w_at_def fun_upd_twist)
  have s2: "wstep ?L ?E (w_at fresh_object ?a WIdle) (WGranted 0 wkey) (w_at sample_ob1 ?b WIdle)"
    using w_obtain [of "w_at fresh_object ?a WIdle" 0 sample_wreq "''h/x''" wkey True sample_ob1 ?L ?E]
    by (simp add: o sample_w_obtained obtain_label_def)
  have s3: "wstep ?L ?E (w_at sample_ob1 ?b WIdle) (WFetched 0 wkey) (w_at sample_ob1 ?c WIdle)"
    using w_fetch [of "w_at sample_ob1 ?b WIdle" 0 sample_wreq wfr wkey ?L ?E] by simp
  have s4: "wstep ?L ?E (w_at sample_ob1 ?c WIdle) (WAnswered 0 wkey sample_js_rd) (w_at sample_ob1 ?d WIdle)"
    using w_answer [of "w_at sample_ob1 ?c WIdle" 0 sample_wreq wkey ?L ?E "Ok sample_wanswer"]
    by (simp add: sample_w_answered answer_label_def)
  have s5: "wstep ?L ?E (w_at sample_ob1 ?d WIdle) (WStored 0 wkey) (w_at sample_ob2 wdone WIdle)"
    using w_set [of "w_at sample_ob1 ?d WIdle" 0 wkey sample_js_rd "''rd''" ?L ?E]
    by (simp add: sample_w_set sample_wenv_def sample_ob2_def)
  have s6: "wstep ?L ?E (w_at sample_ob2 wdone WIdle) WInternal (w_at sample_ob2 wdone ?a)"
    using w_arrive [of "w_at sample_ob2 wdone WIdle" "Suc 0" ?L ?E sample_wreq]
    by (simp add: sample_w_begin) (simp add: w_at_def)
  have s7: "wstep ?L ?E (w_at sample_ob2 wdone ?a) (WRefused 1 wkey) (w_at sample_ob2 wdone (WPolling wkey (Some 200)))"
    using w_obtain [of "w_at sample_ob2 wdone ?a" "Suc 0" sample_wreq "''h/x''" wkey False sample_ob2 ?L ?E]
    by (simp add: o sample_w_obtained obtain_label_def)
  have s8: "wstep ?L ?E (w_at sample_ob2 wdone (WPolling wkey (Some 200))) WInternal (w_at sample_ob2 wdone wdone)"
    using w_poll [of "w_at sample_ob2 wdone (WPolling wkey (Some 200))" "Suc 0" wkey "Some 200" ?L ?E]
    by (simp add: g sample_w_polled)
  note r = wrun_step [OF wrun_start s1]
  note r = wrun_step [OF r s2]
  note r = wrun_step [OF r s3]
  note r = wrun_step [OF r s4]
  note r = wrun_step [OF r s5]
  note r = wrun_step [OF r s6]
  note r = wrun_step [OF r s7]
  note r = wrun_step [OF r s8]
  from r show ?thesis by (simp add: w_at_start sample_wtrace_def)
qed

lemma sample_wtrace_facts:
  "times (l_removed wkey) sample_wtrace = 0" "times (l_fetched wkey) sample_wtrace = 1"
  by (simp_all add: sample_wtrace_def times_def l_defs)

text \<open>A server's libraries that agree with the worker's on the sample token.\<close>

definition sample_wtoken :: token where
  "sample_wtoken = Token 1000 ''bob'' ''km''"

definition sample_server_token :: token_lib where
  "sample_server_token = \<lparr>cbor_pair = (\<lambda>p. Ok ''m''), cbor_token = (\<lambda>t. Ok ''t''),
     token_from_reader = (\<lambda>b. if b = ''t'' then Some sample_wtoken else None), sha3_digest = (\<lambda>b. b)\<rparr>"

definition sample_server_sign :: "(bytes, bytes, bytes) sign_lib" where
  "sample_server_sign = \<lparr>sign_message = (\<lambda>k m. Ok (k @ m)), sig_to_vec = (\<lambda>s. s), sig_parse = Some,
     sig_verify = (\<lambda>k d s. s = k @ d), verifying_key = (\<lambda>k. k)\<rparr>"

lemma sample_agree: "ecdsa_agree sample_wlib sample_server_token sample_server_sign (\<lambda>k. k) [''k''] ''t'' sample_wtoken"
  by (simp add: ecdsa_agree_def sample_wlib_def sample_server_token_def sample_server_sign_def sample_wtoken_def
      sha3_256_def)

section \<open>Properties\<close>

text \<open>
  C10: The worker is idempotent up to its removals: however requests, lost replies, evictions, alarms and
\<open>del\<close>s interleave, for each key at most one request is fetched from upstream, and one more for every time
the object of the key was removed (by a \<open>del\<close> or by its alarm).
\<close>

theorem worker_fetches_once_per_removal:
  assumes "wrun L E s0 tr s" and "wtasks s0 = (\<lambda>_. WIdle)" and "\<forall>k. object_ok (objects s0 k)"
  shows "times (l_fetched k) tr \<le> 1 + times (l_removed k) tr"
  by (rule wrun_fetches(1) [OF assms])

theorem worker_fetches_once_per_removal_witness:
  "wrun sample_wlibs sample_wenv (wsys_start 1000) sample_wtrace (w_at sample_ob2 wdone wdone) \<and>
     times (l_fetched wkey) sample_wtrace \<le> 1"
  using worker_fetches_once_per_removal [OF sample_wrun wsys_start_tasks, of wkey] sample_wrun
  by (simp add: wsys_start_ok sample_wtrace_facts)

text \<open>
  C12: No response of the worker is invented or mixed up between keys: what a client gets from a kept response is
\<open>toResponse\<close> of a response that some request got from upstream for the same key.
\<close>

theorem worker_answers_come_from_upstream:
  assumes "rd_codec_documented (flib L)" and "wrun L E (wsys_start now) tr s"
    and "wtasks s i = WFinished x (CachedReply r)"
  shows "\<exists>k j rd. x = Some k \<and> WAnswered j k rd \<in> set tr \<and> toResponse (flib L) rd = Ok r"
proof -
  have "task_from (flib L) tr (wtasks s i)"
    using wrun_from [OF assms(1,2) wsys_start_from] by (simp add: sys_from_def)
  with assms(3) show ?thesis by (auto simp: answered_def)
qed

theorem worker_answers_come_from_upstream_witness:
  "\<exists>k j rd. Some wkey = Some k \<and> WAnswered j k rd \<in> set sample_wtrace \<and> toResponse sample_fetch rd = Ok sample_wreply"
proof -
  have C: "rd_codec_documented (flib sample_wlibs)" by (simp add: sample_wlibs_def sample_fetch_documented)
  have t: "wtasks (w_at sample_ob2 wdone wdone) (Suc 0) = wdone" by simp
  from worker_answers_come_from_upstream [OF C sample_wrun t] show ?thesis by (simp add: sample_wlibs_def)
qed

text \<open>
  C11: All clients of the worker with one key agree while its object is not removed: any two that are answered
with a kept response get the same one.
\<close>

theorem worker_clients_agree:
  assumes "rd_codec_documented (flib L)" and "wrun L E (wsys_start now) tr s" and "times (l_removed k) tr = 0"
    and "wtasks s i = WFinished (Some k) (CachedReply r)" and "wtasks s j = WFinished (Some k) (CachedReply r')"
  shows "r = r'"
proof -
  have "task_from (flib L) tr (wtasks s i)" "task_from (flib L) tr (wtasks s j)"
    using wrun_from [OF assms(1,2) wsys_start_from] by (simp_all add: sys_from_def)
  with assms(4,5) obtain i' j' rd rd' where
    a: "WAnswered i' k rd \<in> set tr" "WAnswered j' k rd' \<in> set tr" and r: "toResponse (flib L) rd = Ok r" "toResponse (flib L) rd' = Ok r'"
    by (auto simp: answered_def)
  have "times (l_answered k) tr \<le> 1"
    using wrun_fetches(2) [OF assms(2) wsys_start_tasks, of k] assms(3) by (simp add: wsys_start_ok)
  with times_two [OF a, of "l_answered k"] have "WAnswered i' k rd = WAnswered j' k rd'"
    by (fastforce simp: l_answered_def)
  with r show ?thesis by simp
qed

theorem worker_clients_agree_witness:
  "\<exists>r. wtasks (w_at sample_ob2 wdone wdone) 0 = WFinished (Some wkey) (CachedReply r) \<and>
     wtasks (w_at sample_ob2 wdone wdone) 1 = WFinished (Some wkey) (CachedReply r)"
proof -
  have C: "rd_codec_documented (flib sample_wlibs)" by (simp add: sample_wlibs_def sample_fetch_documented)
  obtain r r' where t: "wtasks (w_at sample_ob2 wdone wdone) 0 = WFinished (Some wkey) (CachedReply r)"
    "wtasks (w_at sample_ob2 wdone wdone) 1 = WFinished (Some wkey) (CachedReply r')" by simp
  have "r = r'" by (rule worker_clients_agree [OF C sample_wrun sample_wtrace_facts(1) t])
  with t show ?thesis by blast
qed

text \<open>
  A Durable Object of the worker is always consistent, and an eviction loses nothing: in every run the
status in memory is the stored one, a pending lock has neither a value nor an alarm, a value has both, and
constructing the object again gives the same object.
\<close>

theorem worker_objects_survive_eviction:
  assumes "wrun L E s0 tr s" and "\<forall>k. object_ok (objects s0 k)"
  shows "object_ok (objects s k) \<and> do_construct (REQUEST_TIMEOUT E) t (objects s k) = objects s k"
  using wrun_objects_ok [OF assms] evicted_same by blast

theorem worker_objects_survive_eviction_witness:
  "object_ok sample_ob2 \<and> do_construct 20000 1000 sample_ob2 = sample_ob2"
  using worker_objects_survive_eviction [OF sample_wrun, of wkey 1000] by (simp add: wsys_start_ok sample_wenv_def)

text \<open>
  C15: A pending lock of the worker never expires: once a request has the key and neither a \<open>set\<close> nor a \<open>del\<close>
reaches the object (the leader was dropped, say), no request gets the key again, however much time passes.
\<close>

theorem worker_pending_lock_never_expires:
  assumes "wrun L E s0 tr s" and "\<forall>k. object_ok (objects s0 k)" and "do_status (objects s0 k) = 1"
    and "WDeleted k \<notin> set tr" and "times (l_stored k) tr = 0"
  shows "objects s k = objects s0 k \<and> (\<forall>i. WGranted i k \<notin> set tr)"
  using wrun_pending [OF assms(2,3,1,4,5)] by (auto simp: times_0 l_granted_def)

theorem worker_pending_lock_never_expires_witness:
  "\<exists>s. wrun sample_wlibs sample_wenv (w_at sample_ob1 WGone (WObtaining sample_wreq ''h/x'' wkey))
      [WInternal, WRefused 1 wkey] s \<and> wclock s = 10 ^ 12 \<and> objects s wkey = sample_ob1"
proof -
  let ?s = "w_at sample_ob1 WGone (WObtaining sample_wreq ''h/x'' wkey)"
  let ?t = "?s\<lparr>wclock := 10 ^ 12\<rparr>"
  let ?u = "w_put 1 wkey (w_after_obtain sample_wlibs sample_wenv sample_wreq ''h/x'' wkey False) (w_object wkey sample_ob1 ?t)"
  have o: "do_obtain sample_ob1 = (False, sample_ob1)" by (simp add: do_obtain_def sample_ob1_def)
  have 1: "wstep sample_wlibs sample_wenv ?s WInternal ?t" using w_tick [of ?s "10 ^ 12"] by simp
  have 2: "wstep sample_wlibs sample_wenv ?t (WRefused 1 wkey) ?u"
    using w_obtain [of ?t 1 sample_wreq "''h/x''" wkey False sample_ob1 sample_wlibs sample_wenv]
    by (simp add: o obtain_label_def)
  from wrun_step [OF wrun_step [OF wrun_start 1] 2]
  have r: "wrun sample_wlibs sample_wenv ?s [WInternal, WRefused 1 wkey] ?u" by simp
  have ok: "\<forall>k. object_ok (objects ?s k)"
    by (simp add: w_at_def fresh_object_ok) (simp add: sample_ob1_def object_ok_def fresh_object_def)
  have "do_status (objects ?s wkey) = 1" by (simp add: sample_ob1_def)
  from worker_pending_lock_never_expires [OF r ok this] have "objects ?u wkey = sample_ob1"
    by (simp add: times_def l_defs)
  moreover have "wclock ?u = 10 ^ 12" by (simp add: w_put_def w_object_def)
  ultimately show ?thesis using r by blast
qed

text \<open>
  A follower that gives up frees the leader's lock: when the rounds of polling of a request are used up, its
\<open>catch\<close> calls \<open>del\<close>; once that is delivered the key is free, so that the next request is forwarded too,
while the leader and all other requests are where they were.
\<close>

theorem worker_follower_frees_the_lock:
  assumes "wtasks s i = WPolling k (Some 0)"
  shows "\<exists>s' s''. wstep L E s WInternal s' \<and> wstep L E s' (WDeleted k) s'' \<and> fst (do_obtain (objects s'' k)) \<and>
    (\<forall>j. j \<noteq> i \<longrightarrow> wtasks s'' j = wtasks s j) \<and> wclock s'' = wclock s"
proof -
  let ?s1 = "w_put i k (w_catch k ''Error: polling get cache timeout'') s"
  let ?s2 = "(w_object k (do_del (objects ?s1 k)) ?s1)\<lparr>in_flight := remove1 k (in_flight ?s1)\<rparr>"
  have a: "wstep L E s WInternal ?s1" by (rule w_timeout [OF assms])
  have b: "wstep L E ?s1 (WDeleted k) ?s2" by (rule w_del) (simp add: w_catch_def)
  have "fst (do_obtain (objects ?s2 k))" by (simp add: do_obtain_def do_del_def)
  with a b show ?thesis by (intro exI [of _ ?s1] exI [of _ ?s2]) simp
qed

theorem worker_follower_frees_the_lock_witness:
  "\<exists>s''. wrun sample_wlibs sample_wenv (w_at sample_ob1 (WWaiting sample_wreq wkey) (WPolling wkey (Some 0)))
      [WInternal, WDeleted wkey] s'' \<and>
     wtasks s'' 0 = WWaiting sample_wreq wkey \<and> fst (do_obtain (objects s'' wkey))"
proof -
  let ?s = "w_at sample_ob1 (WWaiting sample_wreq wkey) (WPolling wkey (Some 0))"
  have "wtasks ?s (Suc 0) = WPolling wkey (Some 0)" by simp
  from worker_follower_frees_the_lock [OF this, of sample_wlibs sample_wenv] obtain s' s'' where
    a: "wstep sample_wlibs sample_wenv ?s WInternal s'" and b: "wstep sample_wlibs sample_wenv s' (WDeleted wkey) s''"
    and o: "fst (do_obtain (objects s'' wkey))" and t: "\<forall>j. j \<noteq> Suc 0 \<longrightarrow> wtasks s'' j = wtasks ?s j" by blast
  from t have "wtasks s'' 0 = WWaiting sample_wreq wkey" by simp
  with wrun_step [OF wrun_step [OF wrun_start a] b] o show ?thesis by auto
qed

text \<open>
  C13: The worker and the server accept the same ECDSA tokens, but not equally long. On a token that the
libraries of both read alike, each accepts exactly what one of its keys has signed: the worker up to 10 seconds
past the expiry, to the millisecond; the server, which rounds the time down to seconds, up to the end of the
second that begins then.
\<close>

theorem worker_accepts_the_servers_tokens:
  assumes "ecdsa_agree W A E pk keys data t" and "now < 2 ^ 64"
  shows "(ecdsaVerify W keys data now = Ok (js_token t) \<longleftrightarrow>
      (\<exists>k\<in>set keys. ecdsa_authentic A E (pk k) t) \<and> now \<le> (unat (tok_expire t) + 10) * 1000) \<and>
    (ecdsa_verify A E (map pk keys) data (word_of_nat now) = Ok t \<longleftrightarrow>
      (\<exists>k\<in>set keys. ecdsa_authentic A E (pk k) t) \<and> now < (unat (tok_expire t) + 11) * 1000)"
  using ecdsaVerify_agrees [OF assms] by blast

theorem worker_accepts_the_servers_tokens_witness:
  "ecdsaVerify sample_wlib [''k''] ''t'' 1010000 = Ok (js_token sample_wtoken) \<and>
   ecdsaVerify sample_wlib [''k''] ''t'' 1010001 \<noteq> Ok (js_token sample_wtoken) \<and>
   ecdsa_verify sample_server_token sample_server_sign [''k''] ''t'' 1010999 = Ok sample_wtoken \<and>
   ecdsa_verify sample_server_token sample_server_sign [''k''] ''t'' 1011000 \<noteq> Ok sample_wtoken"
proof -
  have "ecdsa_authentic sample_server_token sample_server_sign ''k'' sample_wtoken"
    by (simp add: ecdsa_authentic_def sample_server_token_def sample_server_sign_def sample_wtoken_def sha3_256_def)
  with worker_accepts_the_servers_tokens [OF sample_agree, of 1010000] worker_accepts_the_servers_tokens [OF sample_agree, of 1010001]
    worker_accepts_the_servers_tokens [OF sample_agree, of 1010999] worker_accepts_the_servers_tokens [OF sample_agree, of 1011000]
  show ?thesis by (simp add: sample_wtoken_def)
qed

text \<open>
  A worker that is configured with Ed25519 keys only lets no request in: \<open>verifyToken\<close> hands the (empty) list
of ECDSA keys to \<open>ed25519Verify\<close>, so every token is refused.
\<close>

theorem ed25519_only_worker_refuses_everyone:
  assumes "parsePubkeys (bindings E) = Ok (pks, True)" and "pk_ecdsa pks = []"
  shows "worker_admit L E req now \<noteq> Ok x"
proof -
  have "ed25519Verify W [] data now \<noteq> Ok t" for W data t by (simp add: ed25519Verify_def)
  then have "verifyToken W pks token now \<noteq> Ok a" for W token a
    using assms(2) by (auto simp: verifyToken_def)
  then show ?thesis by (simp add: worker_admit_def worker_agent_def assms(1))
qed

theorem ed25519_only_worker_refuses_everyone_witness:
  "\<forall>x. worker_admit sample_wlibs (sample_wenv\<lparr>bindings := [(''ED25519_PUB_KEY_1'', JsString [])]\<rparr>) sample_wreq 1000 \<noteq> Ok x"
proof (rule allI, rule ed25519_only_worker_refuses_everyone)
  show "parsePubkeys (bindings (sample_wenv\<lparr>bindings := [(''ED25519_PUB_KEY_1'', JsString [])]\<rparr>)) =
    Ok (\<lparr>pk_ecdsa = [], pk_ed25519 = [[]]\<rparr>, True)"
    by (simp add: parsePubkeys_def starts_with_def base64ToBytes_def atob_def strip_padding_def)
qed simp

text \<open>
  C14: The worker keeps the headers the server keeps. For an upstream response whose headers are text and an
ASCII filter, \<open>setHeaders\<close> and the server's \<open>with_headers\<close> keep the same names: those in the filter, or all
without one, except the content type, the content length and the transfer encoding. Of a kept name the
server holds every value, and the worker the same values joined by commas into one (those of \<open>set-cookie\<close>
apart). With at most one content type both take it over.
\<close>

theorem worker_headers_are_the_servers:
  assumes "ascii f" and "parsed_headers F H raw headers hm"
    and "J = setHeaders F (js_response_new st) headers f" and "R = with_headers H (response_new (word_of_nat st)) hm f"
  shows "(\<forall>n. let vs = (if header_kept (split_filtering (to_ascii_lowercase f)) n then values_of n raw else [])
      in values_of n (js_headers J) = combined n vs \<and> mset (values_of n (rd_headers R)) = mset vs) \<and>
    (length (values_of ''content-type'' raw) \<le> 1 \<longrightarrow> js_mime J = rd_mime R)"
  using setHeaders_values [OF assms(1,2)] with_headers_values [OF assms(2)] headers_mime [OF assms(2)]
  by (simp add: assms(3,4) combined_def Let_def)

theorem worker_headers_are_the_servers_witness:
  "values_of ''vary'' (js_headers (setHeaders sample_fetch (js_response_new 200)
       [(''content-type'', ''a/b''), (''date'', ''d''), (''vary'', ''x, y'')] ''Vary'')) = [''x, y''] \<and>
   mset (values_of ''vary'' (rd_headers (with_headers list_http (response_new 200)
       [(''vary'', ''x''), (''content-type'', ''a/b''), (''vary'', ''y''), (''date'', ''d'')] ''Vary''))) = {#''x'', ''y''#}"
proof -
  let ?raw = "[(''vary'', ''x''), (''content-type'', ''a/b''), (''date'', ''d''), (''vary'', ''y'')]"
  let ?h = "[(''content-type'', ''a/b''), (''date'', ''d''), (''vary'', ''x, y'')]"
  let ?hm = "[(''vary'', ''x''), (''content-type'', ''a/b''), (''vary'', ''y''), (''date'', ''d'')]"
  have a: "ascii ''Vary''" by simp
  have p: "parsed_headers sample_fetch list_http ?raw ?h ?hm"
    by (auto simp: parsed_headers_def combined_def sample_fetch_def list_http_def)
  have k: "split_filtering (to_ascii_lowercase ''Vary'') = [''vary'']" by code_simp
  from worker_headers_are_the_servers [OF a p refl refl, of 200, THEN conjunct1, THEN spec, of "''vary''"]
  show ?thesis by (simp add: k header_kept_def combined_def Let_def)
qed

text \<open>
  The worker forwards the client's headers and nothing of its own: all but the seven in \<open>filterHeaders\<close>
(among them the idempotency key), each with its value, or for a value that begins with \<open>HEADER_\<close> with the
variable of that name, which is empty when there is none.
\<close>

theorem worker_forwards_the_clients_headers:
  assumes "appends_documented F" and "proxyRequestHeaders W F env headers = Ok sent"
    and "distinct (map fst (headers_iter F headers))"
  shows "set (headers_iter F sent) =
    (\<lambda>(k, v). (k, forwarded_value W env v)) ` {x \<in> set (headers_iter F headers). fst x \<notin> set filterHeaders}"
proof -
  from assms(2) obtain h where h: "headers_new F [] = Ok h" "copy_headers W F env (headers_iter F headers) h = Ok sent"
    by (auto simp: proxyRequestHeaders_def)
  have "headers_iter F h = []" using assms(1) h(1) by (simp add: appends_documented_def)
  with copy_headers_iter [OF assms(1) h(2) assms(3)] show ?thesis by simp
qed

theorem worker_forwards_the_clients_headers_witness:
  "set (headers_iter sample_fetch [(''accept'', ''*/*''), (''x-api-key'', ''s3'')]) = {(''accept'', ''*/*''), (''x-api-key'', ''s3'')}"
proof -
  let ?h = "[(''accept'', ''*/*''), (''host'', ''h''), (''x-api-key'', ''HEADER_A'')]"
  let ?env = "[(''HEADER_A'', JsString ''s3'')]"
  have p: "proxyRequestHeaders sample_wlib sample_fetch ?env ?h = Ok [(''accept'', ''*/*''), (''x-api-key'', ''s3'')]"
    by (simp add: proxyRequestHeaders_def sample_fetch_def filterHeaders_def starts_with_def getString_def)
  have d: "distinct (map fst (headers_iter sample_fetch ?h))" by (simp add: sample_fetch_def)
  have e: "set (headers_iter sample_fetch ?h) = set ?h" by (simp add: sample_fetch_def)
  have f: "{x \<in> set ?h. fst x \<notin> set filterHeaders} = {(''accept'', ''*/*''), (''x-api-key'', ''HEADER_A'')}"
    by (auto simp: filterHeaders_def)
  have v: "forwarded_value sample_wlib ?env ''*/*'' = ''*/*''" "forwarded_value sample_wlib ?env ''HEADER_A'' = ''s3''"
    by (simp_all add: forwarded_value_def starts_with_def getString_def)
  from worker_forwards_the_clients_headers [OF sample_fetch_documented(3) p d] show ?thesis
    unfolding e f by (simp add: v)
qed

text \<open>The status of the upstream is lost on the way: every kept response reaches its clients as a 200.\<close>

lemma worker_status_is_always_200:
  assumes "rd_codec_documented (flib L)" and "wrun L E (wsys_start now) tr s"
    and "wtasks s i = WFinished x (CachedReply r)"
  shows "rp_status r = 200"
proof -
  have "task_from (flib L) tr (wtasks s i)"
    using wrun_from [OF assms(1,2) wsys_start_from] by (simp add: sys_from_def)
  with assms(3) toResponse_status show ?thesis by auto
qed

text \<open>A variable \<open>URL_\<close> that is missing or not a URL is an exception outside the handler's \<open>try\<close>.\<close>

lemma bad_url_variable_is_uncaught:
  assumes "worker_agent L E req now = Ok agent" and "url_new (ulib L) (wr_url req) = Ok url"
    and "starts_with (url_pathname (ulib L) url) ''/URL_''"
    and "url_new (ulib L) (getString (wlib L) (bindings E) (drop 1 (url_pathname (ulib L) url))) = Err e"
  shows "w_begin L E req now = WFinished None (Uncaught e)"
proof -
  have "url_pathname (ulib L) url \<noteq> ''/''" using assms(3) by (auto simp: starts_with_def)
  with assms show ?thesis by (simp add: w_begin_def worker_admit_def worker_url_def)
qed

end
