(* ===== verification/Canister_Worker.thy ===== *)
theory Canister_Worker
  imports Canister_Server Worker_Properties
begin

text \<open>
  The canister and the Cloudflare worker together: a request that an agent of the canister builds, with the
  token the canister made for it, at the worker's access control. The canister encodes its tokens in the
  URL alphabet of base64 without padding, which is what \<open>bytesToBase64Url\<close> does. What is relied on of the
  libraries concerns only what the canister makes: a pair and a token of an integer and an ASCII name.
\<close>

section \<open>What is relied on\<close>

definition worker_tools_documented :: "token_tools \<Rightarrow> bool" where
  "worker_tools_documented T \<longleftrightarrow>
     (\<forall>b. tt_base64 T b = bytesToBase64Url b) \<and> (\<forall>b. tt_sha3 T b = sha3_256 (tt_tokens T) b)"

text \<open>
  \<open>cborg\<close> encodes a pair of a number below \<open>2 ^ 53\<close> and an ASCII text as \<open>ciborium\<close> does, it decodes the
  tokens \<open>ciborium\<close> encodes, and both libraries compute SHA3-256.
\<close>

definition cbor_compatible :: "worker_lib \<Rightarrow> token_lib \<Rightarrow> bool" where
  "cbor_compatible W A \<longleftrightarrow>
     (\<forall>e a m. ascii a \<longrightarrow> uint e < 2 ^ 53 \<longrightarrow> cbor_pair A (e, a) = Ok m \<longrightarrow>
        cborg_encode W (JsArray [JsNumber (uint e), JsString a]) = Ok m) \<and>
     (\<forall>e a s data. ascii a \<longrightarrow> uint e < 2 ^ 53 \<longrightarrow> cbor_token A (e, a, s) = Ok data \<longrightarrow>
        cborg_decode W data = Ok (js_token (Token e a s))) \<and>
     (\<forall>m. noble_sha3 W m = sha3_256 A m)"

text \<open>
  What the signing service signs verifies in the worker under the canister's public key, and the worker's
  other keys are well-formed: checking the signature under them does not throw.
\<close>

definition service_accepted :: "worker_lib \<Rightarrow> token_tools \<Rightarrow> signing_net \<Rightarrow> signer \<Rightarrow> bytes \<Rightarrow> bytes list \<Rightarrow> bool" where
  "service_accepted W T svc sg key keys \<longleftrightarrow>
     (\<forall>d s. sign_digest T svc sg d = Ok s \<longrightarrow>
        noble_secp256k1_verify W (JsBytes s) d key = Ok True \<and>
        (\<forall>k\<in>set keys. \<exists>ok. noble_secp256k1_verify W (JsBytes s) d k = Ok ok))"

text \<open>
  The request as the worker reads it: names are case-insensitive, and \<open>get\<close> returns the values of a name
  joined by commas. (A token has no surrounding white space that could be trimmed.)
\<close>

definition lower_headers :: "outcall_request \<Rightarrow> (string \<times> string) list" where
  "lower_headers oq = map (\<lambda>h. (to_ascii_lowercase (hd_name h), hd_value h)) (oq_headers oq)"

definition joined :: "string list \<Rightarrow> string option" where
  "joined vs = (if vs = [] then None else Some (comma_join vs))"

definition worker_presents :: "('h, 'j) fetch_lib \<Rightarrow> outcall_request \<Rightarrow> 'h worker_request \<Rightarrow> bool" where
  "worker_presents F oq req \<longleftrightarrow>
     headers_get F (wr_headers req) HEADER_PROXY_AUTHORIZATION = joined (values_of HEADER_PROXY_AUTHORIZATION (lower_headers oq))"

section \<open>The worker's access control\<close>

lemma lower_headers_push:
  "lower_headers (push_header n v oq) = lower_headers oq @ [(to_ascii_lowercase n, v)]"
  "lower_headers (oq\<lparr>oq_url := u\<rparr>) = lower_headers oq" "lower_headers (oq\<lparr>oq_transform := x\<rparr>) = lower_headers oq"
  by (simp_all add: lower_headers_def push_header_def)

lemma pushed_names:
  "to_ascii_lowercase ''proxy-authorization'' = ''proxy-authorization''"
  "to_ascii_lowercase ''response-headers'' = ''response-headers''"
  "to_ascii_lowercase ''x-forwarded-host'' = ''x-forwarded-host''"
  by code_simp+

lemma build_request_lower:
  assumes "build_request X a oq = Ok oq'" and "ag_proxy_token a = Some t"
  shows "values_of ''proxy-authorization'' (lower_headers oq') = values_of ''proxy-authorization'' (lower_headers oq) @ [''Bearer '' @ t]"
proof -
  from assms obtain q where q: "build_target X a oq = Ok q" and
    oq': "oq' = (push_header ''proxy-authorization'' (''Bearer '' @ t)
      (if \<not> has_header ''response-headers'' q then push_header ''response-headers'' ''date'' q else q))
      \<lparr>oq_transform := Some (''inner_transform_response'', [])\<rparr>"
    by (auto simp: build_request_def Let_def split: if_splits)
  from q have "values_of ''proxy-authorization'' (lower_headers q) = values_of ''proxy-authorization'' (lower_headers oq)"
    by (auto simp: build_target_def Let_def lower_headers_push pushed_names split: if_splits)
  then show ?thesis by (simp add: oq' lower_headers_push pushed_names)
qed

lemma no_client_token:
  "\<forall>h\<in>set (oq_headers oq). to_ascii_lowercase (hd_name h) \<noteq> ''proxy-authorization'' \<Longrightarrow>
     values_of ''proxy-authorization'' (lower_headers oq) = []"
  by (auto simp: values_of_def lower_headers_def filter_empty_conv)

text \<open>A request whose one token is \<open>t\<close> is let in exactly if the token is accepted.\<close>

lemma worker_agent_bearer:
  assumes "values_of ''proxy-authorization'' (lower_headers oq) = [''Bearer '' @ t]"
    and "worker_presents (flib L) oq req" and "base64ToBytes t = Ok data"
    and "parsePubkeys (bindings E) = Ok (pks, True)" and "pk_ecdsa pks \<noteq> []"
    and only: "\<And>v. ecdsaVerify (wlib L) (pk_ecdsa pks) data ms = Ok v \<Longrightarrow> v = js_token tk"
    and "ALLOW_AGENTS E = [] \<or> tok_agent tk \<in> set (ALLOW_AGENTS E)"
  shows "worker_agent L E req ms = Ok (JsString (tok_agent tk)) \<longleftrightarrow>
    ecdsaVerify (wlib L) (pk_ecdsa pks) data ms = Ok (js_token tk)"
proof -
  have h: "header_or_empty (flib L) (wr_headers req) HEADER_PROXY_AUTHORIZATION = ''Bearer '' @ t"
    using assms(1,2) by (simp add: worker_presents_def header_or_empty_def HEADER_PROXY_AUTHORIZATION_def joined_def)
  have d: "drop 7 (''Bearer '' @ t) = t" by simp
  have v: "verifyToken (wlib L) pks (''Bearer '' @ t) ms = and_then (ecdsaVerify (wlib L) (pk_ecdsa pks) data ms) (\<lambda>t. js_index (wlib L) t 1)"
    using assms(3,5) unfolding verifyToken_def d by (simp del: append.simps)
  have i: "js_index (wlib L) (js_token tk) 1 = Ok (JsString (tok_agent tk))" by (simp add: js_token_def)
  show ?thesis
  proof (cases "ecdsaVerify (wlib L) (pk_ecdsa pks) data ms")
    case (Ok v)
    with only v i have "verifyToken (wlib L) pks (''Bearer '' @ t) ms = Ok (JsString (tok_agent tk))" by simp
    with Ok only assms(4,7) show ?thesis by (auto simp: worker_agent_def h simp del: append.simps)
  next
    case (Err e)
    with v show ?thesis by (simp add: worker_agent_def h assms(4) del: append.simps)
  next
    case (Panic m)
    with v show ?thesis by (simp add: worker_agent_def h assms(4) del: append.simps)
  qed
qed

text \<open>Below this bound on the interval nothing wraps, and the expiry is an exact number in JavaScript.\<close>

lemma token_expiry:
  assumes "unat interval < 2 ^ 52"
  shows "unat (now div SECONDS + interval + 120 :: u64) = unat now div 10 ^ 9 + unat interval + 120"
    and "uint (now div SECONDS + interval + 120 :: u64) < 2 ^ 53"
proof -
  note s = seconds_less [of now]
  show e: "unat (now div SECONDS + interval + 120) = unat now div 10 ^ 9 + unat interval + 120"
    by (rule expiry_exact) (use assms in simp)
  have "unat (now div SECONDS + interval + 120) < 2 ^ 53" using assms s unfolding e by simp
  then have "int (unat (now div SECONDS + interval + 120)) < int (2 ^ 53)" by (simp only: of_nat_less_iff)
  then show "uint (now div SECONDS + interval + 120) < 2 ^ 53" by (simp only: uint_nat of_nat_power of_nat_numeral)
qed

text \<open>A token the canister signed is accepted by the worker up to its last millisecond.\<close>

lemma signed_token_in_worker:
  assumes T: "worker_tools_documented T" and C: "cbor_compatible W (tt_tokens T)"
    and S: "service_accepted W T svc sg key keys" and "key \<in> set keys"
    and a: "ascii name" "uint e < 2 ^ 53" and t: "sign_proxy_token T svc sg e name = Ok t"
  obtains data s where "base64ToBytes t = Ok data"
    and "\<And>ms. ecdsaVerify W keys data ms = Ok (js_token (Token e name s)) \<longleftrightarrow> ms \<le> (unat e + 10) * 1000"
    and "\<And>ms v. ecdsaVerify W keys data ms = Ok v \<Longrightarrow> v = js_token (Token e name s)"
proof -
  from t obtain buf s data where buf: "cbor_pair (tt_tokens T) (e, name) = Ok buf"
    and s: "sign_digest T svc sg (tt_sha3 T buf) = Ok s"
    and data: "cbor_token (tt_tokens T) (e, name, s) = Ok data" and b: "t = tt_base64 T data"
    by (auto simp: sign_proxy_token_def)
  let ?t = "Token e name s"
  have sha: "tt_sha3 T buf = noble_sha3 W buf" using T C by (simp add: worker_tools_documented_def cbor_compatible_def)
  have d: "cborg_decode W data = Ok (js_token ?t)" using C a data by (simp add: cbor_compatible_def)
  have m: "cborg_encode W (JsArray [JsNumber (uint (tok_expire ?t)), JsString (tok_agent ?t)]) = Ok buf"
    using C a buf by (simp add: cbor_compatible_def)
  from S s sha have v: "noble_secp256k1_verify W (JsBytes s) (noble_sha3 W buf) key = Ok True"
    "\<forall>k\<in>set keys. \<exists>ok. noble_secp256k1_verify W (JsBytes s) (noble_sha3 W buf) k = Ok ok"
    by (simp_all add: service_accepted_def)
  from bchoice [OF v(2)] obtain valid where
    valid: "\<forall>k\<in>set keys. noble_secp256k1_verify W (JsBytes s) (noble_sha3 W buf) k = Ok (valid k)" ..
  then have w: "noble_secp256k1_verify W (JsBytes (tok_sig ?t)) (noble_sha3 W buf) k = Ok (valid k)" if "k \<in> set keys" for k
    using that by simp
  have "valid key" using valid v(1) assms(4) by auto
  then have "\<exists>k\<in>set keys. valid k" using assms(4) ..
  with ecdsaVerify_token [OF d m w, where keys = keys] that [of data s] T b
  show ?thesis by (simp add: worker_tools_documented_def base64_round_trip)
qed

lemma worker_lets_in:
  assumes T: "worker_tools_documented T" and C: "cbor_compatible (wlib L) (tt_tokens T)"
    and S: "\<forall>i. service_accepted (wlib L) T (service i) sg key (pk_ecdsa pks)"
    and K: "parsePubkeys (bindings E) = Ok (pks, True)" "key \<in> set (pk_ecdsa pks)"
    and "unat interval < 2 ^ 52"
    and U: "update_proxy_token T now service sg interval as = Ok (Some bs)" "b \<in> set bs"
    and a: "ascii (ag_name b)" and B: "build_request X b oq = Ok oq'"
    and N: "\<forall>h\<in>set (oq_headers oq). to_ascii_lowercase (hd_name h) \<noteq> ''proxy-authorization''"
    and P: "worker_presents (flib L) oq' req" and W: "ALLOW_AGENTS E = [] \<or> ag_name b \<in> set (ALLOW_AGENTS E)"
  shows "\<exists>i<length as. \<forall>ms. worker_agent L E req ms = Ok (JsString (ag_name b)) \<longleftrightarrow>
    ms \<le> (unat (now i) div 10 ^ 9 + unat interval + 130) * 1000"
proof -
  from U(1) have "update_loop T now service sg interval 0 Map.empty as = Ok bs"
    by (auto simp: update_proxy_token_def split: if_splits outcome.splits)
  from update_loop_signed [OF this U(2)] obtain t i where t: "ag_proxy_token b = Some t" and i: "i < length as"
    and s: "sign_proxy_token T (service i) sg (now i div SECONDS + interval + 120) (ag_name b) = Ok t" by auto
  note e = token_expiry [OF assms(6), of "now i"]
  from S have "service_accepted (wlib L) T (service i) sg key (pk_ecdsa pks)" ..
  from signed_token_in_worker [OF T C this K(2) a e(2) s] obtain data sig where
    d: "base64ToBytes t = Ok data" and
    v: "\<And>ms. ecdsaVerify (wlib L) (pk_ecdsa pks) data ms = Ok (js_token (Token (now i div SECONDS + interval + 120) (ag_name b) sig))
      \<longleftrightarrow> ms \<le> (unat (now i div SECONDS + interval + 120) + 10) * 1000" and
    only: "\<And>ms v. ecdsaVerify (wlib L) (pk_ecdsa pks) data ms = Ok v \<Longrightarrow>
      v = js_token (Token (now i div SECONDS + interval + 120) (ag_name b) sig)" by blast
  have h: "values_of ''proxy-authorization'' (lower_headers oq') = [''Bearer '' @ t]"
    using build_request_lower [OF B t] no_client_token [OF N] by simp
  have "pk_ecdsa pks \<noteq> []" using K(2) by auto
  have "worker_agent L E req ms = Ok (JsString (ag_name b)) \<longleftrightarrow> ms \<le> (unat (now i) div 10 ^ 9 + unat interval + 130) * 1000" for ms
  proof -
    let ?tk = "Token (now i div SECONDS + interval + 120) (ag_name b) sig"
    have "ALLOW_AGENTS E = [] \<or> tok_agent ?tk \<in> set (ALLOW_AGENTS E)" using W by simp
    from worker_agent_bearer [OF h P d K(1) \<open>pk_ecdsa pks \<noteq> []\<close> only this, of ms]
    have "worker_agent L E req ms = Ok (JsString (ag_name b)) \<longleftrightarrow> ms \<le> (unat (now i div SECONDS + interval + 120) + 10) * 1000"
      by (simp only: v token.sel)
    also have "unat (now i div SECONDS + interval + 120) + 10 = unat (now i) div 10 ^ 9 + unat interval + 130"
      unfolding e(1) by simp
    finally show ?thesis .
  qed
  with i show ?thesis by blast
qed

section \<open>Samples\<close>

definition worker_tools_sample :: token_tools where
  "worker_tools_sample = sample_tools\<lparr>tt_base64 := bytesToBase64Url\<rparr>"

definition worker_lib_sample :: worker_lib where
  "worker_lib_sample = sample_wlib\<lparr>
     cborg_decode := (\<lambda>b. case token_from_reader sample_tokens b of Some t \<Rightarrow> Ok (js_token t) | None \<Rightarrow> Err ''CBOR decode error''),
     cborg_encode := (\<lambda>v. case v of JsArray [JsNumber e, JsString a] \<Rightarrow> cbor_pair sample_tokens (word_of_int e, a)
       | _ \<Rightarrow> Err ''not a pair''),
     noble_sha3 := (\<lambda>b. b),
     noble_secp256k1_verify := (\<lambda>s m k. Ok (s = JsBytes (k @ m)))\<rparr>"

definition worker_libs_sample :: "((string \<times> string) list, js_json, string) worker_libs" where
  "worker_libs_sample = sample_wlibs\<lparr>wlib := worker_lib_sample,
     flib := sample_fetch\<lparr>headers_get := (\<lambda>h n. joined (values_of n h))\<rparr>\<rparr>"

definition worker_env_sample :: worker_env where
  "worker_env_sample = sample_wenv\<lparr>bindings := [(''ECDSA_PUB_KEY_1'', JsString (bytesToBase64Url ''k''))], ALLOW_AGENTS := [''b'']\<rparr>"

definition worker_arrival :: "outcall_request \<Rightarrow> (string \<times> string) list worker_request" where
  "worker_arrival oq = sample_wreq\<lparr>wr_headers := lower_headers oq\<rparr>"

lemma worker_samples:
  "worker_tools_documented worker_tools_sample"
  "cbor_compatible (wlib worker_libs_sample) (tt_tokens worker_tools_sample)"
  "service_accepted (wlib worker_libs_sample) worker_tools_sample sample_service sample_key1 ''k'' [''k'']"
  "parsePubkeys (bindings worker_env_sample) = Ok (\<lparr>pk_ecdsa = [''k''], pk_ed25519 = []\<rparr>, True)"
  "worker_presents (flib worker_libs_sample) oq (worker_arrival oq)"
proof -
  show "worker_tools_documented worker_tools_sample"
    by (simp add: worker_tools_documented_def worker_tools_sample_def sample_tools_def sha3_256_def sample_tokens_def)
  have "token_codec_documented sample_tokens" by (rule sample_tokens_documented)
  then show "cbor_compatible (wlib worker_libs_sample) (tt_tokens worker_tools_sample)"
    by (simp add: cbor_compatible_def token_codec_documented_def worker_libs_sample_def worker_lib_sample_def
        worker_tools_sample_def sample_tools_def) (simp add: sample_tokens_def sha3_256_def)
  show "service_accepted (wlib worker_libs_sample) worker_tools_sample sample_service sample_key1 ''k'' [''k'']"
    by (simp add: service_accepted_def worker_libs_sample_def worker_lib_sample_def sign_digest_def sample_key1_def
        sign_with_def sample_service_def) blast
  show "parsePubkeys (bindings worker_env_sample) = Ok (\<lparr>pk_ecdsa = [''k''], pk_ed25519 = []\<rparr>, True)"
    by (simp add: worker_env_sample_def parsePubkeys_def starts_with_def base64_round_trip)
  show "worker_presents (flib worker_libs_sample) oq (worker_arrival oq)"
    by (simp add: worker_presents_def worker_libs_sample_def worker_arrival_def)
qed

lemma worker_sample_signs:
  "\<exists>t. sign_proxy_token worker_tools_sample sample_service sample_key1 e m = Ok t"
  by (simp add: sign_proxy_token_def worker_tools_sample_def sample_tools_def sample_tokens_def sign_digest_def
      sample_key1_def sign_with_def sample_service_def)

lemma worker_sample_refreshed:
  "\<exists>b oq'. update_proxy_token worker_tools_sample (\<lambda>_. 5000000000) (\<lambda>_. sample_service) sample_key1 60
      [plain_agent ''b'' ''u2''] = Ok (Some [b]) \<and> ag_name b = ''b'' \<and>
     build_request sample_uri b (sample_oq ''https://api.com/v1'') = Ok oq'"
proof -
  obtain t where t: "sign_proxy_token worker_tools_sample sample_service sample_key1 (5000000000 div SECONDS + 60 + 120) ''b'' = Ok t"
    using worker_sample_signs by blast
  let ?b = "(plain_agent ''b'' ''u2'')\<lparr>ag_proxy_token := Some t\<rparr>"
  have "update_proxy_token worker_tools_sample (\<lambda>_. 5000000000) (\<lambda>_. sample_service) sample_key1 60 [plain_agent ''b'' ''u2''] =
      Ok (Some [?b])"
    using t by (simp add: update_proxy_token_def plain_agent_def)
  moreover obtain oq' where "build_request sample_uri ?b (sample_oq ''https://api.com/v1'') = Ok oq'"
    by (simp add: build_request_def build_target_def sample_oq_def sample_uri_def plain_agent_def
        has_header_def starts_with_def push_header_def)
  ultimately show ?thesis by (intro exI [of _ ?b] exI [of _ oq']) (simp add: plain_agent_def)
qed

section \<open>Properties\<close>

text \<open>
  C20: The worker lets the canister in, as the server does. Take any agent with an ASCII name that a refresh of
the canister's tokens produced and any client's request it was called with (which did not bring an authorization
of its own, in whatever case): a worker that has the canister's public key among its ECDSA keys, all of them
well-formed, and does not exclude the agent's name lets the request the agent builds in, under that name, until
exactly 130 seconds after the next refresh is due, and not a millisecond longer. The refresh interval is below
\<open>2 ^ 52\<close> seconds.
\<close>

theorem canister_requests_pass_the_worker:
  assumes "worker_tools_documented T" and "cbor_compatible (wlib L) (tt_tokens T)"
    and "\<forall>i. service_accepted (wlib L) T (service i) sg key (pk_ecdsa pks)"
    and "parsePubkeys (bindings E) = Ok (pks, True)" and "key \<in> set (pk_ecdsa pks)"
    and "unat interval < 2 ^ 52"
    and "update_proxy_token T now service sg interval as = Ok (Some bs)" and "b \<in> set bs"
    and "ascii (ag_name b)" and "build_request X b oq = Ok oq'"
    and "\<forall>h\<in>set (oq_headers oq). to_ascii_lowercase (hd_name h) \<noteq> ''proxy-authorization''"
    and "worker_presents (flib L) oq' req" and "ALLOW_AGENTS E = [] \<or> ag_name b \<in> set (ALLOW_AGENTS E)"
  shows "\<exists>i<length as. \<forall>ms. worker_agent L E req ms = Ok (JsString (ag_name b)) \<longleftrightarrow>
    ms \<le> (unat (now i) div 10 ^ 9 + unat interval + 130) * 1000"
  by (rule worker_lets_in [OF assms])

theorem canister_requests_pass_the_worker_witness:
  "\<exists>oq'. worker_agent worker_libs_sample worker_env_sample (worker_arrival oq') 195000 = Ok (JsString ''b'') \<and>
    worker_agent worker_libs_sample worker_env_sample (worker_arrival oq') 195001 \<noteq> Ok (JsString ''b'')"
proof -
  obtain b oq' where run: "update_proxy_token worker_tools_sample (\<lambda>_. 5000000000) (\<lambda>_. sample_service) sample_key1 60
      [plain_agent ''b'' ''u2''] = Ok (Some [b])" and b: "ag_name b = ''b''"
    and build: "build_request sample_uri b (sample_oq ''https://api.com/v1'') = Ok oq'" using worker_sample_refreshed by blast
  have n: "to_ascii_lowercase ''idempotency-key'' \<noteq> ''proxy-authorization''" by code_simp
  have "\<exists>i<length [plain_agent ''b'' ''u2'']. \<forall>ms. worker_agent worker_libs_sample worker_env_sample (worker_arrival oq') ms =
      Ok (JsString (ag_name b)) \<longleftrightarrow> ms \<le> (unat (5000000000 :: u64) div 10 ^ 9 + unat (60 :: u64) + 130) * 1000"
    by (rule canister_requests_pass_the_worker [OF worker_samples(1,2) _ worker_samples(4) _ _ run _ _ build _ worker_samples(5)])
      (simp_all add: worker_samples(3) sample_oq_def worker_env_sample_def b n)
  then have "worker_agent worker_libs_sample worker_env_sample (worker_arrival oq') ms = Ok (JsString ''b'') \<longleftrightarrow> ms \<le> 195000" for ms
    by (simp add: b)
  then show ?thesis by (intro exI [of _ oq']) simp
qed

end
