(* ===== verification/Source_Tests.thy ===== *)
theory Source_Tests
  imports Worker_Properties Proxy_Properties
begin

text \<open>
  The repository's own unit tests of the modelled functions, run on the model: the tests of
  \<open>cache/mod.rs\<close> (filters, stored form, masked bodies), of \<open>idempotent-proxy-types/src/auth.rs\<close> (tokens) and of
  the worker (\<open>index.test.ts\<close>). Each test is a definition that makes the test's calls and says whether its
  assertions hold; each lemma shows that they do, for every library the assertions do not depend on.
\<close>

section \<open>cache/mod.rs\<close>

definition test_split_filtering :: bool where
  "test_split_filtering \<longleftrightarrow>
     length (split_filtering []) = 0 \<and> split_filtering ''args,url'' = [''args'', ''url''] \<and>
     split_filtering ''args, url'' = [''args'', ''url'']"

lemma split_filtering_ascii: "ascii f \<Longrightarrow> split_filtering f = js_filtering f"
  by (simp add: js_filtering_ascii)

lemmas filtering_eval = split_filtering_ascii js_filtering_def js_trim_def js_space_def

lemma split_filtering_passes: test_split_filtering
  unfolding test_split_filtering_def by (simp add: filtering_eval)

text \<open>The stored form, and the filter on the three headers of the test, which the tests of the bodies share.\<close>

definition test_headers :: "string \<Rightarrow> (string \<times> string) list" where
  "test_headers mime = [(''date'', ''Wed, 22 May 2024 11:11:17 GMT''), (''content-length'', ''123''), (''content-type'', mime)]"

definition test_filter :: string where
  "test_filter = ''date, content-type, Content-Length''"

definition test_response_data :: "('h, 'v) http_lib \<Rightarrow> ('j, 'm, 'c) codec_lib \<Rightarrow> 'h \<Rightarrow> bytes \<Rightarrow> bool" where
  "test_response_data H C headers data \<longleftrightarrow>
     (let rd = response_new 200;
          rd = rd\<lparr>rd_headers := rd_headers rd @ [(''accept'', ''application/json'')]\<rparr>;
          rd = rd\<lparr>rd_body := rd_body rd @ ''Hello, World!''\<rparr>
      in to_bytes C rd = Ok data \<longrightarrow> response_try_from C data = Ok rd) \<and>
     (let rd = with_headers H (response_new 200) headers test_filter
      in rd_mime rd = ''application/json'' \<and> rd_headers rd = [(''date'', ''Wed, 22 May 2024 11:11:17 GMT'')])"

text \<open>The headers of the test, as any \<open>HeaderMap\<close> shows them.\<close>

definition shows_headers :: "('h, 'v) http_lib \<Rightarrow> 'h \<Rightarrow> (string \<times> string) list \<Rightarrow> bool" where
  "shows_headers H headers xs \<longleftrightarrow>
     list_all2 (\<lambda>(k, s) (k', v). k = k' \<and> hv_to_str H v = Some s) xs (hm_iter H headers)"

lemma test_filter_eval:
  "split_filtering (to_ascii_lowercase test_filter) = [''date'', ''content-type'', ''content-length'']"
proof -
  have l: "to_ascii_lowercase test_filter = ''date, content-type, content-length''"
    by code_simp
  show ?thesis unfolding l by (simp add: filtering_eval)
qed

lemma shows_headers_kept:
  "shows_headers H headers (test_headers mime) \<Longrightarrow>
     with_headers H (response_new st) headers test_filter =
       \<lparr>rd_status = st, rd_headers = [(''date'', ''Wed, 22 May 2024 11:11:17 GMT'')], rd_body = [], rd_mime = mime\<rparr>"
  by (auto simp: shows_headers_def test_headers_def list_all2_Cons1 with_headers_def test_filter_eval
      take_header_def response_new_def)

lemma response_data_passes:
  "response_codec_documented C \<Longrightarrow> shows_headers H headers (test_headers ''application/json'') \<Longrightarrow>
     test_response_data H C headers data"
  by (auto simp: test_response_data_def shows_headers_kept to_bytes_def response_try_from_def
      response_codec_documented_def Let_def)

text \<open>The masked bodies: \<open>expected\<close> is the encoding the test compares with.\<close>

definition test_mask :: string where
  "test_mask = ''args,url,Origin''"

definition test_response_data_in_json :: "('h, 'v) http_lib \<Rightarrow> ('j, 'm, 'c) codec_lib \<Rightarrow> 'h \<Rightarrow> bytes \<Rightarrow> bytes \<Rightarrow> bool" where
  "test_response_data_in_json H C headers body expected \<longleftrightarrow>
     (let rd = with_headers H (response_new 200) headers test_filter
      in rd_mime rd = ''application/json'' \<and>
         (case with_body C rd body test_mask of Ok rd \<Rightarrow> rd_body rd = expected | _ \<Rightarrow> False))"

definition test_response_data_in_cbor :: "('h, 'v) http_lib \<Rightarrow> ('j, 'm, 'c) codec_lib \<Rightarrow> 'h \<Rightarrow> bytes \<Rightarrow> bytes \<Rightarrow> bool" where
  "test_response_data_in_cbor H C headers body expected \<longleftrightarrow>
     (let rd = with_headers H (response_new 200) headers test_filter
      in rd_mime rd = ''application/cbor'' \<and>
         (case with_body C rd body test_mask of Ok rd \<Rightarrow> rd_body rd = expected | _ \<Rightarrow> False))"

lemma test_mask_eval: "split_filtering test_mask = [''args'', ''url'', ''Origin'']"
  by (simp add: test_mask_def filtering_eval)

lemma contains_refl [simp]: "str_contains s s"
  by (simp add: str_contains_def)

text \<open>The body of the JSON test has \<open>args\<close>, \<open>headers\<close>, \<open>origin\<close> and \<open>url\<close>.\<close>

lemma response_data_in_json_passes:
  assumes "shows_headers H headers (test_headers ''application/json'')"
    and "json_from_slice C body = Ok obj" and "json_get C obj ''args'' = Some args" and "json_get C obj ''url'' = Some url"
    and "json_get C obj ''Origin'' = None"
    and "json_map_to_vec C (json_map_insert C (json_map_insert C (json_map_new C) ''args'' args) ''url'' url) = Ok expected"
  shows "test_response_data_in_json H C headers body expected"
  by (simp add: test_response_data_in_json_def shows_headers_kept [OF assms(1)] with_body_def test_mask_eval json_mask_def
      assms(2-6))

lemma response_data_in_cbor_passes:
  assumes "shows_headers H headers (test_headers ''application/cbor'')"
    and "cbor_from_reader C body = Ok obj" and "cbor_into_map C obj = Some [(a, args), (h, headers'), (orig, origin), (u, url)]"
    and "cbor_as_text C a = Some ''args''" "cbor_as_text C h = Some ''headers''" "cbor_as_text C orig = Some ''origin''"
      "cbor_as_text C u = Some ''url''"
    and "cbor_into_writer C (cbor_map C [(a, args), (u, url)]) = Ok expected"
  shows "test_response_data_in_cbor H C headers body expected"
proof -
  have n: "\<not> str_contains ''application/cbor'' ''application/json''"
    by (simp add: str_contains_def sublist_code)
  show ?thesis
    by (simp add: test_response_data_in_cbor_def shows_headers_kept [OF assms(1)] with_body_def test_mask_eval cbor_mask_def
        assms(2-8) n)
qed

section \<open>auth.rs\<close>

text \<open>A key signs a token for \<open>alice\<close> that is valid for an hour, and its public key verifies it.\<close>

definition test_ed25519_token :: "token_lib \<Rightarrow> ('sk, 'vk, 'sig) sign_lib \<Rightarrow> 'sk \<Rightarrow> u64 \<Rightarrow> bool" where
  "test_ed25519_token A E signing_key unix_ms \<longleftrightarrow>
     (let expire_at = unix_ms div 1000 + 3600 in
      case ed25519_sign A E signing_key expire_at ''alice'' of
        Ok data \<Rightarrow> (case ed25519_verify A E [verifying_key E signing_key] data unix_ms of
            Ok token \<Rightarrow> tok_expire token = expire_at \<and> tok_agent token = ''alice''
          | _ \<Rightarrow> False)
      | _ \<Rightarrow> False)"

definition test_secp256k1_token :: "token_lib \<Rightarrow> ('sk, 'vk, 'sig) sign_lib \<Rightarrow> 'sk \<Rightarrow> u64 \<Rightarrow> bool" where
  "test_secp256k1_token A E signing_key unix_ms \<longleftrightarrow>
     (let expire_at = unix_ms div 1000 + 3600 in
      case ecdsa_sign A E signing_key expire_at ''alice'' of
        Ok data \<Rightarrow> (case ecdsa_verify A E [verifying_key E signing_key] data unix_ms of
            Ok token \<Rightarrow> tok_expire token = expire_at \<and> tok_agent token = ''alice''
          | _ \<Rightarrow> False)
      | _ \<Rightarrow> False)"

text \<open>The time is far from the end of \<open>u64\<close>, and encoding and signing do not fail.\<close>

lemma hour_not_expired: "\<not> t div 1000 + 3600 + 10 < (t :: u64) div 1000"
proof -
  have t: "unat (t div 1000) = unat t div 1000" by (simp add: unat_div)
  have "unat t < 2 ^ 64" by (rule order_less_le_trans [OF unsigned_less]) simp
  then have b: "unat t div 1000 < 2 ^ 63" by simp
  have "unat (t div 1000 + 3610) = unat t div 1000 + 3610"
    using b by (subst unat_add_no_overflow) (simp_all add: no_overflow_def t)
  then show ?thesis by (simp add: word_less_nat_alt t add.assoc)
qed

lemma tokens_pass:
  assumes "token_codec_documented A" and "signatures_documented E"
    and "\<And>p. \<exists>b. cbor_pair A p = Ok b" and "\<And>p. \<exists>b. cbor_token A p = Ok b" and "\<And>m. \<exists>s. sign_message E sk m = Ok s"
  shows "test_ed25519_token A E sk t" and "test_secp256k1_token A E sk t"
proof -
  let ?e = "t div 1000 + 3600"
  obtain b where b: "cbor_pair A (?e, ''alice'') = Ok b" using assms(3) by blast
  have n: "\<not> token_expired (Token ?e ''alice'' s) t" for s
    using hour_not_expired [of t] by (simp add: token_expired_def PERMITTED_DRIFT_def)
  obtain s where s: "sign_message E sk b = Ok s" using assms(5) by blast
  obtain d where d: "cbor_token A (?e, ''alice'', sig_to_vec E s) = Ok d" using assms(4) by blast
  have "ed25519_verify A E [verifying_key E sk] d t = Ok (Token ?e ''alice'' (sig_to_vec E s))"
    using assms(1,2) b s d n by (auto simp: ed25519.ver_Ok ed25519_authentic_def token_codec_documented_def signatures_documented_def)
  with b s d show "test_ed25519_token A E sk t"
    by (simp add: test_ed25519_token_def ed25519_sign_def Let_def)
  obtain s' where s': "sign_message E sk (sha3_256 A b) = Ok s'" using assms(5) by blast
  obtain d' where d': "cbor_token A (?e, ''alice'', sig_to_vec E s') = Ok d'" using assms(4) by blast
  have "ecdsa_verify A E [verifying_key E sk] d' t = Ok (Token ?e ''alice'' (sig_to_vec E s'))"
    using assms(1,2) b s' d' n by (auto simp: ecdsa.ver_Ok ecdsa_authentic_def token_codec_documented_def signatures_documented_def)
  with b s' d' show "test_secp256k1_token A E sk t"
    by (simp add: test_secp256k1_token_def ecdsa_sign_def Let_def)
qed

section \<open>index.test.ts\<close>

text \<open>A worker without keys and allow list answers \<open>GET /\<close> with its name.\<close>

lemma worker_root_passes:
  assumes "parsePubkeys (bindings E) = Ok (pks, False)" and "ALLOW_AGENTS E = []" and "wr_method req = ''GET''"
    and "url_new (ulib L) (wr_url req) = Ok url" and "url_pathname (ulib L) url = ''/''"
  shows "w_begin L E req now = WFinished None (PlainReply 200 ''idempotent-proxy-cf-worker'')"
  using assms by (simp add: w_begin_def worker_admit_def worker_agent_def worker_url_def)

end
