(* ===== verification/Memory_Test.thy ===== *)
theory Memory_Test
  imports Memory_Cache
begin

text \<open>
  The repository's test of the in-memory cache (\<open>cache/memory.rs\<close>, \<open>memory_cacher\<close>), run on the model. The
  clean-up tasks that the operations spawn are tasks of the runtime: some number of them, given by a schedule,
  runs before each statement, and all that are left run while the test sleeps or awaits one of them.
\<close>

section \<open>The test as a program\<close>

datatype test_stmt =
    AssertObtain string u64 bool
  | AssertPoll string u64 nat "bytes option"
  | AssertSet string bytes u64 bool
  | AssertDel string
  | SleepFor u64
  | AwaitClean
  | JoinObtain string u64
  | AssertLens nat nat

primrec cleans :: "nat \<Rightarrow> u64 \<Rightarrow> mem_cacher \<Rightarrow> mem_cacher" where
  "cleans 0 now s = s"
| "cleans (Suc k) now s = cleans k now (run_clean s now)"

definition drain :: "u64 \<Rightarrow> mem_cacher \<Rightarrow> mem_cacher" where
  "drain now s = cleans (spawned s) now s"

text \<open>A poll sleeps after each of its rounds.\<close>

fun poll_rounds_of :: "u64 \<Rightarrow> string \<Rightarrow> nat \<Rightarrow> mem_cacher \<times> u64 \<Rightarrow> (bytes, string) outcome \<times> mem_cacher \<times> u64" where
  "poll_rounds_of interval key 0 (s, now) = (Err ''polling get cache timeout'', s, now)"
| "poll_rounds_of interval key (Suc n) (s, now) =
     (case mem_poll s now key of
        (PollDone r, s') \<Rightarrow> (r, s', now)
      | (PollAgain, s') \<Rightarrow> poll_rounds_of interval key n (drain now s', now + interval))"

fun is_ok :: "('a, 'e) outcome \<Rightarrow> bool" where
  "is_ok (Ok x) = True"
| "is_ok r = False"

text \<open>One statement: the state and the time afterwards, or \<open>None\<close> when its assertion fails.\<close>

fun test_step :: "test_stmt \<Rightarrow> mem_cacher \<times> u64 \<Rightarrow> (mem_cacher \<times> u64) option" where
  "test_step (AssertObtain key ttl b) (s, now) =
     (case mem_obtain s now key ttl of (r, s') \<Rightarrow> if r = Ok b then Some (s', now) else None)"
| "test_step (AssertPoll key interval n expected) (s, now) =
     (case poll_rounds_of interval key n (s, now) of (r, s') \<Rightarrow>
        if (case expected of Some v \<Rightarrow> r = Ok v | None \<Rightarrow> \<not> is_ok r) then Some s' else None)"
| "test_step (AssertSet key val ttl b) (s, now) =
     (case mem_set s now key val ttl of (r, s') \<Rightarrow> if is_ok r = b then Some (s', now) else None)"
| "test_step (AssertDel key) (s, now) =
     (case mem_del s key of (r, s') \<Rightarrow> if is_ok r then Some (s', now) else None)"
| "test_step (SleepFor ms) (s, now) = Some (drain now s, now + ms)"
| "test_step AwaitClean (s, now) = Some (drain now (spawn_clean s), now)"
| "test_step (JoinObtain key ttl) (s, now) =
     (case mem_obtain s now key ttl of (r1, s1) \<Rightarrow>
      case mem_obtain s1 now key ttl of (r2, s2) \<Rightarrow>
      case mem_obtain s2 now key ttl of (r3, s3) \<Rightarrow>
        if (r1, r2, r3) \<in> {(Ok True, Ok False, Ok False), (Ok False, Ok True, Ok False), (Ok False, Ok False, Ok True)}
        then Some (s3, now) else None)"
| "test_step (AssertLens n q) (s, now) =
     (if card (dom (kv s)) = n \<and> length (priority_queue s) = q then Some (s, now) else None)"

primrec test_run :: "(int \<Rightarrow> nat) \<Rightarrow> int \<Rightarrow> test_stmt list \<Rightarrow> mem_cacher \<times> u64 \<Rightarrow> bool" where
  "test_run sched i [] st \<longleftrightarrow> True"
| "test_run sched i (x # xs) st \<longleftrightarrow>
     (case test_step x (cleans (sched i) (snd st) (fst st), snd st) of
        None \<Rightarrow> False | Some st' \<Rightarrow> test_run sched (i + 1) xs st')"

definition test_value :: bytes where
  "test_value = [CHR 0x01, CHR 0x02, CHR 0x03, CHR 0x04]"

definition memory_cacher_test :: "test_stmt list" where
  "memory_cacher_test =
    [AssertObtain ''key1'' 100 True,
     AssertObtain ''key1'' 100 False,
     AssertPoll ''key1'' 10 (Suc (Suc 0)) None,
     AssertSet ''key'' test_value 100 False,
     AssertSet ''key1'' test_value 100 True,
     AssertObtain ''key1'' 100 False,
     AssertPoll ''key1'' 10 (Suc (Suc 0)) (Some test_value),
     AssertPoll ''key1'' 10 (Suc (Suc 0)) (Some test_value),
     AssertDel ''key'',
     AssertDel ''key1'',
     AssertPoll ''key1'' 10 (Suc (Suc 0)) None,
     AssertSet ''key1'' test_value 100 False,
     AssertObtain ''key1'' 100 True,
     AssertSet ''key1'' test_value 100 True,
     AssertPoll ''key1'' 10 (Suc (Suc 0)) (Some test_value),
     SleepFor 200,
     AssertPoll ''key1'' 10 (Suc (Suc 0)) (Some test_value),
     AssertSet ''key1'' test_value 100 False,
     AssertDel ''key1'',
     AssertObtain ''key1'' 100 True,
     SleepFor 200,
     AwaitClean,
     JoinObtain ''key1'' 100,
     AssertLens 1 1,
     SleepFor 200,
     AssertLens 1 1,
     AwaitClean,
     AssertLens 0 0]"

section \<open>It passes under every schedule\<close>

abbreviation mcell :: "priority_key list \<Rightarrow> mem_kv \<Rightarrow> nat \<Rightarrow> mem_cacher" where
  "mcell pq m n \<equiv> \<lparr>priority_queue = pq, kv = m, spawned = n\<rparr>"

lemma clean_spec_twice:
  "clean_spec now (fst (clean_spec now pq m)) (snd (clean_spec now pq m)) = clean_spec now pq m"
  by (auto simp: clean_spec_def fun_eq_iff)

lemma cleans_none: "cleans k now (mcell pq m 0) = mcell pq m 0"
  by (induction k) (simp_all add: run_clean_def)

lemma cleans_some:
  "bt_invar pq \<Longrightarrow>
     cleans (Suc k) now (mcell pq m (Suc n)) = mcell (fst (clean_spec now pq m)) (snd (clean_spec now pq m)) (n - k)"
proof (induction k arbitrary: n pq m)
  case 0
  then show ?case by (simp add: run_clean_def clean_loop_eq_spec split_beta)
next
  case (Suc k)
  have i: "bt_invar (fst (clean_spec now pq m))" using Suc.prems by (simp add: clean_spec_def sorted_wrt_filter)
  have r: "run_clean (mcell pq m (Suc n)) now = mcell (fst (clean_spec now pq m)) (snd (clean_spec now pq m)) n"
    using Suc.prems by (simp add: run_clean_def clean_loop_eq_spec split_beta)
  show ?case
  proof (cases n)
    case 0
    with r show ?thesis by (simp add: cleans_none)
  next
    case (Suc n')
    with Suc.IH [OF i, of "snd (clean_spec now pq m)" n'] r show ?thesis
      by (simp add: clean_spec_twice)
  qed
qed

text \<open>Nothing has expired: the clean-ups only use up the spawned tasks.\<close>

lemma cleans_quiet:
  assumes "bt_invar pq" and "\<forall>x\<in>set pq. now < expire_of x"
  shows "cleans k now (mcell pq m n) = mcell pq m (n - k)"
proof -
  have "clean_spec now pq m = (pq, m)" using assms(2) by (auto simp: clean_spec_def fun_eq_iff filter_id_conv)
  with cleans_some [OF assms(1), of "k - 1" now m "n - 1"] cleans_none [of k now pq m] show ?thesis
    by (cases k; cases n) simp_all
qed

lemma drain_cell: "drain now (mcell pq m n) = cleans n now (mcell pq m n)"
  by (simp add: drain_def)

lemma clean_spec_simps:
  "clean_spec now [] m = ([], m)"
  "e \<le> now \<Longrightarrow> clean_spec now (PriorityKey e k # pq) m = clean_spec now pq (m(k := None))"
  "now < e \<Longrightarrow> clean_spec now (PriorityKey e k # pq) m =
     (PriorityKey e k # fst (clean_spec now pq m), snd (clean_spec now pq m))"
  by (auto simp: clean_spec_def fun_eq_iff)

lemma test_value_nonempty: "test_value \<noteq> []"
  by (simp add: test_value_def)

lemmas test_eval = mem_default_def mem_obtain_def mem_set_def mem_del_def mem_poll_def spawn_clean_def Let_def
  drain_cell cleans_quiet cleans_none cleans_some clean_spec_simps test_value_nonempty

theorem memory_cacher_test_passes: "test_run sched 0 memory_cacher_test (mem_default, 1000)"
  unfolding memory_cacher_test_def
  by (cases "sched 17"; cases "sched 18"; cases "sched 19"; cases "sched 20"; simp add: test_eval del: cleans.simps(2))

end
