(* ===== verification/Spec2Isabelle.thy ===== *)
theory Spec2Isabelle
  imports Memory_Cache Memory_Locks Hybrid_Cache Proxy_System Proxy_Progress Server_Start Canister_Admin Canister_Server Api_Properties
    Lite_Client Eth_Canister Replicated_Outcalls Worker_Properties Canister_Worker
    Source_Tests Memory_Test
begin

text \<open>
  A verification development for \<open>idempotent-proxy\<close>, a proxy that forwards each HTTP request with an
  idempotency key at most once and answers its repetitions from a cache, so that the replicas of a
  canister on the Internet Computer can call an outside service. The program has three parts: the server
  (\<open>src/idempotent-proxy-server\<close>, with the tokens of \<open>src/idempotent-proxy-types\<close>), the canister that
  calls it (\<open>src/idempotent-proxy-canister\<close>), and a second implementation of the proxy as a Cloudflare worker
  in TypeScript (\<open>src/idempotent-proxy-cf-worker\<close>).

  The server.

  \<^item> \<open>Memory_Cache\<close> models \<open>cache/memory.rs\<close>: a map from keys to expiry times and values, a queue of
    expiry times, and clean-up tasks that run later; \<open>mem_obtain_cut\<close> and \<open>mem_del_cut\<close> are operations that
    are dropped between the two locks. \<open>Memory_Locks\<close> models these locks, the order in which each operation
    takes them, and requests that are dropped while they wait. \<open>Redis_Cache\<close> models \<open>cache/redis.rs\<close> over a client that is a
    parameter. \<open>Hybrid_Cache\<close> models the dispatch in \<open>cache/mod.rs\<close>.
  \<^item> \<open>Cacher\<close> states the contract of the trait \<open>Cacher\<close> as the locale \<open>cacher\<close> (what an \<open>obtain\<close>, a round
    of polling, a \<open>set\<close> and a \<open>del\<close> do to the live entries) and, as its extensions, where cached values
    come from (\<open>cacher_source\<close>) and what a dropped operation does (\<open>cacher_cut\<close>). All three caches are
    interpretations of the first two, the in-memory and the hybrid cache of the third. \<open>Ordered_Set\<close> is the contract
    of \<open>BTreeSet\<close>, interpreted on sorted lists.
  \<^item> \<open>Response\<close> models \<open>ResponseData\<close> (\<open>cache/mod.rs\<close>): the filter of headers, the masks of bodies, the
    stored form, the response sent.
  \<^item> \<open>Auth\<close> models \<open>auth.rs\<close>: tokens, and their signing and verification with two schemes; both verifiers
    are interpretations of the locale \<open>token_verifier\<close>.
  \<^item> \<open>Handler\<close> models \<open>handler.rs\<close>, one definition per stage of \<open>proxy\<close>, every early return an \<open>Err\<close> with
    its status. \<open>Proxy_Properties\<close> holds what one run of it guarantees.
  \<^item> \<open>Proxy_System\<close> cuts the handler at its awaits into the steps of a machine with any number of tasks
    that share the cache, with clean-ups and tasks dropped at any await in between, and shows what every run of
    it guarantees; \<open>the_system_runs_the_handler\<close> ties the steps to the definition of \<open>proxy\<close>.
    \<open>Proxy_Progress\<close> shows that every request comes to an end, by a measure that each step of a task
    decreases, and that what it ends with can be sent.
  \<^item> \<open>Server_Config\<close> models the configuration of the server from its environment (\<open>main.rs\<close>), and
    \<open>Server_Start\<close> the rest of \<open>main\<close>: the Redis pool, the address and TLS.

  The canister.

  \<^item> \<open>Cycles\<close> models \<open>cycles.rs\<close>, on words of the code's widths, against a price list on unbounded numbers;
    \<open>Canister_Agent\<close> models \<open>agent.rs\<close>: how an agent rewrites a request for its proxy, and judges the answer.
  \<^item> \<open>Canister_State\<close> models the state of \<open>store.rs\<close> with its accounting, installation and upgrades (\<open>init.rs\<close>),
    the guards (\<open>lib.rs\<close>) and the bodies of the administration (\<open>api_admin.rs\<close>).
  \<^item> \<open>Canister_Tokens\<close> models how the canister signs and refreshes the tokens of its agents (\<open>Signer\<close> in
    \<open>store.rs\<close>, \<open>ecdsa.rs\<close>, \<open>cose.rs\<close>, \<open>tasks.rs\<close>, \<open>admin_set_agents\<close>). An operation with awaits takes what it
    reads at its start and gives what it writes at its end, to be applied to whatever state there is then.
  \<^item> \<open>Canister_Admin\<close> puts every guarded method behind its guard. Its step relation \<open>canister_step\<close> has every
    way the state changes; the invariant \<open>canister_ok\<close> holds in every reachable state.
  \<^item> \<open>Canister_Api\<close> models the calls and price queries of \<open>api.rs\<close>. A call runs in segments, cut at its
    awaits; \<open>suspend\<close> makes a segment permanent and lets other messages run, \<open>or_trap\<close> takes back the segment a
    trap happens in. \<open>Api_Properties\<close> holds what the calls guarantee: refusals, failover, agreement,
    the accounting of cycles, and the equivalence of the three calls on a single agent.
  \<^item> \<open>Canister_Server\<close> joins the two parts: the server lets in what the canister's agents send.
    \<open>Replicated_Outcalls\<close> states what they are for: the replicas' copies of one outcall are sent upstream
    once, and the replicas agree on the answer.

  The examples (\<open>examples\<close>), two canisters that ask Ethereum nodes over JSON-RPC.

  \<^item> \<open>Json_Rpc\<close> models the client they share over any transport, with the locale \<open>rpc_transport\<close> as its contract;
    each example's transport is an interpretation of it.
  \<^item> \<open>Lite_Client\<close> models \<open>eth-canister-lite\<close>, which calls the proxy canister: its calls run against the
    model in \<open>Canister_Api\<close>, and its results are traced back to the agents' responses.
  \<^item> \<open>Eth_Canister\<close> models \<open>eth-canister\<close>, which has agents and tokens of its own and calls the server itself: its
    token refresh is shown to be the proxy canister's under a view, and in every reachable state
    (\<open>eth_reachable\<close>: a state with the writes still under way) the server lets in what it posts.

  The worker.

  \<^item> \<open>Base64_Url\<close> and \<open>Worker_Token\<close> model \<open>auth.ts\<close> and the class \<open>EnvVars\<close> of \<open>util.ts\<close>, and compare the
    tokens it accepts with the server's; \<open>Worker_Response\<close> models \<open>ResponseData\<close> and the forwarded headers of
    \<open>util.ts\<close>, and compares the filter with the server's.
  \<^item> \<open>Worker_Object\<close> models the Durable Object \<open>Cacher\<close> of \<open>index.ts\<close>, the lock and cache entry of one key, as
    an interpretation of the locale \<open>lock_cell\<close>, which counts the grants of a lock.
  \<^item> \<open>Worker_System\<close> models the handler \<open>fetch\<close> and \<open>polling_get\<close> of \<open>index.ts\<close>, cut at their awaits, for any
    number of requests on the objects of all keys; a call of an object can be lost before or after it was
    executed. \<open>Worker_Properties\<close> holds what every run guarantees, and where the worker falls short of it.
  \<^item> \<open>Canister_Worker\<close> composes the canister with the worker: what the canister's agents send passes the
    worker's access control, as \<open>Canister_Server\<close> shows for the server.

  \<open>Source_Tests\<close> runs the unit tests of \<open>cache/mod.rs\<close> and \<open>auth.rs\<close> on the model, and \<open>Memory_Test\<close> the timed
  test of \<open>cache/memory.rs\<close>, under every schedule of the clean-up tasks it spawns.

  Conventions. \<open>Prelude\<close> holds the result type \<open>outcome\<close> (\<open>Ok\<close>, \<open>Err\<close>, and \<open>Panic\<close> for a panic or a
  trap), the words, and Rust's operations on strings. A 64-bit number is a \<open>64 word\<close> and wraps, as in a
  release build. A string of the code is a list of characters that stand for its bytes. Time is an
  argument of every operation that reads the clock. Code that is not in the repository (HTTP types,
  JSON, CBOR, signatures, the Redis client, the management canister) is a record of functions that the
  definitions take as an argument; what is relied on is a predicate named \<open>..._documented\<close>, and each
  property that has one is applied, in its witness, to a concrete instance.

  Loops. Every loop of the code is a total function: the loop of the clean-up and trimming by a measure,
  the polling loop by its counter (\<open>cache_ttl / poll_interval\<close> rounds, which the code computes). No
  fuel is used for code; \<open>dec_pairs\<close>, a decoder of the sample codec, has one.

  In the worker a thrown exception is an \<open>Err\<close>, and one that leaves the handler a \<open>Panic\<close>; its numbers are
  integers (times in milliseconds), and the text of a header is its code units, which are below 256. The
  number of rounds of its polling is \<open>None\<close> for JavaScript's \<open>Infinity\<close>.

  Not modelled: logging; termination signals and the shutdown (\<open>shutdown_signal\<close> in \<open>main.rs\<close>); the inside of sockets, TLS, the Redis pool and the Cloudflare platform; the random
  number generator that the canister's build stubs out; the images and scripts for deployment; what
  the tests print.
\<close>

end
